(* ===== verification/Prelude.thy ===== *)
theory Prelude
  imports Main "HOL-Library.Word" "HOL-Library.Sublist" "HOL-Library.Multiset"
begin

text \<open>
  Shared material of the gateway development: the fact collections the component proofs
  draw on, the Go scalar types, panics as values, two generic interfaces (a machine whose
  steps keep an invariant, and a clean-up pass that no later operation can observe), and
  the list and word facts that several components need.
\<close>

section \<open>Fact collections\<close>

named_theorems go_eval \<open>unfolding equations that evaluate the Go library functions\<close>
named_theorems gw_inv \<open>an operation keeps its component's invariant\<close>
named_theorems gw_frame \<open>an operation leaves a field alone\<close>

section \<open>Go scalars\<close>

text \<open>
  The gateway is built for 64-bit targets, where Go's \<open>int\<close> has the width of \<open>int64\<close>.
  Both wrap around on overflow. Instants are nanoseconds counted from Go's zero
  \<open>time.Time\<close>, so the zero value of a \<open>time.Time\<close> field is the number \<open>0\<close>.
\<close>

type_synonym int64 = "64 word"
type_synonym goint = "64 word"
type_synonym uint64 = "64 word"
type_synonym duration = "64 word"
type_synonym instant = int

text \<open>Run-time panics of the Go operations the sources use.\<close>

datatype go_panic = IndexOutOfRange | DivideByZero | NegativeRepeat | NilDereference | NonPositiveTicker

abbreviation go_lt :: "int64 \<Rightarrow> int64 \<Rightarrow> bool" where
  "go_lt a b \<equiv> sint a < sint b"

abbreviation go_le :: "int64 \<Rightarrow> int64 \<Rightarrow> bool" where
  "go_le a b \<equiv> sint a \<le> sint b"

text \<open>Go's \<open>%\<close> truncates towards zero and panics on a zero divisor.\<close>

definition go_rem :: "int64 \<Rightarrow> int64 \<Rightarrow> go_panic + int64" where
  "go_rem a b =
     (if b = 0 then Inl DivideByZero
      else Inr (word_of_int (sgn (sint a) * (\<bar>sint a\<bar> mod \<bar>sint b\<bar>))))"

text \<open>Indexing a slice with a Go \<open>int\<close>.\<close>

definition go_index :: "'a list \<Rightarrow> int64 \<Rightarrow> go_panic + 'a" where
  "go_index xs i =
     (if 0 \<le> sint i \<and> sint i < int (length xs) then Inr (xs ! nat (sint i))
      else Inl IndexOutOfRange)"

section \<open>Durations and instants\<close>

definition nanosecond :: duration where "nanosecond = 1"
definition millisecond :: duration where "millisecond = 1000000"
definition second :: duration where "second = 1000000000"
definition minute :: duration where "minute = 60000000000"
definition hour :: duration where "hour = 3600000000000"

lemmas duration_units = nanosecond_def millisecond_def second_def minute_def hour_def

text \<open>\<open>Time.Sub\<close> saturates at the ends of the \<open>Duration\<close> range; \<open>Time.Add\<close> is exact.\<close>

definition time_Sub :: "instant \<Rightarrow> instant \<Rightarrow> duration" where
  "time_Sub t u =
     (if t - u < - (2 ^ 63) then word_of_int (- (2 ^ 63))
      else if t - u > 2 ^ 63 - 1 then word_of_int (2 ^ 63 - 1)
      else word_of_int (t - u))"

definition time_Add :: "instant \<Rightarrow> duration \<Rightarrow> instant" where
  "time_Add t d = t + sint d"

text \<open>\<open>time.Unix(sec, 0)\<close>: the epoch is 62135596800 seconds after the zero time.\<close>

definition time_Unix :: "int64 \<Rightarrow> instant" where
  "time_Unix sec = (62135596800 + sint sec) * 1000000000"

lemma sint_int64_range: "- (2 ^ 63) \<le> sint (w :: int64) \<and> sint w < 2 ^ 63"
  using sint_range_size [of w] by (simp add: word_size)

lemma sint_eq_iff: "sint (a :: int64) = sint b \<longleftrightarrow> a = b"
  by (auto intro: signed_word_eqI)

lemma sint_word_of_int64:
  assumes "- (2 ^ 63) \<le> k" and "k < 2 ^ 63"
  shows "sint (word_of_int k :: int64) = k"
  using assms by (simp add: sint_sbintrunc' signed_take_bit_int_eq_self)

lemma sint_word_of_nat: "k < 2 ^ 63 \<Longrightarrow> sint (word_of_nat k :: int64) = int k"
  using sint_word_of_int64 [of "int k"] by simp

lemma go_lt_nat:
  "a < 2 ^ 63 \<Longrightarrow> b < 2 ^ 63 \<Longrightarrow> go_lt (word_of_nat a) (word_of_nat b) \<longleftrightarrow> a < b"
  by (simp add: sint_word_of_nat)

lemma go_rem_nonneg:
  assumes "0 \<le> sint a" and "0 < sint b"
  shows "go_rem a b = Inr (word_of_int (sint a mod sint b))"
proof -
  have "b \<noteq> 0" using assms(2) by auto
  with assms show ?thesis by (cases "sint a = 0") (auto simp: go_rem_def sgn_if)
qed

lemma go_rem_bound:
  assumes "0 < sint b"
  shows "\<exists>r. go_rem a b = Inr r \<and> sint r < sint b"
proof -
  let ?q = "\<bar>sint a\<bar> mod \<bar>sint b\<bar>"
  let ?r = "sgn (sint a) * ?q"
  have "0 \<le> ?q" "?q < sint b" using assms by simp_all
  moreover have "?r = ?q \<or> ?r = - ?q \<or> ?r = 0" by (simp add: sgn_if)
  ultimately have "?r < sint b" "- (sint b) < ?r" by linarith+
  moreover from this have "sint (word_of_int ?r :: int64) = ?r"
    using sint_int64_range [of b] by (intro sint_word_of_int64) linarith+
  moreover have "b \<noteq> 0" using assms by auto
  ultimately show ?thesis by (simp add: go_rem_def)
qed

lemma go_rem_nat:
  assumes "k < 2 ^ 63" "0 < n" "n < 2 ^ 63"
  shows "go_rem (word_of_nat k) (word_of_nat n) = Inr (word_of_nat (k mod n))"
  using go_rem_nonneg [of "word_of_nat k" "word_of_nat n"] assms
  by (simp add: sint_word_of_nat flip: zmod_int)

lemma go_index_nat:
  assumes "j < length xs" "length xs < 2 ^ 63"
  shows "go_index xs (word_of_nat j) = Inr (xs ! j)"
  using assms by (simp add: go_index_def sint_word_of_nat)

lemma sint_time_Sub:
  "sint (time_Sub t u) = max (- (2 ^ 63)) (min (2 ^ 63 - 1) (t - u))"
  using sint_word_of_int64 [of "t - u"] by (auto simp: time_Sub_def)

lemma time_Sub_gt_iff:
  assumes "0 \<le> sint d" "sint d < 2 ^ 63 - 1"
  shows "go_lt d (time_Sub t u) \<longleftrightarrow> sint d < t - u"
  using assms by (auto simp: sint_time_Sub)

lemma sint_minute [simp]: "sint minute = 60000000000"
  by (simp add: minute_def)

section \<open>Machines with an invariant\<close>

text \<open>
  Several components are driven by a sequence of calls. One step keeping the invariant is
  enough for every sequence.
\<close>

locale invariant_machine =
  fixes step :: "'s \<Rightarrow> 'e \<Rightarrow> 's"
    and inv :: "'s \<Rightarrow> bool"
  assumes step_inv: "inv s \<Longrightarrow> inv (step s e)"
begin

lemma run_inv: "inv s \<Longrightarrow> inv (foldl step s es)"
  by (induction es arbitrary: s) (simp_all add: step_inv)

end

text \<open>
  A background clean-up pass must not be observable: what a later call answers is the same
  with and without it, in every state that is \<open>ok\<close>. The relation \<open>sim\<close> at an instant says
  which entries may differ.
\<close>

text \<open>
  A schedule lists timed calls (\<open>Some e\<close>) and clean-up ticks (\<open>None\<close>);
  \<open>timed_answers\<close> collects what the calls answer.
\<close>

fun timed_answers ::
  "(instant \<Rightarrow> 's \<Rightarrow> 'e \<Rightarrow> 's \<times> 'o) \<Rightarrow> (instant \<Rightarrow> 's \<Rightarrow> 's) \<Rightarrow> 's \<Rightarrow>
   (instant \<times> 'e option) list \<Rightarrow> 'o list" where
  "timed_answers step cleanup s [] = []"
| "timed_answers step cleanup s ((t, None) # evs) = timed_answers step cleanup (cleanup t s) evs"
| "timed_answers step cleanup s ((t, Some e) # evs) =
     (case step t s e of (s', r) \<Rightarrow> r # timed_answers step cleanup s' evs)"

locale invisible_cleanup =
  fixes ok :: "'s \<Rightarrow> bool"
    and sim :: "instant \<Rightarrow> 's \<Rightarrow> 's \<Rightarrow> bool"
    and step :: "instant \<Rightarrow> 's \<Rightarrow> 'e \<Rightarrow> 's \<times> 'o"
    and cleanup :: "instant \<Rightarrow> 's \<Rightarrow> 's"
  assumes sim_refl: "ok s \<Longrightarrow> sim t s s"
    and sim_later: "sim t s s' \<Longrightarrow> t \<le> t' \<Longrightarrow> sim t' s s'"
    and sim_cleanup: "sim t s s' \<Longrightarrow> sim t (cleanup t s) s'"
    and sim_step: "sim t s s' \<Longrightarrow> step t s e = (u, r) \<Longrightarrow>
          \<exists>u'. step t s' e = (u', r) \<and> sim t u u'"
begin

lemma answers_sim:
  assumes "sim t0 s s'" and "sorted (t0 # map fst evs)"
  shows "timed_answers step cleanup s evs =
         timed_answers step cleanup s' (filter (\<lambda>ev. snd ev \<noteq> None) evs)"
  using assms
proof (induction evs arbitrary: t0 s s')
  case (Cons ev evs)
  obtain t oe where ev: "ev = (t, oe)" by fastforce
  with Cons.prems have sim: "sim t s s'" and srt: "sorted (t # map fst evs)"
    by (auto intro: sim_later)
  show ?case
  proof (cases oe)
    case None
    with ev sim_cleanup [OF sim] srt Cons.IH show ?thesis by simp
  next
    case (Some e)
    obtain u r where st: "step t s e = (u, r)" by fastforce
    from sim_step [OF sim st] obtain u'
      where "step t s' e = (u', r)" and "sim t u u'" by blast
    with ev Some st srt Cons.IH show ?thesis by simp
  qed
qed simp

lemma cleanup_unobservable:
  assumes "ok s" and "sorted (map fst evs)"
  shows "timed_answers step cleanup s evs =
         timed_answers step cleanup s (filter (\<lambda>ev. snd ev \<noteq> None) evs)"
proof (cases evs)
  case (Cons ev evs')
  with assms(2) have "sorted (fst ev # map fst evs)" by auto
  with sim_refl [OF assms(1)] show ?thesis by (rule answers_sim)
qed simp

end

section \<open>Stable sorting by a comparison\<close>

text \<open>
  \<open>sort.SliceStable\<close> orders a slice by a \<open>less\<close> function and keeps equal elements in
  their order. Insertion from the right computes that.
\<close>

fun insert_stable :: "('a \<Rightarrow> 'a \<Rightarrow> bool) \<Rightarrow> 'a \<Rightarrow> 'a list \<Rightarrow> 'a list" where
  "insert_stable lt x [] = [x]"
| "insert_stable lt x (y # ys) =
     (if lt y x then y # insert_stable lt x ys else x # y # ys)"

definition SliceStable :: "('a \<Rightarrow> 'a \<Rightarrow> bool) \<Rightarrow> 'a list \<Rightarrow> 'a list" where
  "SliceStable lt xs = foldr (insert_stable lt) xs []"

lemma mset_insert_stable [simp]: "mset (insert_stable lt x ys) = add_mset x (mset ys)"
  by (induction ys) auto

lemma set_insert_stable [simp]: "set (insert_stable lt x ys) = insert x (set ys)"
  by (induction ys) auto

lemma mset_SliceStable [simp]: "mset (SliceStable lt xs) = mset xs"
  by (induction xs) (simp_all add: SliceStable_def)

lemma set_SliceStable [simp]: "set (SliceStable lt xs) = set xs"
  by (metis mset_SliceStable set_mset_mset)

lemma length_SliceStable [simp]: "length (SliceStable lt xs) = length xs"
  by (metis mset_SliceStable size_mset)

lemma find_SomeD: "List.find P xs = Some x \<Longrightarrow> x \<in> set xs \<and> P x"
  by (induction xs) (auto split: if_splits)

text \<open>
  Searching the sorted slice is looking for the best match in the unsorted one, where a later
  element wins only if it is strictly before in the order.
\<close>

fun first_best :: "('a \<Rightarrow> 'a \<Rightarrow> bool) \<Rightarrow> ('a \<Rightarrow> bool) \<Rightarrow> 'a list \<Rightarrow> 'a option" where
  "first_best lt P [] = None"
| "first_best lt P (x # xs) =
     (if P x then (case first_best lt P xs of
          Some y \<Rightarrow> if lt y x then Some y else Some x
        | None \<Rightarrow> Some x)
      else first_best lt P xs)"

text \<open>The comparisons in use are strict weak orders: asymmetric, with transitive negation.\<close>

locale weak_order =
  fixes lt :: "'a \<Rightarrow> 'a \<Rightarrow> bool"
  assumes asym: "lt a b \<Longrightarrow> \<not> lt b a"
    and ntrans: "\<not> lt b a \<Longrightarrow> \<not> lt c b \<Longrightarrow> \<not> lt c a"
begin

lemma irrefl: "\<not> lt a a"
  using asym by blast

lemma lt_ntrans: "lt a b \<Longrightarrow> \<not> lt c b \<Longrightarrow> lt a c"
  using ntrans [of c b a] by blast

lemma sorted_insert_stable:
  "sorted_wrt (\<lambda>a b. \<not> lt b a) ys \<Longrightarrow> sorted_wrt (\<lambda>a b. \<not> lt b a) (insert_stable lt x ys)"
  by (induction ys) (auto dest: asym ntrans)

lemma sorted_SliceStable: "sorted_wrt (\<lambda>a b. \<not> lt b a) (SliceStable lt xs)"
  by (induction xs) (simp_all add: SliceStable_def sorted_insert_stable)

text \<open>Stability: elements that compare equal to \<open>p\<close> keep their relative order.\<close>

definition same :: "'a \<Rightarrow> 'a \<Rightarrow> bool" where
  "same p x \<longleftrightarrow> \<not> lt p x \<and> \<not> lt x p"

lemma same_lt: "same p x \<Longrightarrow> lt y x \<Longrightarrow> \<not> same p y"
  unfolding same_def by (metis lt_ntrans)

lemma filter_insert_stable:
  "sorted_wrt (\<lambda>a b. \<not> lt b a) ys \<Longrightarrow>
   filter (same p) (insert_stable lt x ys) = filter (same p) (x # ys)"
proof (induction ys)
  case (Cons y ys)
  then show ?case by (auto dest: same_lt)
qed simp

lemma SliceStable_stable: "filter (same p) (SliceStable lt xs) = filter (same p) xs"
proof (induction xs)
  case (Cons x xs)
  have "SliceStable lt (x # xs) = insert_stable lt x (SliceStable lt xs)"
    by (simp add: SliceStable_def)
  with Cons filter_insert_stable [OF sorted_SliceStable] show ?case by simp
qed (simp add: SliceStable_def)

text \<open>A stable sort is determined by its input; sorting again after an append is one sort.\<close>

lemma stable_unique:
  "sorted_wrt (\<lambda>a b. \<not> lt b a) us \<Longrightarrow> sorted_wrt (\<lambda>a b. \<not> lt b a) vs \<Longrightarrow> set us = set vs \<Longrightarrow>
   \<forall>p. filter (same p) us = filter (same p) vs \<Longrightarrow> us = vs"
proof (induction us arbitrary: vs)
  case (Cons a us)
  then obtain b vs' where vs: "vs = b # vs'" by (cases vs) auto
  from Cons.prems vs have "\<not> lt b a" "\<not> lt a b" by (auto simp: irrefl)
  then have ab: "same a a" "same a b" by (simp_all add: same_def irrefl)
  from Cons.prems(4) have "filter (same a) (a # us) = filter (same a) vs" ..
  with ab vs have [simp]: "b = a" by simp
  have eq: "filter (same p) us = filter (same p) vs'" for p
    using spec [OF Cons.prems(4), of p] vs by (cases "same p a") simp_all
  have "set us = set vs'"
  proof -
    have "x \<in> set us \<longleftrightarrow> x \<in> set vs'" for x
    proof -
      have "x \<in> set us \<longleftrightarrow> x \<in> set (filter (same x) us)" by (simp add: same_def irrefl)
      also have "\<dots> \<longleftrightarrow> x \<in> set (filter (same x) vs')" by (simp only: eq)
      also have "\<dots> \<longleftrightarrow> x \<in> set vs'" by (simp add: same_def irrefl)
      finally show ?thesis .
    qed
    then show ?thesis by blast
  qed
  moreover have "sorted_wrt (\<lambda>a b. \<not> lt b a) us" "sorted_wrt (\<lambda>a b. \<not> lt b a) vs'"
    using Cons.prems(1,2) vs by simp_all
  ultimately have "us = vs'" using Cons.IH [of vs'] eq by blast
  with vs show ?case by simp
qed simp

lemma SliceStable_again: "SliceStable lt (SliceStable lt xs @ ys) = SliceStable lt (xs @ ys)"
  by (rule stable_unique) (simp_all add: sorted_SliceStable SliceStable_stable)

lemma find_insert_stable:
  "sorted_wrt (\<lambda>a b. \<not> lt b a) ys \<Longrightarrow>
   List.find P (insert_stable lt x ys) =
     (if P x then (case List.find P ys of
          Some y \<Rightarrow> if lt y x then Some y else Some x
        | None \<Rightarrow> Some x)
      else List.find P ys)"
proof (induction ys)
  case (Cons y ys)
  have "\<not> lt z x" if "\<not> lt y x" "List.find P ys = Some z" for z
  proof -
    from find_SomeD [OF that(2)] Cons.prems have "\<not> lt z y" by simp
    with that(1) show ?thesis using ntrans by blast
  qed
  with Cons show ?case by (auto split: option.splits)
qed simp

lemma find_SliceStable: "List.find P (SliceStable lt xs) = first_best lt P xs"
proof (induction xs)
  case (Cons x xs)
  have "SliceStable lt (x # xs) = insert_stable lt x (SliceStable lt xs)"
    by (simp add: SliceStable_def)
  with Cons find_insert_stable [OF sorted_SliceStable] show ?case by simp
qed (simp add: SliceStable_def)

end

section \<open>Sorting with no promise about ties\<close>

text \<open>
  The documented contract of \<open>sort.Slice\<close>: it permutes, and the result is ordered whenever
  the comparison is a strict weak order on the elements at hand. The client facts below are
  what a "largest first, keep the first \<open>k\<close>" computation gets from it.
\<close>

definition weak_order_on :: "'a set \<Rightarrow> ('a \<Rightarrow> 'a \<Rightarrow> bool) \<Rightarrow> bool" where
  "weak_order_on A lt \<longleftrightarrow>
     (\<forall>a \<in> A. \<forall>b \<in> A. lt a b \<longrightarrow> \<not> lt b a) \<and>
     (\<forall>a \<in> A. \<forall>b \<in> A. \<forall>c \<in> A. \<not> lt b a \<longrightarrow> \<not> lt c b \<longrightarrow> \<not> lt c a)"

locale slice_sorter =
  fixes Slice :: "('a \<Rightarrow> 'a \<Rightarrow> bool) \<Rightarrow> 'a list \<Rightarrow> 'a list"
  assumes permutes: "mset (Slice lt xs) = mset xs"
    and ordered: "weak_order_on (set xs) lt \<Longrightarrow> sorted_wrt (\<lambda>a b. \<not> lt b a) (Slice lt xs)"
begin

lemma length_Slice: "length (Slice lt xs) = length xs"
  by (metis permutes size_mset)

lemma set_Slice: "set (Slice lt xs) = set xs"
  by (metis permutes set_mset_mset)

lemma kept_subset: "mset (take k (Slice lt xs)) \<subseteq># mset xs"
  by (metis append_take_drop_id mset_append mset_subset_eq_add_left permutes)

lemma dropped_elements: "mset xs - mset (take k (Slice lt xs)) = mset (drop k (Slice lt xs))"
  by (metis add_diff_cancel_left' append_take_drop_id mset_append permutes)

lemma kept_before_dropped:
  assumes "weak_order_on (set xs) lt" "y \<in> set (take k (Slice lt xs))"
    "z \<in># mset xs - mset (take k (Slice lt xs))"
  shows "\<not> lt z y"
proof -
  have "sorted_wrt (\<lambda>a b. \<not> lt b a) (take k (Slice lt xs) @ drop k (Slice lt xs))"
    using ordered [OF assms(1)] by simp
  with assms(2,3) show ?thesis unfolding sorted_wrt_append dropped_elements by auto
qed

lemma kept_ordered: "weak_order_on (set xs) lt \<Longrightarrow> sorted_wrt (\<lambda>a b. \<not> lt b a) (take k (Slice lt xs))"
  by (rule sorted_wrt_take [OF ordered])

end

lemma sorted_insert_stable_on:
  assumes w: "weak_order_on A lt" and x: "x \<in> A"
  shows "set ys \<subseteq> A \<Longrightarrow> sorted_wrt (\<lambda>a b. \<not> lt b a) ys \<Longrightarrow>
    sorted_wrt (\<lambda>a b. \<not> lt b a) (insert_stable lt x ys)"
proof (induction ys)
  case (Cons y ys)
  have "\<not> lt z x" if "\<not> lt y x" "z \<in> set ys" for z
  proof -
    have "y \<in> A" "z \<in> A" "\<not> lt z y" using that Cons.prems by auto
    with w x that(1) show ?thesis unfolding weak_order_on_def by blast
  qed
  moreover have "\<not> lt x y" if "lt y x"
  proof -
    have "y \<in> A" using Cons.prems by simp
    with w x that show ?thesis unfolding weak_order_on_def by blast
  qed
  ultimately show ?case using Cons by auto
qed simp

lemma SliceStable_Cons: "SliceStable lt (x # xs) = insert_stable lt x (SliceStable lt xs)"
  by (simp add: SliceStable_def)

lemma sorted_SliceStable_on:
  "weak_order_on A lt \<Longrightarrow> set xs \<subseteq> A \<Longrightarrow> sorted_wrt (\<lambda>a b. \<not> lt b a) (SliceStable lt xs)"
proof (induction xs)
  case (Cons x xs)
  then have "sorted_wrt (\<lambda>a b. \<not> lt b a) (SliceStable lt xs)" "x \<in> A" "set (SliceStable lt xs) \<subseteq> A" by auto
  with Cons.prems(1) show ?case
    by (simp add: SliceStable_Cons sorted_insert_stable_on)
qed (simp add: SliceStable_def)

interpretation stable_sorter: slice_sorter SliceStable
  by unfold_locales (auto intro: sorted_SliceStable_on)

section \<open>Lists\<close>

text \<open>The first element that satisfies a test, as a loop with an early return finds it.\<close>

lemma find_Some_split:
  assumes "List.find P xs = Some x"
  shows "\<exists>us vs. xs = us @ x # vs \<and> P x \<and> (\<forall>u \<in> set us. \<not> P u)"
  using assms
proof (induction xs)
  case (Cons a xs)
  show ?case
  proof (cases "P a")
    case True
    with Cons.prems show ?thesis by (intro exI [of _ "[]"] exI [of _ xs]) auto
  next
    case False
    with Cons obtain us vs where "xs = us @ x # vs" "P x" "\<forall>u \<in> set us. \<not> P u" by auto
    with False show ?thesis by (intro exI [of _ "a # us"] exI [of _ vs]) auto
  qed
qed simp

lemma find_shrink:
  "List.find P xs = Some x \<Longrightarrow> Q x \<Longrightarrow> \<forall>y < n. Q y \<longrightarrow> P y \<Longrightarrow> set xs \<subseteq> {0..<n :: nat} \<Longrightarrow>
   List.find Q xs = Some x"
  by (induction xs) (auto split: if_splits)

lemma find_sorted_first:
  assumes "sorted_wrt R xs" and "List.find P xs = Some x" and "y \<in> set xs" and "P y"
  shows "y = x \<or> R x y"
proof -
  from find_Some_split [OF assms(2)] obtain us vs
    where "xs = us @ x # vs" and "\<forall>u \<in> set us. \<not> P u" by blast
  with assms(1,3,4) show ?thesis by (auto simp: sorted_wrt_append)
qed

lemma map_update_same: "f y = f (xs ! k) \<Longrightarrow> map f (xs[k := y]) = map f xs"
  by (cases "k < length xs") (simp_all add: map_update list_update_same_conv list_update_beyond)

lemma map_sum_Inr_iff: "map_sum id f x = Inr y \<longleftrightarrow> (\<exists>z. x = Inr z \<and> y = f z)"
  by (cases x) auto

lemma map_sum_Inl_iff: "map_sum id f x = Inl e \<longleftrightarrow> x = Inl e"
  by (cases x) auto

text \<open>Sequencing of steps that can fail.\<close>

definition bind_sum :: "'e + 'a \<Rightarrow> ('a \<Rightarrow> 'e + 'b) \<Rightarrow> 'e + 'b" where
  "bind_sum x f = (case x of Inl e \<Rightarrow> Inl e | Inr v \<Rightarrow> f v)"

lemma bind_sum_simps [simp]: "bind_sum (Inl e) f = Inl e" "bind_sum (Inr v) f = f v"
  by (simp_all add: bind_sum_def)

lemma bind_sum_Inr_iff: "bind_sum x f = Inr y \<longleftrightarrow> (\<exists>v. x = Inr v \<and> f v = Inr y)"
  by (cases x) auto

text \<open>The first occurrences, as a loop with a \<open>seen\<close> set keeps them.\<close>

fun keep_first :: "'a set \<Rightarrow> 'a list \<Rightarrow> 'a list" where
  "keep_first seen [] = []"
| "keep_first seen (x # xs) =
     (if x \<in> seen then keep_first seen xs else x # keep_first (insert x seen) xs)"

lemma set_keep_first: "set (keep_first seen xs) = set xs - seen"
  by (induction xs arbitrary: seen) auto

lemma distinct_keep_first: "distinct (keep_first seen xs)"
  by (induction xs arbitrary: seen) (auto simp: set_keep_first)

end
