(* ===== verification/Go_Strings.thy ===== *)
theory Go_Strings
  imports Prelude
begin

text \<open>
  The functions of Go's \<open>strings\<close>, \<open>strconv\<close> and \<open>net\<close> packages that the gateway
  calls, on byte strings. Host names, paths, header values and environment variables are
  taken to be ASCII, where \<open>ToLower\<close>, \<open>ToUpper\<close> and \<open>TrimSpace\<close> act byte by byte;
  bytes above 127 are left alone.
\<close>

section \<open>strings\<close>

definition HasPrefix :: "string \<Rightarrow> string \<Rightarrow> bool" where
  "HasPrefix s p \<longleftrightarrow> take (length p) s = p"

definition HasSuffix :: "string \<Rightarrow> string \<Rightarrow> bool" where
  "HasSuffix s x \<longleftrightarrow> length x \<le> length s \<and> drop (length s - length x) s = x"

definition TrimPrefix :: "string \<Rightarrow> string \<Rightarrow> string" where
  "TrimPrefix s p = (if HasPrefix s p then drop (length p) s else s)"

definition TrimSuffix :: "string \<Rightarrow> string \<Rightarrow> string" where
  "TrimSuffix s x = (if HasSuffix s x then take (length s - length x) s else s)"

definition CutPrefix :: "string \<Rightarrow> string \<Rightarrow> string option" where
  "CutPrefix s p = (if HasPrefix s p then Some (drop (length p) s) else None)"

fun Contains :: "string \<Rightarrow> string \<Rightarrow> bool" where
  "Contains [] sub \<longleftrightarrow> sub = []"
| "Contains (c # s) sub \<longleftrightarrow> HasPrefix (c # s) sub \<or> Contains s sub"

fun IndexByte :: "string \<Rightarrow> char \<Rightarrow> nat option" where
  "IndexByte [] c = None"
| "IndexByte (d # s) c = (if d = c then Some 0 else map_option Suc (IndexByte s c))"

definition LastIndexByte :: "string \<Rightarrow> char \<Rightarrow> nat option" where
  "LastIndexByte s c = map_option (\<lambda>i. length s - Suc i) (IndexByte (rev s) c)"

definition TrimLeftFunc :: "(char \<Rightarrow> bool) \<Rightarrow> string \<Rightarrow> string" where
  "TrimLeftFunc P s = dropWhile P s"

definition TrimFunc :: "(char \<Rightarrow> bool) \<Rightarrow> string \<Rightarrow> string" where
  "TrimFunc P s = rev (dropWhile P (rev (dropWhile P s)))"

definition isSpace :: "char \<Rightarrow> bool" where
  "isSpace c \<longleftrightarrow> c \<in> {CHR 0x20, CHR 0x09, CHR 0x0A, CHR 0x0B, CHR 0x0C, CHR 0x0D}"

definition TrimSpace :: "string \<Rightarrow> string" where
  "TrimSpace s = TrimFunc isSpace s"

definition Trim :: "string \<Rightarrow> string \<Rightarrow> string" where
  "Trim s cutset = TrimFunc (\<lambda>c. c \<in> set cutset) s"

definition lowerChar :: "char \<Rightarrow> char" where
  "lowerChar c = (if 65 \<le> (of_char c :: nat) \<and> (of_char c :: nat) \<le> 90
                  then char_of ((of_char c :: nat) + 32) else c)"

definition upperChar :: "char \<Rightarrow> char" where
  "upperChar c = (if 97 \<le> (of_char c :: nat) \<and> (of_char c :: nat) \<le> 122
                  then char_of ((of_char c :: nat) - 32) else c)"

definition ToLower :: "string \<Rightarrow> string" where
  "ToLower s = map lowerChar s"

definition ToUpper :: "string \<Rightarrow> string" where
  "ToUpper s = map upperChar s"

text \<open>
  \<open>FieldsFunc\<close> cuts at every run of separator bytes and drops the empty pieces;
  \<open>SplitByte\<close> is \<open>strings.Split\<close> with a one-byte separator, which keeps them.
\<close>

fun FieldsFunc_from :: "(char \<Rightarrow> bool) \<Rightarrow> string \<Rightarrow> string \<Rightarrow> string list" where
  "FieldsFunc_from P acc [] = (if acc = [] then [] else [rev acc])"
| "FieldsFunc_from P acc (c # s) =
     (if P c then (if acc = [] then [] else [rev acc]) @ FieldsFunc_from P [] s
      else FieldsFunc_from P (c # acc) s)"

definition FieldsFunc :: "(char \<Rightarrow> bool) \<Rightarrow> string \<Rightarrow> string list" where
  "FieldsFunc P s = FieldsFunc_from P [] s"

fun SplitByte :: "string \<Rightarrow> char \<Rightarrow> string list" where
  "SplitByte [] sep = [[]]"
| "SplitByte (c # s) sep =
     (if c = sep then [] # SplitByte s sep
      else (case SplitByte s sep of [] \<Rightarrow> [[c]] | p # ps \<Rightarrow> (c # p) # ps))"

fun Join :: "string list \<Rightarrow> string \<Rightarrow> string" where
  "Join [] sep = []"
| "Join [x] sep = x"
| "Join (x # y # zs) sep = x @ sep @ Join (y # zs) sep"

section \<open>strconv\<close>

definition digitVal :: "char \<Rightarrow> nat option" where
  "digitVal c = (if 48 \<le> (of_char c :: nat) \<and> (of_char c :: nat) \<le> 57
                 then Some (of_char c - 48) else None)"

fun decimal :: "nat \<Rightarrow> string \<Rightarrow> nat option" where
  "decimal n [] = Some n"
| "decimal n (c # s) =
     (case digitVal c of None \<Rightarrow> None | Some d \<Rightarrow> decimal (10 * n + d) s)"

text \<open>\<open>Atoi\<close>: an optional sign, at least one digit, and a value in the range of \<open>int\<close>.\<close>

definition Atoi :: "string \<Rightarrow> goint option" where
  "Atoi s =
     (let neg = HasPrefix s ''-'';
          ds = (if HasPrefix s ''-'' \<or> HasPrefix s ''+'' then drop 1 s else s)
      in if ds = [] then None
         else (case decimal 0 ds of
             None \<Rightarrow> None
           | Some n \<Rightarrow>
               (if neg then (if n \<le> 2 ^ 63 then Some (- word_of_nat n) else None)
                else (if n < 2 ^ 63 then Some (word_of_nat n) else None))))"

definition ParseBool :: "string \<Rightarrow> bool option" where
  "ParseBool s =
     (if s \<in> {''1'', ''t'', ''T'', ''true'', ''TRUE'', ''True''} then Some True
      else if s \<in> {''0'', ''f'', ''F'', ''false'', ''FALSE'', ''False''} then Some False
      else None)"

fun Itoa_nat :: "nat \<Rightarrow> string" where
  "Itoa_nat n = (if n < 10 then [char_of (48 + n)]
                 else Itoa_nat (n div 10) @ [char_of (48 + n mod 10)])"

declare Itoa_nat.simps [simp del]

definition Itoa :: "int \<Rightarrow> string" where
  "Itoa i = (if i < 0 then CHR ''-'' # Itoa_nat (nat (- i)) else Itoa_nat (nat i))"

section \<open>net\<close>

text \<open>
  \<open>net.SplitHostPort\<close>: \<open>None\<close> is the error return (no port, too many colons, or a
  misplaced bracket).
\<close>

definition SplitHostPort :: "string \<Rightarrow> (string \<times> string) option" where
  "SplitHostPort hp =
     (case LastIndexByte hp CHR '':'' of
        None \<Rightarrow> None
      | Some i \<Rightarrow>
          (if HasPrefix hp ''['' then
             (case IndexByte hp CHR '']'' of
                None \<Rightarrow> None
              | Some e \<Rightarrow>
                  (if e + 1 \<noteq> i then None
                   else if CHR ''['' \<in> set (drop 1 hp) then None
                   else if CHR '']'' \<in> set (drop (e + 1) hp) then None
                   else Some (drop 1 (take e hp), drop (i + 1) hp)))
           else if CHR '':'' \<in> set (take i hp) then None
           else if CHR ''['' \<in> set hp \<or> CHR '']'' \<in> set hp then None
           else Some (take i hp, drop (i + 1) hp)))"

definition JoinHostPort :: "string \<Rightarrow> string \<Rightarrow> string" where
  "JoinHostPort host port =
     (if CHR '':'' \<in> set host then ''['' @ host @ '']:'' @ port else host @ '':'' @ port)"

lemmas go_string_defs [go_eval] =
  HasPrefix_def HasSuffix_def TrimPrefix_def TrimSuffix_def CutPrefix_def LastIndexByte_def
  TrimFunc_def isSpace_def TrimSpace_def Trim_def lowerChar_def upperChar_def ToLower_def
  ToUpper_def FieldsFunc_def digitVal_def Atoi_def ParseBool_def Itoa_def SplitHostPort_def
  JoinHostPort_def Itoa_nat.simps

section \<open>Facts about prefixes and suffixes\<close>

lemma HasPrefix_iff: "HasPrefix s p \<longleftrightarrow> (\<exists>r. s = p @ r)"
  by (metis HasPrefix_def append_eq_conv_conj append_take_drop_id)

lemma HasSuffix_iff: "HasSuffix s x \<longleftrightarrow> (\<exists>r. s = r @ x)"
proof
  assume "HasSuffix s x"
  then have "s = take (length s - length x) s @ x"
    by (metis HasSuffix_def append_take_drop_id)
  then show "\<exists>r. s = r @ x" by blast
qed (auto simp: HasSuffix_def)

lemma HasPrefix_append [simp]: "HasPrefix (p @ r) p"
  by (simp add: HasPrefix_iff)

lemma HasPrefix_refl [simp]: "HasPrefix s s"
  by (simp add: HasPrefix_def)

lemma HasPrefix_Nil [simp]: "HasPrefix s []"
  by (simp add: HasPrefix_def)

lemma HasPrefix_single: "HasPrefix s [c] \<longleftrightarrow> (\<exists>r. s = c # r)"
  by (simp add: HasPrefix_iff)

lemma HasSuffix_append [simp]: "HasSuffix (r @ x) x"
  by (simp add: HasSuffix_iff)

lemma TrimPrefix_append [simp]: "TrimPrefix (p @ r) p = r"
  by (simp add: TrimPrefix_def)

lemma CutPrefix_Some: "CutPrefix s p = Some r \<longleftrightarrow> s = p @ r"
  by (auto simp: CutPrefix_def HasPrefix_iff)

lemma TrimSuffix_single: "TrimSuffix s [c] = (if s \<noteq> [] \<and> last s = c then butlast s else s)"
proof (cases s rule: rev_cases)
  case (snoc ys y)
  then show ?thesis by (simp add: TrimSuffix_def HasSuffix_def)
qed (simp add: TrimSuffix_def HasSuffix_def)

section \<open>Facts about searching\<close>

lemma IndexByte_None: "IndexByte s c = None \<longleftrightarrow> c \<notin> set s"
  by (induction s) auto

lemma IndexByte_Some:
  "IndexByte s c = Some i \<Longrightarrow> i < length s \<and> s ! i = c \<and> c \<notin> set (take i s)"
  by (induction s arbitrary: i) (auto split: if_splits)

lemma IndexByte_append: "c \<notin> set u \<Longrightarrow> IndexByte (u @ c # v) c = Some (length u)"
  by (induction u) auto

lemma LastIndexByte_None: "LastIndexByte s c = None \<longleftrightarrow> c \<notin> set s"
  by (simp add: LastIndexByte_def IndexByte_None)

lemma LastIndexByte_append: "c \<notin> set v \<Longrightarrow> LastIndexByte (u @ c # v) c = Some (length u)"
  using IndexByte_append [of c "rev v" "rev u"] by (simp add: LastIndexByte_def)

section \<open>Facts about trimming and case\<close>

lemma lowerChar_idem [simp]: "lowerChar (lowerChar c) = lowerChar c"
proof (cases "65 \<le> (of_char c :: nat) \<and> (of_char c :: nat) \<le> 90")
  case True
  then have "(of_char c :: nat) + 32 < 256" by linarith
  with True show ?thesis by (simp add: lowerChar_def of_char_of)
next
  case False
  then show ?thesis by (simp only: lowerChar_def if_False)
qed

lemma ToLower_idem [simp]: "ToLower (ToLower s) = ToLower s"
  by (simp add: ToLower_def comp_def)

lemma lowerChar_fixed:
  assumes "\<not> (65 \<le> (of_char d :: nat) \<and> (of_char d :: nat) \<le> 90)"
    and "\<not> (97 \<le> (of_char d :: nat) \<and> (of_char d :: nat) \<le> 122)"
  shows "lowerChar c = d \<longleftrightarrow> c = d"
proof (cases "65 \<le> (of_char c :: nat) \<and> (of_char c :: nat) \<le> 90")
  case True
  then have "(of_char (lowerChar c) :: nat) = of_char c + 32" by (simp add: lowerChar_def of_char_of)
  with True assms show ?thesis by auto
next
  case False
  then have "lowerChar c = c" by (simp only: lowerChar_def if_False)
  then show ?thesis by simp
qed

lemma lowerChar_punctuation:
  "lowerChar c = CHR '':'' \<longleftrightarrow> c = CHR '':''" "lowerChar c = CHR ''['' \<longleftrightarrow> c = CHR ''[''"
  "lowerChar c = CHR '']'' \<longleftrightarrow> c = CHR '']''" "lowerChar c = CHR ''.'' \<longleftrightarrow> c = CHR ''.''"
  by (simp_all add: lowerChar_fixed of_char_of)

lemma ToLower_punctuation:
  "CHR '':'' \<in> set (ToLower s) \<longleftrightarrow> CHR '':'' \<in> set s"
  "CHR ''['' \<in> set (ToLower s) \<longleftrightarrow> CHR ''['' \<in> set s"
  "CHR '']'' \<in> set (ToLower s) \<longleftrightarrow> CHR '']'' \<in> set s"
  by (auto simp: ToLower_def image_iff lowerChar_punctuation eq_commute [of _ "lowerChar _"])

lemma ToLower_append: "ToLower (s @ t) = ToLower s @ ToLower t"
  by (simp add: ToLower_def)

lemma ToLower_empty [simp]: "ToLower [] = []"
  by (simp add: ToLower_def)

lemma ToLower_Nil [simp]: "ToLower s = [] \<longleftrightarrow> s = []"
  by (simp add: ToLower_def)

lemma length_ToLower [simp]: "length (ToLower s) = length s"
  by (simp add: ToLower_def)

lemma last_ToLower: "s \<noteq> [] \<Longrightarrow> last (ToLower s) = lowerChar (last s)"
  by (simp add: ToLower_def last_map)

lemma TrimFunc_ends:
  "TrimFunc P s \<noteq> [] \<Longrightarrow> \<not> P (hd (TrimFunc P s)) \<and> \<not> P (last (TrimFunc P s))"
proof -
  assume ne: "TrimFunc P s \<noteq> []"
  define t where "t = dropWhile P s"
  define u where "u = dropWhile P (rev t)"
  have T: "TrimFunc P s = rev u" by (simp add: TrimFunc_def u_def t_def)
  with ne have "u \<noteq> []" by simp
  then have "\<not> P (hd u)" unfolding u_def by (simp add: hd_dropWhile)
  moreover have "\<exists>w. rev t = w @ u" unfolding u_def by (metis takeWhile_dropWhile_id)
  then obtain w where "t = rev u @ rev w" by (metis rev_append rev_rev_ident)
  then have "t \<noteq> []" and "hd t = hd (rev u)" using \<open>u \<noteq> []\<close> by auto
  then have "\<not> P (hd (rev u))" unfolding t_def by (metis hd_dropWhile)
  ultimately show ?thesis using T \<open>u \<noteq> []\<close> by (simp add: last_rev)
qed

lemma TrimFunc_id: "s = [] \<or> (\<not> P (hd s) \<and> \<not> P (last s)) \<Longrightarrow> TrimFunc P s = s"
proof -
  assume *: "s = [] \<or> (\<not> P (hd s) \<and> \<not> P (last s))"
  then have "dropWhile P s = s" by (cases s) auto
  moreover from * have "dropWhile P (rev s) = rev s" by (cases s rule: rev_cases) auto
  ultimately show ?thesis by (simp add: TrimFunc_def)
qed

lemma TrimFunc_idem [simp]: "TrimFunc P (TrimFunc P s) = TrimFunc P s"
  by (rule TrimFunc_id) (use TrimFunc_ends in blast)

lemma set_TrimFunc: "set (TrimFunc P s) \<subseteq> set s"
  by (auto simp: TrimFunc_def dest!: set_dropWhileD)

lemma TrimFunc_none: "(\<forall>c \<in> set s. \<not> P c) \<Longrightarrow> TrimFunc P s = s"
  by (rule TrimFunc_id) auto

section \<open>Splitting and joining\<close>

lemma SplitByte_nonempty [simp]: "SplitByte s sep \<noteq> []"
  by (induction s) (auto split: list.splits)

lemma SplitByte_hd: "hd (SplitByte s sep) = takeWhile (\<lambda>c. c \<noteq> sep) s"
proof (induction s)
  case (Cons c s)
  then show ?case by (cases "SplitByte s sep") (auto dest: arg_cong [where f = "\<lambda>x. x = []"])
qed simp

lemma Join_Cons: "xs \<noteq> [] \<Longrightarrow> Join (x # xs) sep = x @ sep @ Join xs sep"
  by (cases xs) auto

lemma Join_SplitByte: "Join (SplitByte s sep) [sep] = s"
proof (induction s)
  case (Cons c s)
  show ?case
  proof (cases "c = sep")
    case True
    with Cons show ?thesis by (simp add: Join_Cons)
  next
    case False
    obtain p ps where sp: "SplitByte s sep = p # ps" by (cases "SplitByte s sep") auto
    with False have "SplitByte (c # s) sep = (c # p) # ps" by simp
    moreover have "Join ((c # p) # ps) [sep] = c # Join (p # ps) [sep]" by (cases ps) auto
    ultimately show ?thesis using Cons sp by simp
  qed
qed simp

lemma FieldsFunc_from_fields:
  "list_all (\<lambda>c. \<not> P c) acc \<Longrightarrow>
   list_all (\<lambda>f. f \<noteq> [] \<and> list_all (\<lambda>c. \<not> P c) f) (FieldsFunc_from P acc s)"
  by (induction s arbitrary: acc) auto

lemma FieldsFunc_fields: "f \<in> set (FieldsFunc P s) \<Longrightarrow> f \<noteq> [] \<and> (\<forall>c \<in> set f. \<not> P c)"
  using FieldsFunc_from_fields [of P "[]" s] by (auto simp: FieldsFunc_def list_all_iff)

lemma FieldsFunc_from_concat:
  "concat (FieldsFunc_from P acc s) = rev acc @ filter (\<lambda>c. \<not> P c) s"
  by (induction s arbitrary: acc) auto

lemma FieldsFunc_concat: "concat (FieldsFunc P s) = filter (\<lambda>c. \<not> P c) s"
  unfolding FieldsFunc_def by (simp add: FieldsFunc_from_concat)

section \<open>Hosts and ports\<close>

lemma SplitHostPort_no_colon: "CHR '':'' \<notin> set h \<Longrightarrow> SplitHostPort h = None"
  by (simp add: SplitHostPort_def LastIndexByte_None [THEN iffD2])

lemma SplitHostPort_plain:
  assumes "CHR '':'' \<notin> set h" "CHR ''['' \<notin> set h" "CHR '']'' \<notin> set h"
    and "CHR '':'' \<notin> set p" "CHR ''['' \<notin> set p" "CHR '']'' \<notin> set p"
  shows "SplitHostPort (h @ CHR '':'' # p) = Some (h, p)"
proof -
  have "\<not> HasPrefix (h @ CHR '':'' # p) ''[''"
    using assms by (cases h) (auto simp: HasPrefix_single)
  with assms show ?thesis by (simp add: SplitHostPort_def LastIndexByte_append)
qed

lemma SplitHostPort_bracketed:
  assumes "CHR ''['' \<notin> set h" "CHR '']'' \<notin> set h"
    and "CHR '':'' \<notin> set p" "CHR ''['' \<notin> set p" "CHR '']'' \<notin> set p"
  shows "SplitHostPort (CHR ''['' # h @ CHR '']'' # CHR '':'' # p) = Some (h, p)"
proof -
  let ?hp = "CHR ''['' # h @ CHR '']'' # CHR '':'' # p"
  have "LastIndexByte ((CHR ''['' # h @ [CHR '']'']) @ CHR '':'' # p) CHR '':'' =
        Some (length (CHR ''['' # h @ [CHR '']'']))"
    using assms by (intro LastIndexByte_append) simp
  then have 1: "LastIndexByte ?hp CHR '':'' = Some (length h + 2)" by simp
  have "IndexByte ((CHR ''['' # h) @ CHR '']'' # (CHR '':'' # p)) CHR '']'' =
        Some (length (CHR ''['' # h))"
    using assms by (intro IndexByte_append) simp
  then have 2: "IndexByte ?hp CHR '']'' = Some (length h + 1)" by simp
  show ?thesis
    unfolding SplitHostPort_def 1 2 using assms by (simp add: HasPrefix_single)
qed

lemma SplitHostPort_bracketed_only:
  assumes "CHR '']'' \<notin> set h"
  shows "SplitHostPort (CHR ''['' # h @ '']'') = None"
proof -
  let ?hp = "CHR ''['' # h @ '']''"
  have "IndexByte ((CHR ''['' # h) @ CHR '']'' # []) CHR '']'' = Some (length (CHR ''['' # h))"
    using assms by (intro IndexByte_append) simp
  then have "IndexByte ?hp CHR '']'' = Some (length h + 1)" by simp
  moreover have "i < length ?hp" if "LastIndexByte ?hp CHR '':'' = Some i" for i
    using that by (auto simp: LastIndexByte_def)
  ultimately show ?thesis
    by (fastforce simp: SplitHostPort_def HasPrefix_single split: option.split)
qed

lemma SplitHostPort_JoinHostPort:
  assumes "CHR ''['' \<notin> set h" "CHR '']'' \<notin> set h"
    and "CHR '':'' \<notin> set p" "CHR ''['' \<notin> set p" "CHR '']'' \<notin> set p"
  shows "SplitHostPort (JoinHostPort h p) = Some (h, p)"
  using SplitHostPort_plain SplitHostPort_bracketed assms by (auto simp: JoinHostPort_def)

end
