(* ===== verification/Go_Text.thy ===== *)
theory Go_Text
  imports Go_Strings
begin

text \<open>
  Text as the terminal code sees it. A Go string is a list of bytes (a \<open>char\<close> is one
  byte); \<open>range\<close> over it decodes UTF-8 into code points, \<open>len\<close> counts bytes and the
  widths of \<open>fmt\<close> count code points. Here are the decoder and encoder of the language,
  the round trip between them, \<open>strings.Repeat\<close> and the padding verbs of \<open>fmt\<close>.
\<close>

section \<open>UTF-8\<close>

type_synonym rune = nat

definition RuneError :: rune where "RuneError = 0xFFFD"

definition byte_in :: "nat \<Rightarrow> nat \<Rightarrow> char \<Rightarrow> bool" where
  "byte_in lo hi c \<longleftrightarrow> lo \<le> of_char c \<and> of_char c \<le> hi"

abbreviation cont_byte :: "char \<Rightarrow> bool" where
  "cont_byte \<equiv> byte_in 0x80 0xBF"

text \<open>
  One step of \<open>range\<close>: the code point and the number of bytes it takes. An invalid
  sequence counts as one byte and yields \<open>RuneError\<close>; overlong forms, surrogates and
  values above \<open>0x10FFFF\<close> are invalid, which the range of the second byte excludes.
\<close>

definition accept_lo :: "nat \<Rightarrow> nat" where
  "accept_lo b0 = (if b0 = 0xE0 then 0xA0 else if b0 = 0xF0 then 0x90 else 0x80)"

definition accept_hi :: "nat \<Rightarrow> nat" where
  "accept_hi b0 = (if b0 = 0xED then 0x9F else if b0 = 0xF4 then 0x8F else 0xBF)"

definition decodeRune :: "char \<Rightarrow> string \<Rightarrow> rune \<times> nat" where
  "decodeRune c0 s =
     (let b0 = of_char c0 :: nat in
      if b0 < 0x80 then (b0, 1)
      else if byte_in 0xC2 0xDF c0 then
        (case s of
           c1 # _ \<Rightarrow> if cont_byte c1 then ((b0 - 0xC0) * 64 + (of_char c1 - 0x80), 2) else (RuneError, 1)
         | _ \<Rightarrow> (RuneError, 1))
      else if byte_in 0xE0 0xEF c0 then
        (case s of
           c1 # c2 # _ \<Rightarrow>
             if byte_in (accept_lo b0) (accept_hi b0) c1 \<and> cont_byte c2
             then ((b0 - 0xE0) * 4096 + (of_char c1 - 0x80) * 64 + (of_char c2 - 0x80), 3)
             else (RuneError, 1)
         | _ \<Rightarrow> (RuneError, 1))
      else if byte_in 0xF0 0xF4 c0 then
        (case s of
           c1 # c2 # c3 # _ \<Rightarrow>
             if byte_in (accept_lo b0) (accept_hi b0) c1 \<and>
                cont_byte c2 \<and> cont_byte c3
             then ((b0 - 0xF0) * 262144 + (of_char c1 - 0x80) * 4096 + (of_char c2 - 0x80) * 64 +
                   (of_char c3 - 0x80), 4)
             else (RuneError, 1)
         | _ \<Rightarrow> (RuneError, 1))
      else (RuneError, 1))"

function runes :: "string \<Rightarrow> rune list" where
  "runes [] = []"
| "runes (c # s) = fst (decodeRune c s) # runes (drop (snd (decodeRune c s) - 1) s)"
  by pat_completeness auto
termination by (relation "measure length") auto

text \<open>\<open>strings.Builder.WriteRune\<close>.\<close>

definition encodeRune :: "rune \<Rightarrow> string" where
  "encodeRune r =
     (if r < 0x80 then [char_of r]
      else if r < 0x800 then [char_of (0xC0 + r div 64), char_of (0x80 + r mod 64)]
      else if 0x10FFFF < r \<or> 0xD800 \<le> r \<and> r \<le> 0xDFFF then [CHR 0xEF, CHR 0xBF, CHR 0xBD]
      else if r < 0x10000 then
        [char_of (0xE0 + r div 4096), char_of (0x80 + r div 64 mod 64), char_of (0x80 + r mod 64)]
      else
        [char_of (0xF0 + r div 262144), char_of (0x80 + r div 4096 mod 64),
         char_of (0x80 + r div 64 mod 64), char_of (0x80 + r mod 64)])"

definition valid_rune :: "rune \<Rightarrow> bool" where
  "valid_rune r \<longleftrightarrow> r \<le> 0x10FFFF \<and> \<not> (0xD800 \<le> r \<and> r \<le> 0xDFFF)"

definition utf8 :: "rune list \<Rightarrow> string" where
  "utf8 rs = concat (map encodeRune rs)"

definition RuneCount :: "string \<Rightarrow> nat" where
  "RuneCount s = length (runes s)"

text \<open>A string that is the encoding of some code points.\<close>

definition valid_utf8 :: "string \<Rightarrow> bool" where
  "valid_utf8 s \<longleftrightarrow> utf8 (runes s) = s \<and> (\<forall>r \<in> set (runes s). valid_rune r)"

lemma utf8_simps [simp]: "utf8 [] = []" "utf8 (r # rs) = encodeRune r @ utf8 rs"
  "utf8 (rs @ rs') = utf8 rs @ utf8 rs'"
  by (simp_all add: utf8_def)

lemma of_char_of_small [simp]: "n < 256 \<Longrightarrow> of_char (char_of n :: char) = (n :: nat)"
  by simp

lemma decode_two:
  "2 \<le> a \<Longrightarrow> a < 32 \<Longrightarrow> b < 64 \<Longrightarrow>
   decodeRune (char_of (0xC0 + a)) (char_of (0x80 + b) # s) = (a * 64 + b, 2)"
  by (simp add: decodeRune_def byte_in_def)

lemma decode_three:
  "a < 16 \<Longrightarrow> b < 64 \<Longrightarrow> c < 64 \<Longrightarrow> (a = 0 \<longrightarrow> 32 \<le> b) \<Longrightarrow> (a = 13 \<longrightarrow> b < 32) \<Longrightarrow>
   decodeRune (char_of (0xE0 + a)) (char_of (0x80 + b) # char_of (0x80 + c) # s) = (a * 4096 + b * 64 + c, 3)"
  by (simp add: decodeRune_def byte_in_def Let_def accept_lo_def accept_hi_def) linarith?

lemma decode_four:
  "a < 5 \<Longrightarrow> b < 64 \<Longrightarrow> c < 64 \<Longrightarrow> d < 64 \<Longrightarrow> (a = 0 \<longrightarrow> 16 \<le> b) \<Longrightarrow> (a = 4 \<longrightarrow> b < 16) \<Longrightarrow>
   decodeRune (char_of (0xF0 + a)) (char_of (0x80 + b) # char_of (0x80 + c) # char_of (0x80 + d) # s) =
     (a * 262144 + b * 4096 + c * 64 + d, 4)"
  by (simp add: decodeRune_def byte_in_def Let_def accept_lo_def accept_hi_def) linarith?

lemma runes_encodeRune:
  assumes "valid_rune r"
  shows "runes (encodeRune r @ s) = r # runes s"
proof -
  have digits: "r div 64 * 64 + r mod 64 = r" "r div 4096 * 64 + r div 64 mod 64 = r div 64"
    "r div 262144 * 64 + r div 4096 mod 64 = r div 4096"
    using div_mult_mod_eq [of "r div 64" 64] div_mult_mod_eq [of "r div 4096" 64]
    by (simp_all add: div_mult2_eq [symmetric])
  have small: "r mod 64 < 64" "r div 64 mod 64 < 64" "r div 4096 mod 64 < 64" by simp_all
  from digits have split6: "(r div 4096) * 4096 + (r div 64 mod 64) * 64 + r mod 64 = r"
    "(r div 262144) * 262144 + (r div 4096 mod 64) * 4096 + (r div 64 mod 64) * 64 + r mod 64 = r"
    by linarith+
  consider "r < 0x80" | "0x80 \<le> r" "r < 0x800" | "0x800 \<le> r" "r < 0x10000" "\<not> (0xD800 \<le> r \<and> r \<le> 0xDFFF)"
    | "0x10000 \<le> r" "r \<le> 0x10FFFF"
    using assms unfolding valid_rune_def by linarith
  then show ?thesis
  proof cases
    case 1
    then show ?thesis by (simp add: encodeRune_def decodeRune_def)
  next
    case 2
    then have "2 \<le> r div 64" "r div 64 < 32" by auto
    with 2 show ?thesis
      by (simp add: encodeRune_def decode_two)
  next
    case 3
    then have "r div 4096 < 16" "r div 4096 = 0 \<longrightarrow> 32 \<le> r div 64 mod 64"
      "r div 4096 = 13 \<longrightarrow> r div 64 mod 64 < 32"
      using digits small by linarith+
    from decode_three [OF this(1) small(2,1) this(2,3)] 3 split6(1) show ?thesis
      by (auto simp: encodeRune_def)
  next
    case 4
    then have "r div 262144 < 5" "r div 262144 = 0 \<longrightarrow> 16 \<le> r div 4096 mod 64"
      "r div 262144 = 4 \<longrightarrow> r div 4096 mod 64 < 16"
      using digits small by linarith+
    from decode_four [OF this(1) small(3,2,1) this(2,3)] 4 split6(2) show ?thesis
      by (simp add: encodeRune_def)
  qed
qed

lemma runes_utf8_append: "(\<forall>r \<in> set rs. valid_rune r) \<Longrightarrow> runes (utf8 rs @ s) = rs @ runes s"
  by (induction rs) (simp_all add: runes_encodeRune)

lemma runes_utf8: "(\<forall>r \<in> set rs. valid_rune r) \<Longrightarrow> runes (utf8 rs) = rs"
  using runes_utf8_append [of rs "[]"] by simp

lemma valid_utf8_utf8: "(\<forall>r \<in> set rs. valid_rune r) \<Longrightarrow> valid_utf8 (utf8 rs)"
  by (simp add: valid_utf8_def runes_utf8)

lemma runes_append: "valid_utf8 s \<Longrightarrow> runes (s @ t) = runes s @ runes t"
  unfolding valid_utf8_def using runes_utf8_append [of "runes s" t] by simp

lemma valid_utf8_append: "valid_utf8 s \<Longrightarrow> valid_utf8 t \<Longrightarrow> valid_utf8 (s @ t)"
  using runes_append [of s t] by (auto simp: valid_utf8_def)

text \<open>After valid text, the rest decides.\<close>

lemma valid_utf8_append_iff: "valid_utf8 s \<Longrightarrow> valid_utf8 (s @ t) \<longleftrightarrow> valid_utf8 t"
  using runes_append [of s t] by (auto simp: valid_utf8_def)

lemma valid_utf8_Nil [simp]: "valid_utf8 []"
  by (simp add: valid_utf8_def)

text \<open>Whatever the bytes, decoding yields valid code points.\<close>

lemma valid_RuneError [simp]: "valid_rune RuneError"
  by (simp add: valid_rune_def RuneError_def)

lemma decode_two_valid:
  assumes "byte_in 0xC2 0xDF c0" "cont_byte c1"
  shows "valid_rune ((of_char c0 - 0xC0) * 64 + (of_char c1 - 0x80))"
proof -
  define a b :: nat where "a = of_char c0 - 0xC0" and "b = of_char c1 - 0x80"
  have "a < 32" "b < 64" using assms by (auto simp: byte_in_def a_def b_def)
  then show ?thesis unfolding a_def [symmetric] b_def [symmetric] valid_rune_def by linarith
qed

lemma decode_three_valid:
  assumes "byte_in 0xE0 0xEF c0" "byte_in (accept_lo (of_char c0)) (accept_hi (of_char c0)) c1" "cont_byte c2"
  shows "valid_rune ((of_char c0 - 0xE0) * 4096 + (of_char c1 - 0x80) * 64 + (of_char c2 - 0x80))"
proof -
  define a b c :: nat where "a = of_char c0 - 0xE0" and "b = of_char c1 - 0x80" and "c = of_char c2 - 0x80"
  have "a < 13 \<or> 13 < a \<or> a = 13 \<and> b < 32" "a < 16" "b < 64" "c < 64"
    using assms by (auto simp: a_def b_def c_def byte_in_def accept_hi_def split: if_splits)
  then show ?thesis
    unfolding a_def [symmetric] b_def [symmetric] c_def [symmetric] valid_rune_def by linarith
qed

lemma decode_four_valid:
  assumes "byte_in 0xF0 0xF4 c0" "byte_in (accept_lo (of_char c0)) (accept_hi (of_char c0)) c1" "cont_byte c2" "cont_byte c3"
  shows "valid_rune ((of_char c0 - 0xF0) * 262144 + (of_char c1 - 0x80) * 4096 + (of_char c2 - 0x80) * 64 + (of_char c3 - 0x80))"
proof -
  define a b c d :: nat where "a = of_char c0 - 0xF0" and "b = of_char c1 - 0x80"
    and "c = of_char c2 - 0x80" and "d = of_char c3 - 0x80"
  have "a = 0 \<and> 16 \<le> b \<or> 1 \<le> a \<and> a < 4 \<or> a = 4 \<and> b < 16" "b < 64" "c < 64" "d < 64"
    using assms by (auto simp: a_def b_def c_def d_def byte_in_def accept_lo_def accept_hi_def split: if_splits)
  then show ?thesis
    unfolding a_def [symmetric] b_def [symmetric] c_def [symmetric] d_def [symmetric] valid_rune_def by linarith
qed

lemma decodeRune_valid: "valid_rune (fst (decodeRune c s))"
proof -
  have "valid_rune (of_char c)" if "of_char c < (0x80 :: nat)" using that by (simp add: valid_rune_def)
  then show ?thesis
    by (simp add: decodeRune_def Let_def decode_two_valid decode_three_valid decode_four_valid split: list.split)
qed

lemma runes_valid: "\<forall>r \<in> set (runes s). valid_rune r"
  by (induction s rule: runes.induct) (auto simp: decodeRune_valid)

section \<open>ASCII text\<close>

definition ascii :: "string \<Rightarrow> bool" where
  "ascii s \<longleftrightarrow> (\<forall>c \<in> set s. of_char c < (0x80 :: nat))"

lemma ascii_simps [simp]:
  "ascii []" "ascii (c # s) \<longleftrightarrow> of_char c < (0x80 :: nat) \<and> ascii s"
  "ascii (s @ t) \<longleftrightarrow> ascii s \<and> ascii t"
  by (auto simp: ascii_def)

lemma runes_ascii: "ascii s \<Longrightarrow> runes s = map of_char s"
  by (induction s) (simp_all add: decodeRune_def)

lemma utf8_ascii: "ascii s \<Longrightarrow> utf8 (map of_char s) = s"
  by (induction s) (simp_all add: encodeRune_def)

lemma ascii_valid: "ascii s \<Longrightarrow> valid_utf8 s"
  by (auto simp: valid_utf8_def runes_ascii utf8_ascii valid_rune_def ascii_def)

lemma ascii_bits: "ascii s \<longleftrightarrow> list_all (\<lambda>c. \<not> digit7 c) s"
proof -
  have "of_char c < (0x80 :: nat) \<longleftrightarrow> \<not> digit7 c" for c by (cases c) (simp split: bool.split)
  then show ?thesis by (simp add: ascii_def list_all_iff)
qed

lemma ascii_Itoa: "ascii (Itoa i)"
proof -
  have "ascii (Itoa_nat n)" for n
  proof (induction n rule: Itoa_nat.induct)
    case (1 n)
    have "48 + n mod 10 < 128" using mod_less_divisor [of 10 n] by linarith
    with 1 show ?case by (subst Itoa_nat.simps) (simp add: ascii_def)
  qed
  then show ?thesis by (simp add: Itoa_def)
qed

section \<open>Repetition and padding\<close>

text \<open>\<open>strings.Repeat\<close> panics on a negative count.\<close>

definition Repeat :: "string \<Rightarrow> int \<Rightarrow> go_panic + string" where
  "Repeat s n = (if n < 0 then Inl NegativeRepeat else Inr (concat (replicate (nat n) s)))"

abbreviation repeated :: "nat \<Rightarrow> string \<Rightarrow> string" where
  "repeated n s \<equiv> concat (replicate n s)"

abbreviation spaces :: "nat \<Rightarrow> string" where
  "spaces n \<equiv> replicate n CHR '' ''"

text \<open>\<open>%-ns\<close>, \<open>%ns\<close> and \<open>%0nd\<close>.\<close>

definition pad_right :: "nat \<Rightarrow> string \<Rightarrow> string" where
  "pad_right n s = s @ spaces (n - RuneCount s)"

definition pad_left :: "nat \<Rightarrow> string \<Rightarrow> string" where
  "pad_left n s = spaces (n - RuneCount s) @ s"

definition zero_pad :: "nat \<Rightarrow> int \<Rightarrow> string" where
  "zero_pad n i =
     (let ds = Itoa_nat (nat \<bar>i\<bar>); sgn = (if i < 0 then ''-'' else [])
      in sgn @ replicate (n - length sgn - length ds) CHR ''0'' @ ds)"

lemma runes_spaces [simp]: "runes (spaces n) = replicate n 32"
  by (subst runes_ascii) (auto simp: ascii_def)

lemma ascii_spaces [simp]: "ascii (spaces n)"
  by (auto simp: ascii_def)

lemma RuneCount_append: "valid_utf8 s \<Longrightarrow> RuneCount (s @ t) = RuneCount s + RuneCount t"
  by (simp add: RuneCount_def runes_append)

lemma RuneCount_spaces [simp]: "RuneCount (spaces n) = n"
  by (simp add: RuneCount_def)

lemma RuneCount_pad_right: "valid_utf8 s \<Longrightarrow> RuneCount (pad_right n s) = max n (RuneCount s)"
  by (simp add: pad_right_def RuneCount_append)

lemma RuneCount_ascii: "ascii s \<Longrightarrow> RuneCount s = length s"
  by (simp add: RuneCount_def runes_ascii)

lemma pad_right_ascii: "ascii s \<Longrightarrow> pad_right n s = s @ spaces (n - length s)"
  by (simp add: pad_right_def RuneCount_ascii)

lemma spaces_repeated: "repeated n '' '' = spaces n"
  by (induction n) simp_all

end
