(* ===== verification/Collectors.thy ===== *)
theory Collectors
  imports Go_Text
begin

text \<open>
  \<open>metrics.go\<close> and the collectors of \<open>system_monitor.go\<close>: what is declared, and the
  registration in the \<open>init\<close> functions. The Prometheus library is a parameter: a registry
  that accepts or refuses a collector, and a test of label values. \<open>MustRegister\<close> and
  \<open>WithLabelValues\<close> panic where the library refuses.
\<close>

section \<open>Declarations\<close>

text \<open>The buckets of the histogram are the library's default ones.\<close>

datatype collector_kind = CounterVec | HistogramVec | Gauge | GaugeVec | Counter

record Collector =
  co_kind :: collector_kind
  co_Name :: string
  co_Help :: string
  co_labels :: "string list"

definition requestsTotal :: Collector where
  "requestsTotal = \<lparr>co_kind = CounterVec, co_Name = ''http_requests_total'',
     co_Help = ''Total number of HTTP requests'', co_labels = [''method'', ''endpoint'', ''status'']\<rparr>"

definition requestDuration :: Collector where
  "requestDuration = \<lparr>co_kind = HistogramVec, co_Name = ''http_request_duration_seconds'',
     co_Help = ''HTTP request latencies in seconds'', co_labels = [''method'', ''endpoint'']\<rparr>"

definition activeConnections :: Collector where
  "activeConnections = \<lparr>co_kind = Gauge, co_Name = ''active_connections'',
     co_Help = ''Number of active connections'', co_labels = []\<rparr>"

definition backendHealthStatus :: Collector where
  "backendHealthStatus = \<lparr>co_kind = GaugeVec, co_Name = ''backend_health_status'',
     co_Help = ''Health status of backend servers (1=healthy, 0=unhealthy)'', co_labels = [''backend'']\<rparr>"

definition circuitBreakerTrips :: Collector where
  "circuitBreakerTrips = \<lparr>co_kind = Counter, co_Name = ''circuit_breaker_trips_total'',
     co_Help = ''Total number of circuit breaker trips'', co_labels = []\<rparr>"

definition blockedIPsTotal :: Collector where
  "blockedIPsTotal = \<lparr>co_kind = Counter, co_Name = ''blocked_ips_total'',
     co_Help = ''Total number of IPs blocked by DDoS protection'', co_labels = []\<rparr>"

definition cacheHitsTotal :: Collector where
  "cacheHitsTotal = \<lparr>co_kind = Counter, co_Name = ''cache_hits_total'',
     co_Help = ''Total number of cache hits'', co_labels = []\<rparr>"

definition systemCPUUsage :: Collector where
  "systemCPUUsage = \<lparr>co_kind = GaugeVec, co_Name = ''system_cpu_usage_percent'',
     co_Help = ''System CPU usage percentage'', co_labels = [''core'']\<rparr>"

definition systemMemoryUsage :: Collector where
  "systemMemoryUsage = \<lparr>co_kind = Gauge, co_Name = ''system_memory_usage_percent'',
     co_Help = ''System memory usage percentage'', co_labels = []\<rparr>"

definition systemSwapUsage :: Collector where
  "systemSwapUsage = \<lparr>co_kind = Gauge, co_Name = ''system_swap_usage_percent'',
     co_Help = ''System swap usage percentage'', co_labels = []\<rparr>"

definition systemProcessCount :: Collector where
  "systemProcessCount = \<lparr>co_kind = Gauge, co_Name = ''system_process_count'',
     co_Help = ''Number of running processes'', co_labels = []\<rparr>"

lemmas collector_defs = requestsTotal_def requestDuration_def activeConnections_def
  backendHealthStatus_def circuitBreakerTrips_def blockedIPsTotal_def cacheHitsTotal_def
  systemCPUUsage_def systemMemoryUsage_def systemSwapUsage_def systemProcessCount_def

section \<open>Registration\<close>

text \<open>\<open>None\<close> is the panic of \<open>MustRegister\<close>; the registrations of an \<open>init\<close> function run in order.\<close>

type_synonym 's registry = "'s \<Rightarrow> Collector \<Rightarrow> 's option"

fun MustRegister_all :: "'s registry \<Rightarrow> 's \<Rightarrow> Collector list \<Rightarrow> 's option" where
  "MustRegister_all reg s [] = Some s"
| "MustRegister_all reg s (c # cs) =
     (case reg s c of None \<Rightarrow> None | Some s' \<Rightarrow> MustRegister_all reg s' cs)"

definition metrics_collectors :: "Collector list" where
  "metrics_collectors =
     [requestsTotal, requestDuration, activeConnections, backendHealthStatus, circuitBreakerTrips,
      blockedIPsTotal, cacheHitsTotal]"

definition metrics_init :: "'s registry \<Rightarrow> 's \<Rightarrow> 's option" where
  "metrics_init reg s = MustRegister_all reg s metrics_collectors"

definition monitor_collectors :: "Collector list" where
  "monitor_collectors = [systemCPUUsage, systemMemoryUsage, systemSwapUsage, systemProcessCount]"

definition system_monitor_init :: "'s registry \<Rightarrow> 's \<Rightarrow> 's option" where
  "system_monitor_init reg s = MustRegister_all reg s monitor_collectors"

section \<open>What the library promises\<close>

text \<open>
  A metric name is made of letters, digits, underscores and colons and does not begin with
  a digit; a label name has no colons either and does not begin with two underscores. A
  registry refuses an ill-formed description, repeated labels and a name it knows already.
\<close>

definition name_start :: "char \<Rightarrow> bool" where
  "name_start c \<longleftrightarrow> c \<in> set ''abcdefghijklmnopqrstuvwxyzABCDEFGHIJKLMNOPQRSTUVWXYZ_''"

definition name_char :: "char \<Rightarrow> bool" where
  "name_char c \<longleftrightarrow> name_start c \<or> c \<in> set ''0123456789''"

definition metric_name :: "string \<Rightarrow> bool" where
  "metric_name s \<longleftrightarrow> s \<noteq> [] \<and> (name_start (hd s) \<or> hd s = CHR '':'') \<and>
     list_all (\<lambda>c. name_char c \<or> c = CHR '':'') s"

definition label_name :: "string \<Rightarrow> bool" where
  "label_name s \<longleftrightarrow> s \<noteq> [] \<and> name_start (hd s) \<and> list_all name_char s \<and> \<not> HasPrefix s ''__''"

definition well_described :: "Collector \<Rightarrow> bool" where
  "well_described c \<longleftrightarrow> metric_name (co_Name c) \<and> list_all label_name (co_labels c) \<and>
     distinct (co_labels c) \<and> valid_utf8 (co_Help c)"

definition registry_contract :: "'s registry \<Rightarrow> ('s \<Rightarrow> string set) \<Rightarrow> bool" where
  "registry_contract reg names \<longleftrightarrow> (\<forall>s c.
     if well_described c \<and> co_Name c \<notin> names s
     then \<exists>s'. reg s c = Some s' \<and> names s' = insert (co_Name c) (names s)
     else reg s c = None)"

text \<open>
  \<open>WithLabelValues\<close> takes one value for each label of its collector, and each has to be
  Unicode text.
\<close>

definition label_contract :: "(Collector \<Rightarrow> string list \<Rightarrow> bool) \<Rightarrow> bool" where
  "label_contract accepts \<longleftrightarrow>
     (\<forall>c vs. accepts c vs \<longleftrightarrow> length vs = length (co_labels c) \<and> list_all valid_utf8 vs)"

definition text_labels :: "Collector \<Rightarrow> string list \<Rightarrow> bool" where
  "text_labels c vs \<longleftrightarrow> length vs = length (co_labels c) \<and> list_all valid_utf8 vs"

lemma text_labels_contract: "label_contract text_labels"
  by (simp add: label_contract_def text_labels_def)

text \<open>The contract for a whole sequence of registrations.\<close>

lemma MustRegister_all_names:
  assumes "registry_contract reg names"
  shows "MustRegister_all reg s cs = Some s' \<Longrightarrow> names s' = names s \<union> co_Name ` set cs"
proof (induction cs arbitrary: s)
  case (Cons c cs)
  then obtain t where t: "reg s c = Some t" "MustRegister_all reg t cs = Some s'"
    by (auto split: option.splits)
  with assms have "names t = insert (co_Name c) (names s)"
    unfolding registry_contract_def by (metis option.inject option.distinct(1))
  with Cons.IH [OF t(2)] show ?case by auto
qed simp

lemma MustRegister_all_iff:
  assumes "registry_contract reg names"
  shows "(\<exists>s'. MustRegister_all reg s cs = Some s') \<longleftrightarrow>
    list_all well_described cs \<and> distinct (map co_Name cs) \<and> co_Name ` set cs \<inter> names s = {}"
proof (induction cs arbitrary: s)
  case (Cons c cs)
  have reg: "if well_described c \<and> co_Name c \<notin> names s
     then \<exists>s'. reg s c = Some s' \<and> names s' = insert (co_Name c) (names s) else reg s c = None"
    using assms by (simp add: registry_contract_def)
  show ?case
  proof (cases "well_described c \<and> co_Name c \<notin> names s")
    case True
    then obtain s' where "reg s c = Some s'" "names s' = insert (co_Name c) (names s)"
      using reg by auto
    then show ?thesis using True Cons.IH [of s'] by auto
  qed (use reg in auto)
qed simp

lemma MustRegister_all_append:
  "MustRegister_all reg s (cs @ ds) =
     (case MustRegister_all reg s cs of None \<Rightarrow> None | Some s1 \<Rightarrow> MustRegister_all reg s1 ds)"
  by (induction cs arbitrary: s) (auto split: option.split)

text \<open>The well-formedness of the declarations.\<close>

abbreviation all_collectors :: "Collector list" where
  "all_collectors \<equiv> metrics_collectors @ monitor_collectors"

lemmas collectors_defs = metrics_collectors_def monitor_collectors_def collector_defs

lemma collectors_well_described: "list_all well_described all_collectors"
proof -
  have "valid_utf8 s" if "list_all (\<lambda>c. \<not> digit7 c) s" for s
    using that by (simp add: ascii_valid ascii_bits)
  then show ?thesis
    by (simp add: well_described_def collectors_defs metric_name_def label_name_def name_char_def name_start_def
        HasPrefix_def)
qed

lemma collectors_distinct: "distinct (map co_Name all_collectors)"
  by (simp add: collectors_defs)

end
