(* ===== verification/Backend_Pool.thy ===== *)
theory Backend_Pool
  imports Go_Strings
begin

text \<open>
  \<open>routing.go\<close>, first half: upstream servers (\<open>Backend\<close>), pools of them
  (\<open>ServicePool\<close>) with the four load-balancing algorithms, and health checks. A pool
  holds its backends by value; a \<open>*Backend\<close> is an index into the pool's slice.
\<close>

section \<open>Upstream addresses\<close>

text \<open>
  The fields of \<open>url.URL\<close> the gateway reads; \<open>url_Rest\<close> stands for the remaining ones
  (user info and fragment), which it only passes on.
\<close>

record URL =
  url_Scheme :: string
  url_Host :: string
  url_Path :: string
  url_RawQuery :: string
  url_Rest :: string

definition validOptionalPort :: "string \<Rightarrow> bool" where
  "validOptionalPort p \<longleftrightarrow>
     (case p of [] \<Rightarrow> True | c # ds \<Rightarrow> c = CHR '':'' \<and> (\<forall>d \<in> set ds. digitVal d \<noteq> None))"

definition url_splitHostPort :: "string \<Rightarrow> string \<times> string" where
  "url_splitHostPort hp =
     (let (host, port) =
        (case LastIndexByte hp CHR '':'' of
           None \<Rightarrow> (hp, [])
         | Some i \<Rightarrow> if validOptionalPort (drop i hp) then (take i hp, drop (i + 1) hp)
                     else (hp, []))
      in if HasPrefix host ''['' \<and> HasSuffix host '']''
         then (take (length host - 2) (drop 1 host), port) else (host, port))"

definition url_Hostname :: "URL \<Rightarrow> string" where
  "url_Hostname u = fst (url_splitHostPort (url_Host u))"

definition url_Port :: "URL \<Rightarrow> string" where
  "url_Port u = snd (url_splitHostPort (url_Host u))"

section \<open>Backends\<close>

text \<open>
  The settings of the HTTP client side: the transport of a route and the client of its health
  probes. A reverse proxy is determined by its target, its transport and by whether it
  forwards the client's Host header (\<open>newBackendProxy\<close>).
\<close>

record Transport =
  tr_MaxIdleConns :: goint
  tr_MaxIdleConnsPerHost :: goint
  tr_IdleConnTimeout :: duration
  tr_InsecureSkipVerify :: bool
  tr_DisableCompression :: bool
  tr_ForceAttemptHTTP2 :: bool

record HealthClient =
  hc_Timeout :: duration
  hc_Transport :: Transport
  hc_FollowRedirects :: bool

record ReverseProxy =
  px_target :: URL
  px_transport :: Transport
  px_preserveHost :: bool

record Backend =
  be_URL :: URL
  be_Alive :: bool
  be_Connections :: int64
  be_Weight :: goint
  be_ReverseProxy :: ReverseProxy
  be_FailCount :: int64
  be_LastFail :: instant
  be_HealthPath :: string
  be_healthClient :: HealthClient

definition SetAlive :: "bool \<Rightarrow> Backend \<Rightarrow> Backend" where
  "SetAlive alive b = b\<lparr>be_Alive := alive\<rparr>"

definition IsAlive :: "Backend \<Rightarrow> bool" where
  "IsAlive b = be_Alive b"

definition GetConnections :: "Backend \<Rightarrow> int64" where
  "GetConnections b = be_Connections b"

definition IncConnections :: "Backend \<Rightarrow> Backend" where
  "IncConnections b = b\<lparr>be_Connections := be_Connections b + 1\<rparr>"

definition DecConnections :: "Backend \<Rightarrow> Backend" where
  "DecConnections b = b\<lparr>be_Connections := be_Connections b - 1\<rparr>"

definition RecordFailure :: "instant \<Rightarrow> Backend \<Rightarrow> Backend" where
  "RecordFailure now b = b\<lparr>be_FailCount := be_FailCount b + 1, be_LastFail := now\<rparr>"

definition ResetFailures :: "Backend \<Rightarrow> Backend" where
  "ResetFailures b = b\<lparr>be_FailCount := 0\<rparr>"

lemmas backend_defs = SetAlive_def IsAlive_def GetConnections_def IncConnections_def
  DecConnections_def RecordFailure_def ResetFailures_def

lemma Dec_IncConnections [simp]: "DecConnections (IncConnections b) = b"
  by (simp add: backend_defs)

section \<open>Pools and the balancing algorithms\<close>

record ServicePool =
  sp_backends :: "Backend list"
  sp_current :: uint64
  sp_algo :: string

definition NewServicePool :: "string \<Rightarrow> ServicePool" where
  "NewServicePool algo = \<lparr>sp_backends = [], sp_current = 0, sp_algo = algo\<rparr>"

definition AddBackend :: "Backend \<Rightarrow> ServicePool \<Rightarrow> ServicePool" where
  "AddBackend b s = s\<lparr>sp_backends := sp_backends s @ [b]\<rparr>"

definition Backends :: "ServicePool \<Rightarrow> Backend list" where
  "Backends s = sp_backends s"

text \<open>Updating the object behind a \<open>*Backend\<close>.\<close>

definition upd_backend :: "(Backend \<Rightarrow> Backend) \<Rightarrow> nat \<Rightarrow> ServicePool \<Rightarrow> ServicePool" where
  "upd_backend f i s = s\<lparr>sp_backends := (sp_backends s)[i := f (sp_backends s ! i)]\<rparr>"

text \<open>
  The loops of the four algorithms. The conversion \<open>int(next)\<close> of an unsigned counter
  reinterprets its bits, so it is the identity on words; \<open>go_rem\<close> and \<open>go_index\<close>
  read them as signed and may panic.
\<close>

fun roundRobin_loop :: "Backend list \<Rightarrow> uint64 \<Rightarrow> nat list \<Rightarrow> go_panic + nat option" where
  "roundRobin_loop bs nxt [] = Inr None"
| "roundRobin_loop bs nxt (i # is) =
     (case go_rem (nxt + word_of_nat i) (word_of_nat (length bs)) of
        Inl p \<Rightarrow> Inl p
      | Inr idx \<Rightarrow>
          (case go_index bs idx of
             Inl p \<Rightarrow> Inl p
           | Inr b \<Rightarrow> if IsAlive b then Inr (Some (nat (sint idx)))
                      else roundRobin_loop bs nxt is))"

definition roundRobin :: "ServicePool \<Rightarrow> go_panic + ServicePool \<times> nat option" where
  "roundRobin s =
     (let nxt = sp_current s + 1
      in map_sum id (Pair (s\<lparr>sp_current := nxt\<rparr>))
           (roundRobin_loop (sp_backends s) nxt [0..<length (sp_backends s)]))"

fun leastConnections_loop :: "Backend list \<Rightarrow> nat \<Rightarrow> int64 \<Rightarrow> nat option \<Rightarrow> nat option" where
  "leastConnections_loop [] i minConn selected = selected"
| "leastConnections_loop (b # bs) i minConn selected =
     (if IsAlive b \<and> go_lt (GetConnections b) minConn
      then leastConnections_loop bs (Suc i) (GetConnections b) (Some i)
      else leastConnections_loop bs (Suc i) minConn selected)"

definition maxInt64 :: int64 where "maxInt64 = 9223372036854775807"

definition leastConnections :: "ServicePool \<Rightarrow> nat option" where
  "leastConnections s = leastConnections_loop (sp_backends s) 0 maxInt64 None"

text \<open>\<open>digest\<close> is \<open>sha256.Sum256\<close>; the algorithm uses the first byte of the digest.\<close>

fun ipHash_loop :: "Backend list \<Rightarrow> goint \<Rightarrow> nat list \<Rightarrow> go_panic + nat option" where
  "ipHash_loop bs idx [] = Inr None"
| "ipHash_loop bs idx (i # is) =
     (case go_rem (idx + word_of_nat i) (word_of_nat (length bs)) of
        Inl p \<Rightarrow> Inl p
      | Inr checkIdx \<Rightarrow>
          (case go_index bs checkIdx of
             Inl p \<Rightarrow> Inl p
           | Inr b \<Rightarrow> if IsAlive b then Inr (Some (nat (sint checkIdx)))
                      else ipHash_loop bs idx is))"

definition ipHash ::
  "(string \<Rightarrow> 8 word list) \<Rightarrow> ServicePool \<Rightarrow> string \<Rightarrow> go_panic + nat option" where
  "ipHash digest s clientIP =
     (case go_index (digest clientIP) 0 of
        Inl p \<Rightarrow> Inl p
      | Inr h0 \<Rightarrow>
          (case go_rem (word_of_nat (unat h0)) (word_of_nat (length (sp_backends s))) of
             Inl p \<Rightarrow> Inl p
           | Inr idx \<Rightarrow> ipHash_loop (sp_backends s) idx [0..<length (sp_backends s)]))"

fun totalWeight :: "Backend list \<Rightarrow> goint" where
  "totalWeight [] = 0"
| "totalWeight (b # bs) = (if IsAlive b then be_Weight b + totalWeight bs else totalWeight bs)"

fun weighted_loop :: "Backend list \<Rightarrow> nat \<Rightarrow> goint \<Rightarrow> goint \<Rightarrow> nat option" where
  "weighted_loop [] i cumWeight target = None"
| "weighted_loop (b # bs) i cumWeight target =
     (if IsAlive b
      then (if go_lt target (cumWeight + be_Weight b) then Some i
            else weighted_loop bs (Suc i) (cumWeight + be_Weight b) target)
      else weighted_loop bs (Suc i) cumWeight target)"

definition weighted :: "ServicePool \<Rightarrow> go_panic + ServicePool \<times> nat option" where
  "weighted s =
     (let total = totalWeight (sp_backends s)
      in if total = 0 then Inr (s, None)
         else let nxt = sp_current s + 1; s' = s\<lparr>sp_current := nxt\<rparr>
              in case go_rem nxt total of
                   Inl p \<Rightarrow> Inl p
                 | Inr target \<Rightarrow> Inr (s', weighted_loop (sp_backends s) 0 0 target))"

definition NextPeer ::
  "(string \<Rightarrow> 8 word list) \<Rightarrow> ServicePool \<Rightarrow> string \<Rightarrow> go_panic + ServicePool \<times> nat option" where
  "NextPeer digest s clientIP =
     (if sp_backends s = [] then Inr (s, None)
      else if sp_algo s = ''round-robin'' then roundRobin s
      else if sp_algo s = ''least-conn'' then Inr (s, leastConnections s)
      else if sp_algo s = ''ip-hash'' then map_sum id (Pair s) (ipHash digest s clientIP)
      else if sp_algo s = ''weighted'' then weighted s
      else Inr (s, leastConnections s))"

section \<open>Health checks\<close>

definition singleJoiningSlash :: "string \<Rightarrow> string \<Rightarrow> string" where
  "singleJoiningSlash a b =
     (let aslash = HasSuffix a ''/''; bslash = HasPrefix b ''/''
      in if aslash \<and> bslash then a @ drop 1 b
         else if \<not> aslash \<and> \<not> bslash then a @ ''/'' @ b
         else a @ b)"

text \<open>
  The network as the prober sees it: whether a TCP connection to an address opens, and the
  status code the backend's health client gets for a URL (\<open>None\<close>: the request cannot be
  built or fails).
\<close>

record NetEnv =
  net_dial :: "string \<Rightarrow> bool"
  net_get :: "HealthClient \<Rightarrow> URL \<Rightarrow> int option"

definition dialable :: "NetEnv \<Rightarrow> URL \<Rightarrow> bool" where
  "dialable net u =
     (let host = (if url_Port u = [] then
                    (if url_Scheme u = ''https'' then JoinHostPort (url_Hostname u) ''443''
                     else JoinHostPort (url_Hostname u) ''80'')
                  else url_Host u)
      in net_dial net host)"

definition probe :: "NetEnv \<Rightarrow> Backend \<Rightarrow> bool" where
  "probe net b =
     (if be_HealthPath b = [] then dialable net (be_URL b)
      else let target = (be_URL b)\<lparr>url_Path := singleJoiningSlash (url_Path (be_URL b)) (be_HealthPath b),
                                   url_RawQuery := []\<rparr>
           in case net_get net (be_healthClient b) target of None \<Rightarrow> False | Some code \<Rightarrow> code < 500)"

definition check_backend :: "NetEnv \<Rightarrow> Backend \<Rightarrow> Backend" where
  "check_backend net b =
     (let alive = probe net b; b1 = SetAlive alive b
      in if alive then ResetFailures b1 else b1)"

definition HealthCheck :: "NetEnv \<Rightarrow> ServicePool \<Rightarrow> ServicePool" where
  "HealthCheck net s = s\<lparr>sp_backends := map (check_backend net) (sp_backends s)\<rparr>"

lemmas pool_defs = NewServicePool_def AddBackend_def Backends_def upd_backend_def

end
