(* ===== verification/Load_Balancing.thy ===== *)
theory Load_Balancing
  imports Backend_Pool
begin

text \<open>
  What the four load-balancing algorithms of \<open>routing.go\<close> promise. The contract they
  share is the locale \<open>balancer\<close>; the scanning algorithms are related to one reference
  scan, and the weighted one to an explicit schedule, from which fairness follows.
\<close>

section \<open>The reference scan\<close>

text \<open>Start at a slot, go round once, and take the first backend that is alive.\<close>

definition cyclic :: "nat \<Rightarrow> nat \<Rightarrow> nat list" where
  "cyclic start n = map (\<lambda>i. (start + i) mod n) [0..<n]"

definition scan_from :: "Backend list \<Rightarrow> nat \<Rightarrow> nat option" where
  "scan_from bs start = List.find (\<lambda>k. IsAlive (bs ! k)) (cyclic start (length bs))"

lemma cyclic_rotate: "cyclic start n = rotate start [0..<n]"
  by (rule nth_equalityI) (auto simp: cyclic_def nth_rotate)

lemma set_cyclic [simp]: "set (cyclic start n) = {0..<n}"
  by (simp add: cyclic_rotate)

lemma mset_rotate: "mset (rotate k xs) = mset xs"
  by (metis append_take_drop_id mset_append rotate_drop_take union_commute)

lemma mset_cyclic: "mset (cyclic start n) = mset [0..<n]"
  by (simp add: cyclic_rotate mset_rotate)

lemma roundRobin_loop_scan:
  assumes "0 < length bs" "length bs < 2 ^ 63" "\<forall>i \<in> set is. c + i < 2 ^ 63"
  shows "roundRobin_loop bs (word_of_nat c) is =
         Inr (List.find (\<lambda>k. IsAlive (bs ! k)) (map (\<lambda>i. (c + i) mod length bs) is))"
  using assms(3)
proof (induction "is")
  case (Cons i "is")
  let ?k = "(c + i) mod length bs"
  have k: "?k < length bs" using assms(1) by simp
  have "go_rem (word_of_nat c + word_of_nat i) (word_of_nat (length bs)) = Inr (word_of_nat ?k)"
    using go_rem_nat [of "c + i" "length bs"] Cons.prems assms(1,2) by simp
  moreover have "go_index bs (word_of_nat ?k) = Inr (bs ! ?k)"
    using go_index_nat k assms(2) by blast
  moreover have "nat (sint (word_of_nat ?k :: int64)) = ?k"
    using k assms(2) sint_word_of_nat [of ?k] by simp
  ultimately show ?case using Cons by simp
qed simp

lemma ipHash_loop_eq: "ipHash_loop bs idx is = roundRobin_loop bs idx is"
  by (induction "is") (auto split: sum.splits)

text \<open>A pool whose counter is at least a full round away from the sign bit.\<close>

definition counter_low :: "ServicePool \<Rightarrow> bool" where
  "counter_low s \<longleftrightarrow> unat (sp_current s) + length (sp_backends s) < 2 ^ 63"

lemma roundRobin_scan:
  assumes "sp_backends s \<noteq> []" and "counter_low s"
  shows "roundRobin s = Inr (s\<lparr>sp_current := sp_current s + 1\<rparr>,
           scan_from (sp_backends s) (unat (sp_current s) + 1))"
proof -
  have "sp_current s + 1 = word_of_nat (unat (sp_current s) + 1)" by simp
  moreover have "\<forall>i \<in> set [0..<length (sp_backends s)]. unat (sp_current s) + 1 + i < 2 ^ 63"
    using assms(2) by (auto simp: counter_low_def)
  moreover have "length (sp_backends s) < 2 ^ 63" using assms(2) by (simp add: counter_low_def)
  ultimately show ?thesis
    using roundRobin_loop_scan [of "sp_backends s" "[0..<length (sp_backends s)]" "unat (sp_current s) + 1"]
      assms(1)
    by (simp add: roundRobin_def scan_from_def cyclic_def Let_def add.commute [of _ "1 :: 64 word"])
qed

lemma ipHash_scan:
  assumes "sp_backends s \<noteq> []" and "length (sp_backends s) < 2 ^ 62" and "digest ip \<noteq> []"
  shows "ipHash digest s ip =
         Inr (scan_from (sp_backends s) (unat (hd (digest ip)) mod length (sp_backends s)))"
proof -
  let ?n = "length (sp_backends s)" and ?h = "unat (hd (digest ip))"
  have "?h < 256" using unsigned_less [of "hd (digest ip)"] by simp
  then have "go_rem (word_of_nat ?h) (word_of_nat ?n) = Inr (word_of_nat (?h mod ?n))"
    using go_rem_nat [of ?h ?n] assms by simp
  moreover have "go_index (digest ip) 0 = Inr (hd (digest ip))"
    using assms(3) by (simp add: go_index_def hd_conv_nth)
  moreover have "?h mod ?n < ?n" using assms(1) by simp
  then have "\<forall>i \<in> set [0..<?n]. ?h mod ?n + i < 2 ^ 63"
    using assms(2) by (auto intro: less_trans [OF add_strict_mono])
  ultimately show ?thesis
    using roundRobin_loop_scan [of "sp_backends s" "[0..<?n]" "?h mod ?n"] assms
    by (simp add: ipHash_def ipHash_loop_eq scan_from_def cyclic_def)
qed

lemma scan_from_Some:
  "scan_from bs start = Some k \<Longrightarrow> k < length bs \<and> IsAlive (bs ! k)"
  using find_SomeD [of _ "cyclic start (length bs)" k] by (fastforce simp: scan_from_def)

lemma scan_from_None: "scan_from bs start = None \<longleftrightarrow> (\<forall>b \<in> set bs. \<not> IsAlive b)"
  by (auto simp: scan_from_def find_None_iff all_set_conv_all_nth)

section \<open>Least connections\<close>

definition least_at :: "Backend list \<Rightarrow> nat \<Rightarrow> bool" where
  "least_at bs k \<longleftrightarrow> k < length bs \<and> IsAlive (bs ! k) \<and>
     (\<forall>j < length bs. IsAlive (bs ! j) \<longrightarrow>
        go_le (GetConnections (bs ! k)) (GetConnections (bs ! j)) \<and>
        (j < k \<longrightarrow> go_lt (GetConnections (bs ! k)) (GetConnections (bs ! j))))"

lemma least_at_0:
  "IsAlive b \<Longrightarrow> \<forall>c \<in> set bs. IsAlive c \<longrightarrow> go_le (GetConnections b) (GetConnections c) \<Longrightarrow>
   least_at (b # bs) 0"
  by (auto simp: least_at_def less_Suc_eq_0_disj)

lemma least_at_Suc:
  "least_at bs k \<Longrightarrow> IsAlive b \<longrightarrow> go_lt (GetConnections (bs ! k)) (GetConnections b) \<Longrightarrow>
   least_at (b # bs) (Suc k)"
  by (auto simp: least_at_def less_Suc_eq_0_disj)

text \<open>The loop keeps the smallest count seen so far and where it was first seen.\<close>

lemma leastConnections_loop_min:
  "(leastConnections_loop bs i m sel = sel \<and>
      (\<forall>b \<in> set bs. IsAlive b \<longrightarrow> go_le m (GetConnections b))) \<or>
   (\<exists>k. leastConnections_loop bs i m sel = Some (i + k) \<and> least_at bs k \<and>
      go_lt (GetConnections (bs ! k)) m)"
proof (induction bs arbitrary: i m sel)
  case (Cons b bs)
  show ?case
  proof (cases "IsAlive b \<and> go_lt (GetConnections b) m")
    case True
    from Cons.IH [of "Suc i" "GetConnections b" "Some i"] show ?thesis
    proof (elim disjE exE conjE)
      assume "\<forall>c \<in> set bs. IsAlive c \<longrightarrow> go_le (GetConnections b) (GetConnections c)"
        and "leastConnections_loop bs (Suc i) (GetConnections b) (Some i) = Some i"
      with True show ?thesis by (intro disjI2 exI [of _ 0]) (simp add: least_at_0)
    next
      fix k
      assume "leastConnections_loop bs (Suc i) (GetConnections b) (Some i) = Some (Suc i + k)"
        and "least_at bs k" and "go_lt (GetConnections (bs ! k)) (GetConnections b)"
      with True show ?thesis by (intro disjI2 exI [of _ "Suc k"]) (simp add: least_at_Suc)
    qed
  next
    case False
    with Cons.IH [of "Suc i" m sel] show ?thesis
      by (auto intro!: exI [of _ "Suc _"] least_at_Suc)
  qed
qed simp

lemma leastConnections_least:
  assumes "leastConnections s = Some k"
  shows "least_at (sp_backends s) k"
  using leastConnections_loop_min [of "sp_backends s" 0 maxInt64 None] assms
  by (auto simp: leastConnections_def)

lemma leastConnections_None:
  assumes "leastConnections s = None" and "b \<in> set (sp_backends s)" and "IsAlive b"
  shows "GetConnections b = maxInt64"
proof -
  have "sint (GetConnections b) \<le> sint maxInt64"
    using sint_int64_range [of "GetConnections b"] by (simp add: maxInt64_def)
  moreover have "go_le maxInt64 (GetConnections b)"
    using leastConnections_loop_min [of "sp_backends s" 0 maxInt64 None] assms
    by (auto simp: leastConnections_def)
  ultimately show ?thesis by (simp add: signed_word_eqI)
qed

section \<open>The weighted schedule\<close>

text \<open>Each live backend occupies as many consecutive slots as its weight says.\<close>

fun schedule :: "Backend list \<Rightarrow> nat \<Rightarrow> nat list" where
  "schedule [] i = []"
| "schedule (b # bs) i =
     (if IsAlive b then replicate (unat (be_Weight b)) i else []) @ schedule bs (Suc i)"

lemma totalWeight_schedule: "totalWeight bs = word_of_nat (length (schedule bs i))"
  by (induction bs arbitrary: i) auto

lemma schedule_mem: "k \<in> set (schedule bs i) \<Longrightarrow> i \<le> k \<and> k < i + length bs \<and> IsAlive (bs ! (k - i))"
proof (induction bs arbitrary: i)
  case (Cons b bs)
  then show ?case by (cases "k = i") (fastforce simp: nth_Cons' split: if_splits)+
qed simp

lemma count_list_replicate: "count_list (replicate n x) y = (if x = y then n else 0)"
  by (induction n) auto

lemma count_schedule:
  "k < length bs \<Longrightarrow> count_list (schedule bs i) (i + k) =
     (if IsAlive (bs ! k) then unat (be_Weight (bs ! k)) else 0)"
proof (induction bs arbitrary: i k)
  case (Cons b bs)
  have *: "count_list (schedule bs (Suc i)) i = 0"
    using schedule_mem [of i bs "Suc i"] by (auto simp: count_list_0_iff)
  show ?case
  proof (cases k)
    case 0
    with * show ?thesis by (simp add: count_list_replicate)
  next
    case (Suc k')
    with Cons.IH [of k' "Suc i"] Cons.prems show ?thesis by (simp add: count_list_replicate)
  qed
qed simp

text \<open>The weights are positive and their sum fits an \<open>int\<close>.\<close>

definition weights_ok :: "ServicePool \<Rightarrow> bool" where
  "weights_ok s \<longleftrightarrow> (\<forall>b \<in> set (sp_backends s). 0 < unat (be_Weight b)) \<and>
     length (schedule (sp_backends s) 0) < 2 ^ 63"

lemma weighted_loop_schedule:
  assumes "c \<le> t" and "t < c + length (schedule bs i)" and "c + length (schedule bs i) < 2 ^ 63"
  shows "weighted_loop bs i (word_of_nat c) (word_of_nat t) = Some (schedule bs i ! (t - c))"
  using assms
proof (induction bs arbitrary: i c)
  case (Cons b bs)
  let ?w = "unat (be_Weight b)"
  show ?case
  proof (cases "IsAlive b")
    case True
    have lt: "go_lt (word_of_nat t) (word_of_nat (c + ?w) :: int64) \<longleftrightarrow> t < c + ?w"
      using Cons.prems True by (intro go_lt_nat) simp_all
    show ?thesis
    proof (cases "t < c + ?w")
      case True
      then have "t - c < ?w" using Cons.prems(1) by linarith
      with True \<open>IsAlive b\<close> lt show ?thesis by (simp add: nth_append)
    next
      case False
      with \<open>IsAlive b\<close> Cons.prems Cons.IH [of "c + ?w" "Suc i"]
      have "weighted_loop bs (Suc i) (word_of_nat (c + ?w)) (word_of_nat t) =
            Some (schedule bs (Suc i) ! (t - (c + ?w)))" by simp
      moreover have "\<not> t - c < ?w" using False Cons.prems(1) by linarith
      ultimately show ?thesis using False \<open>IsAlive b\<close> lt by (simp add: nth_append)
    qed
  next
    case False
    with Cons.prems Cons.IH [of c "Suc i"] show ?thesis by simp
  qed
qed simp

text \<open>A negative target (the counter has passed the sign bit) selects the first live backend.\<close>

lemma weighted_loop_negative:
  assumes "sint t < 0" and "\<forall>b \<in> set bs. 0 < unat (be_Weight b)" and "length (schedule bs i) < 2 ^ 63"
  shows "weighted_loop bs i 0 t = (if schedule bs i = [] then None else Some (hd (schedule bs i)))"
  using assms(2,3)
proof (induction bs arbitrary: i)
  case (Cons b bs)
  show ?case
  proof (cases "IsAlive b")
    case True
    with Cons.prems have "unat (be_Weight b) < 2 ^ 63" by simp
    then have "0 \<le> sint (be_Weight b)" using sint_word_of_nat [of "unat (be_Weight b)"] by simp
    with True assms(1) Cons.prems show ?thesis by simp
  next
    case False
    with Cons show ?thesis by simp
  qed
qed simp

lemma weighted_starved:
  assumes "schedule (sp_backends s) 0 = []"
  shows "weighted s = Inr (s, None)"
  using assms totalWeight_schedule [of "sp_backends s" 0] by (simp add: weighted_def)

lemma weighted_schedule:
  assumes "length (schedule (sp_backends s) 0) < 2 ^ 63" and "schedule (sp_backends s) 0 \<noteq> []"
    and "unat (sp_current s) + 1 < 2 ^ 63"
  shows "weighted s = Inr (s\<lparr>sp_current := sp_current s + 1\<rparr>,
     Some (schedule (sp_backends s) 0 !
       ((unat (sp_current s) + 1) mod length (schedule (sp_backends s) 0))))"
proof -
  let ?sch = "schedule (sp_backends s) 0" and ?c = "unat (sp_current s) + 1"
  have tot: "totalWeight (sp_backends s) = word_of_nat (length ?sch)"
    by (rule totalWeight_schedule)
  have nz: "(word_of_nat (length ?sch) :: int64) \<noteq> 0"
    using sint_word_of_nat [of "length ?sch"] assms(1,2) by auto
  have nxt: "sp_current s + 1 = word_of_nat ?c" by simp
  have rem: "go_rem (sp_current s + 1) (word_of_nat (length ?sch)) =
             Inr (word_of_nat (?c mod length ?sch))"
    unfolding nxt using go_rem_nat [of ?c "length ?sch"] assms by simp
  have "weighted_loop (sp_backends s) 0 (word_of_nat 0) (word_of_nat (?c mod length ?sch)) =
        Some (?sch ! (?c mod length ?sch - 0))"
    using assms(1,2) by (intro weighted_loop_schedule) simp_all
  then show ?thesis by (simp add: weighted_def tot nz rem)
qed

section \<open>The contract of a balancer\<close>

text \<open>
  In a state that is \<open>ready\<close>, choosing a peer returns; it moves at most the pool's
  counter; the chosen backend exists and is alive; and there is no choice only when every
  backend is down.
\<close>

locale balancer =
  fixes pick :: "ServicePool \<Rightarrow> string \<Rightarrow> go_panic + ServicePool \<times> nat option"
    and ready :: "ServicePool \<Rightarrow> bool"
  assumes returns: "ready s \<Longrightarrow> \<exists>s' r. pick s ip = Inr (s', r)"
    and frame: "pick s ip = Inr (s', r) \<Longrightarrow>
          sp_backends s' = sp_backends s \<and> sp_algo s' = sp_algo s"
    and alive: "ready s \<Longrightarrow> pick s ip = Inr (s', Some k) \<Longrightarrow>
          k < length (sp_backends s) \<and> IsAlive (sp_backends s ! k)"
    and starved: "ready s \<Longrightarrow> pick s ip = Inr (s', None) \<Longrightarrow> b \<in> set (sp_backends s) \<Longrightarrow> \<not> IsAlive b"
begin

lemma pick_available:
  assumes "ready s" and "b \<in> set (sp_backends s)" and "IsAlive b"
  shows "\<exists>s' k. pick s ip = Inr (s', Some k) \<and> k < length (sp_backends s) \<and>
           IsAlive (sp_backends s ! k)"
proof -
  obtain s' r where p: "pick s ip = Inr (s', r)" using returns [OF assms(1)] by blast
  with starved [OF assms(1)] assms(2,3) obtain k where "r = Some k" by (cases r) blast+
  with p alive [OF assms(1)] show ?thesis by blast
qed

lemma pick_spec:
  assumes "ready s"
  shows "\<exists>s' r. pick s ip = Inr (s', r) \<and> sp_backends s' = sp_backends s \<and>
    (case r of None \<Rightarrow> \<forall>b \<in> set (sp_backends s). \<not> IsAlive b
     | Some k \<Rightarrow> k < length (sp_backends s) \<and> IsAlive (sp_backends s ! k))"
proof -
  obtain s' r where p: "pick s ip = Inr (s', r)" using returns [OF assms] by blast
  with frame alive [OF assms] starved [OF assms] show ?thesis
    by (intro exI [of _ s'] exI [of _ r]) (auto split: option.split)
qed

end

interpretation rr: balancer "\<lambda>s _. roundRobin s" "\<lambda>s. sp_backends s \<noteq> [] \<and> counter_low s"
proof unfold_locales
  fix s s' r
  assume "roundRobin s = Inr (s', r)"
  then show "sp_backends s' = sp_backends s \<and> sp_algo s' = sp_algo s"
    by (cases "roundRobin_loop (sp_backends s) (sp_current s + 1) [0..<length (sp_backends s)]")
      (auto simp: roundRobin_def Let_def)
qed (auto simp: roundRobin_scan scan_from_Some scan_from_None)

interpretation lc: balancer "\<lambda>s _. Inr (s, leastConnections s)"
  "\<lambda>s. \<forall>b \<in> set (sp_backends s). GetConnections b \<noteq> maxInt64"
  by unfold_locales
    (auto dest: leastConnections_least leastConnections_None simp: least_at_def)

text \<open>A digest function answers a non-empty byte string (SHA-256: 32 bytes).\<close>

definition digest_ok :: "(string \<Rightarrow> 8 word list) \<Rightarrow> bool" where
  "digest_ok digest \<longleftrightarrow> (\<forall>m. length (digest m) = 32)"

interpretation ih: balancer "\<lambda>s ip. map_sum id (Pair s) (ipHash digest s ip)"
  "\<lambda>s. sp_backends s \<noteq> [] \<and> length (sp_backends s) < 2 ^ 62 \<and> digest_ok digest" for digest
proof unfold_locales
  fix s s' :: ServicePool and ip r
  assume "map_sum id (Pair s) (ipHash digest s ip) = Inr (s', r)"
  then show "sp_backends s' = sp_backends s \<and> sp_algo s' = sp_algo s"
    by (cases "ipHash digest s ip") auto
next
  fix s :: ServicePool and ip
  assume r: "sp_backends s \<noteq> [] \<and> length (sp_backends s) < 2 ^ 62 \<and> digest_ok digest"
  then have "digest ip \<noteq> []" by (metis digest_ok_def list.size(3) zero_neq_numeral)
  with r have *: "ipHash digest s ip =
      Inr (scan_from (sp_backends s) (unat (hd (digest ip)) mod length (sp_backends s)))"
    by (simp add: ipHash_scan)
  then show "\<exists>s' r. map_sum id (Pair s) (ipHash digest s ip) = Inr (s', r)" by simp
  show "k < length (sp_backends s) \<and> IsAlive (sp_backends s ! k)"
    if "map_sum id (Pair s) (ipHash digest s ip) = Inr (s', Some k)" for s' k
    using that * scan_from_Some by auto
  show "\<not> IsAlive b"
    if "map_sum id (Pair s) (ipHash digest s ip) = Inr (s', None)" "b \<in> set (sp_backends s)" for s' b
    using that * scan_from_None by auto
qed

lemma schedule_Nil_iff:
  "\<forall>b \<in> set bs. 0 < unat (be_Weight b) \<Longrightarrow> schedule bs i = [] \<longleftrightarrow> (\<forall>b \<in> set bs. \<not> IsAlive b)"
  by (induction bs arbitrary: i) auto

text \<open>Whatever the counter, a ready weighted pool answers from its schedule.\<close>

lemma weighted_in_schedule:
  assumes "weights_ok s" and "schedule (sp_backends s) 0 \<noteq> []"
  shows "\<exists>k. weighted s = Inr (s\<lparr>sp_current := sp_current s + 1\<rparr>, Some k) \<and>
             k \<in> set (schedule (sp_backends s) 0)"
proof -
  let ?sch = "schedule (sp_backends s) 0" and ?nxt = "sp_current s + 1"
  let ?T = "word_of_nat (length ?sch) :: int64"
  have T: "sint ?T = int (length ?sch)" "0 < length ?sch"
    using assms sint_word_of_nat by (simp_all add: weights_ok_def)
  then have nz: "?T \<noteq> 0" by auto
  obtain t where rem: "go_rem ?nxt ?T = Inr t" and t: "sint t < int (length ?sch)"
    using go_rem_bound [of ?T] T by auto
  have "\<exists>k. weighted_loop (sp_backends s) 0 0 t = Some k \<and> k \<in> set ?sch"
  proof (cases "sint t < 0")
    case True
    from weighted_loop_negative [OF this] assms show ?thesis by (simp add: weights_ok_def)
  next
    case False
    then have "t = word_of_nat (nat (sint t))" by simp
    moreover have "nat (sint t) < length ?sch" using False t by linarith
    ultimately show ?thesis
      using assms weighted_loop_schedule [of 0 "nat (sint t)" "sp_backends s" 0]
      by (simp add: weights_ok_def)
  qed
  then show ?thesis
    using rem nz totalWeight_schedule [of "sp_backends s" 0] by (auto simp: weighted_def Let_def)
qed

interpretation wt: balancer "\<lambda>s _. weighted s" weights_ok
proof unfold_locales
  fix s s' r
  assume "weighted s = Inr (s', r)"
  then show "sp_backends s' = sp_backends s \<and> sp_algo s' = sp_algo s"
    by (auto simp: weighted_def Let_def split: if_splits sum.splits)
next
  fix s :: ServicePool
  assume ok: "weights_ok s"
  then show "\<exists>s' r. weighted s = Inr (s', r)"
    using weighted_in_schedule weighted_starved by blast
  show "k < length (sp_backends s) \<and> IsAlive (sp_backends s ! k)"
    if "weighted s = Inr (s', Some k)" for s' k
  proof -
    from that have "schedule (sp_backends s) 0 \<noteq> []" using weighted_starved by fastforce
    with weighted_in_schedule [OF ok] that have "k \<in> set (schedule (sp_backends s) 0)" by auto
    from schedule_mem [OF this] show ?thesis by simp
  qed
  show "\<not> IsAlive b" if "weighted s = Inr (s', None)" "b \<in> set (sp_backends s)" for s' b
  proof -
    from that have "schedule (sp_backends s) 0 = []" using weighted_in_schedule [OF ok] by fastforce
    with schedule_Nil_iff ok that show ?thesis by (auto simp: weights_ok_def)
  qed
qed

text \<open>A pool on which every algorithm is ready, and the whole dispatch \<open>NextPeer\<close>.\<close>

definition pool_ready :: "ServicePool \<Rightarrow> bool" where
  "pool_ready s \<longleftrightarrow> counter_low s \<and> length (sp_backends s) < 2 ^ 62 \<and> weights_ok s \<and>
     (\<forall>b \<in> set (sp_backends s). GetConnections b \<noteq> maxInt64)"

lemma NextPeer_cases:
  obtains (empty) "sp_backends s = []" "NextPeer digest s ip = Inr (s, None)"
  | (rr) "sp_backends s \<noteq> []" "NextPeer digest s ip = roundRobin s"
  | (lc) "sp_backends s \<noteq> []" "NextPeer digest s ip = Inr (s, leastConnections s)"
  | (ih) "sp_backends s \<noteq> []" "NextPeer digest s ip = map_sum id (Pair s) (ipHash digest s ip)"
  | (wt) "sp_backends s \<noteq> []" "NextPeer digest s ip = weighted s"
proof (cases "sp_backends s = []")
  case True
  then show thesis by (intro empty) (simp_all add: NextPeer_def)
next
  case False
  consider "sp_algo s = ''round-robin''" | "sp_algo s = ''ip-hash''" | "sp_algo s = ''weighted''"
    | "sp_algo s \<notin> {''round-robin'', ''ip-hash'', ''weighted''}" by blast
  then show thesis
    using False rr lc ih wt by cases (simp_all add: NextPeer_def)
qed

interpretation np: balancer "NextPeer digest" "\<lambda>s. pool_ready s \<and> digest_ok digest" for digest
proof unfold_locales
  fix s s' :: ServicePool and ip r
  assume "NextPeer digest s ip = Inr (s', r)"
  then show "sp_backends s' = sp_backends s \<and> sp_algo s' = sp_algo s"
    by (cases rule: NextPeer_cases [of s digest ip])
      (simp, metis rr.frame, simp, metis ih.frame, metis wt.frame)
next
  fix s :: ServicePool and ip
  assume r: "pool_ready s \<and> digest_ok digest"
  then have ok: "counter_low s" "length (sp_backends s) < 2 ^ 62" "weights_ok s"
    "\<forall>b \<in> set (sp_backends s). GetConnections b \<noteq> maxInt64" "digest_ok digest"
    by (simp_all add: pool_ready_def)
  show "\<exists>s' r. NextPeer digest s ip = Inr (s', r)"
    by (cases rule: NextPeer_cases [of s digest ip])
      (simp, metis rr.returns ok(1), simp, metis ih.returns ok(2,5), metis wt.returns ok(3))
  show "k < length (sp_backends s) \<and> IsAlive (sp_backends s ! k)"
    if "NextPeer digest s ip = Inr (s', Some k)" for s' k
    using that
    by (cases rule: NextPeer_cases [of s digest ip])
      (simp, metis rr.alive ok(1), metis lc.alive ok(4), metis ih.alive ok(2,5), metis wt.alive ok(3))
  show "\<not> IsAlive b"
    if "NextPeer digest s ip = Inr (s', None)" "b \<in> set (sp_backends s)" for s' b
    using that
    by (cases rule: NextPeer_cases [of s digest ip])
      (simp, metis rr.starved ok(1), metis lc.starved ok(4), metis ih.starved ok(2,5),
        metis wt.starved ok(3))
qed

section \<open>Sequences of choices\<close>

text \<open>The answers of \<open>n\<close> successive calls.\<close>

fun picks ::
  "(ServicePool \<Rightarrow> string \<Rightarrow> go_panic + ServicePool \<times> nat option) \<Rightarrow> nat \<Rightarrow> ServicePool \<Rightarrow> string \<Rightarrow>
   go_panic + nat option list" where
  "picks pick 0 s ip = Inr []"
| "picks pick (Suc n) s ip =
     (case pick s ip of Inl p \<Rightarrow> Inl p | Inr (s', r) \<Rightarrow> map_sum id (Cons r) (picks pick n s' ip))"

lemma picks_counter:
  assumes "\<And>t. sp_backends t = sp_backends s \<Longrightarrow> sp_algo t = sp_algo s \<Longrightarrow>
      unat (sp_current t) + slack < 2 ^ 63 \<Longrightarrow>
      pick t ip = Inr (t\<lparr>sp_current := sp_current t + 1\<rparr>, f (unat (sp_current t) + 1))"
    and "unat (sp_current s) + n + slack \<le> 2 ^ 63"
  shows "picks pick n s ip =
    Inr (map f [unat (sp_current s) + 1..<unat (sp_current s) + 1 + n])"
  using assms
proof (induction n arbitrary: s)
  case (Suc n)
  let ?s = "s\<lparr>sp_current := sp_current s + 1\<rparr>"
  have p: "pick s ip = Inr (?s, f (unat (sp_current s) + 1))"
    using Suc.prems(2) by (intro Suc.prems(1)) simp_all
  have u: "unat (sp_current s + 1) = unat (sp_current s) + 1"
    using Suc.prems(2) by (simp add: unat_word_ariths)
  have "picks pick n ?s ip =
      Inr (map f [unat (sp_current ?s) + 1..<unat (sp_current ?s) + 1 + n])"
    using Suc.prems u by (intro Suc.IH) simp_all
  moreover have "[unat (sp_current s) + 1..<unat (sp_current s) + 1 + Suc n] =
      (unat (sp_current s) + 1) # [unat (sp_current s) + 1 + 1..<unat (sp_current s) + 1 + 1 + n]"
    by (subst upt_conv_Cons) simp_all
  ultimately show ?case using p u by (simp del: upt_Suc)
qed simp

lemma map_window: "map f [c..<c + n] = map (\<lambda>i. f (c + i)) [0..<n]"
  by (rule nth_equalityI) auto

lemma mset_window: "mset (map (\<lambda>c. c mod n) [c..<c + n]) = mset [0..<n]"
  unfolding map_window using mset_cyclic [of c n] by (simp add: cyclic_def)

lemma scan_from_all_alive:
  "bs \<noteq> [] \<Longrightarrow> \<forall>b \<in> set bs. IsAlive b \<Longrightarrow> scan_from bs c = Some (c mod length bs)"
  by (simp add: scan_from_def cyclic_def upt_conv_Cons)

section \<open>Balancers that ignore failures\<close>

text \<open>
  Two algorithms decide from the liveness flags and connection counts alone. Such a
  balancer gives the same answer on two pools that agree on them, so recording a failure
  on the chosen backend does not change the next choice.
\<close>

definition same_view :: "ServicePool \<Rightarrow> ServicePool \<Rightarrow> bool" where
  "same_view s t \<longleftrightarrow> sp_algo t = sp_algo s \<and>
     map IsAlive (sp_backends t) = map IsAlive (sp_backends s) \<and>
     map GetConnections (sp_backends t) = map GetConnections (sp_backends s)"

lemma same_view_refl [simp]: "same_view s s"
  by (simp add: same_view_def)

lemma same_view_length: "same_view s t \<Longrightarrow> length (sp_backends t) = length (sp_backends s)"
  unfolding same_view_def by (metis length_map)

lemma same_view_RecordFailure: "same_view s (upd_backend (RecordFailure now) k s)"
  by (simp add: same_view_def upd_backend_def map_update_same backend_defs)

locale blind_balancer = balancer +
  assumes same_pick: "same_view s t \<Longrightarrow> pick s ip = Inr (s', r) \<Longrightarrow> \<exists>t'. pick t ip = Inr (t', r)"
begin

lemma failure_ignored:
  assumes "pick s ip = Inr (s', Some k)"
  shows "\<exists>s''. pick (upd_backend (RecordFailure now) k s') ip = Inr (s'', Some k)"
proof -
  from frame [OF assms] have "same_view s s'" by (simp add: same_view_def)
  then have "same_view s (upd_backend (RecordFailure now) k s')"
    using same_view_RecordFailure [of s' now k] by (simp add: same_view_def)
  with assms same_pick show ?thesis by blast
qed

end

lemma leastConnections_loop_view:
  "map IsAlive bs = map IsAlive cs \<Longrightarrow> map GetConnections bs = map GetConnections cs \<Longrightarrow>
   leastConnections_loop bs i m sel = leastConnections_loop cs i m sel"
proof (induction bs arbitrary: cs i m sel)
  case (Cons b bs)
  then obtain c cs' where "cs = c # cs'" by (cases cs) auto
  with Cons show ?case by auto
qed simp

lemma leastConnections_view: "same_view s t \<Longrightarrow> leastConnections t = leastConnections s"
  using leastConnections_loop_view [of "sp_backends t" "sp_backends s"]
  by (simp add: leastConnections_def same_view_def)

lemma roundRobin_loop_view:
  assumes "map IsAlive bs = map IsAlive cs"
  shows "roundRobin_loop bs c is = roundRobin_loop cs c is"
proof -
  have len: "length bs = length cs" by (metis assms length_map)
  have al: "k < length cs \<Longrightarrow> IsAlive (bs ! k) = IsAlive (cs ! k)" for k
    by (metis assms len nth_map)
  show ?thesis
    by (induction "is") (auto simp: len go_index_def al split: sum.splits)
qed

lemma ipHash_view: "same_view s t \<Longrightarrow> ipHash digest t ip = ipHash digest s ip"
  using roundRobin_loop_view [of "sp_backends t" "sp_backends s"] same_view_length [of s t]
  by (simp add: ipHash_def ipHash_loop_eq same_view_def split: sum.split)

interpretation lcb: blind_balancer "\<lambda>s _. Inr (s, leastConnections s)"
  "\<lambda>s. \<forall>b \<in> set (sp_backends s). GetConnections b \<noteq> maxInt64"
  by unfold_locales (simp add: leastConnections_view)

interpretation ihb: blind_balancer "\<lambda>s ip. map_sum id (Pair s) (ipHash digest s ip)"
  "\<lambda>s. sp_backends s \<noteq> [] \<and> length (sp_backends s) < 2 ^ 62 \<and> digest_ok digest" for digest
proof unfold_locales
  fix s t :: ServicePool and ip s' r
  assume "same_view s t" and "map_sum id (Pair s) (ipHash digest s ip) = Inr (s', r)"
  then show "\<exists>t'. map_sum id (Pair t) (ipHash digest t ip) = Inr (t', r)"
    by (cases "ipHash digest s ip") (auto simp: ipHash_view)
qed

text \<open>The names that select one of the two: everything but the two counting algorithms.\<close>

definition blind_algo :: "string \<Rightarrow> bool" where
  "blind_algo a \<longleftrightarrow> a \<noteq> ''round-robin'' \<and> a \<noteq> ''weighted''"

lemma NextPeer_blind:
  assumes "sp_backends s \<noteq> []" and "blind_algo (sp_algo s)"
  shows "NextPeer digest s ip =
    (if sp_algo s = ''ip-hash'' then map_sum id (Pair s) (ipHash digest s ip)
     else Inr (s, leastConnections s))"
  using assms by (simp add: NextPeer_def blind_algo_def)

lemma NextPeer_failure_ignored:
  assumes "blind_algo (sp_algo s)" and "NextPeer digest s ip = Inr (s', Some k)"
  shows "s' = s \<and> NextPeer digest (upd_backend (RecordFailure now) k s') ip =
           Inr (upd_backend (RecordFailure now) k s', Some k)"
proof -
  have ne: "sp_backends s \<noteq> []" using assms(2) by (auto simp: NextPeer_def)
  let ?t = "upd_backend (RecordFailure now) k s"
  have v: "same_view s ?t" by (rule same_view_RecordFailure)
  then have t: "sp_backends ?t \<noteq> []" "sp_algo ?t = sp_algo s"
    using ne by (auto simp: upd_backend_def)
  have "s' = s"
    using assms NextPeer_blind [OF ne assms(1)]
    by (cases "ipHash digest s ip") (auto split: if_splits)
  moreover have "NextPeer digest ?t ip = Inr (?t, Some k)"
    using assms NextPeer_blind [OF ne assms(1)] NextPeer_blind [OF t(1)] t(2)
      leastConnections_view [OF v] ipHash_view [OF v]
    by (cases "ipHash digest s ip") (auto split: if_splits)
  ultimately show ?thesis by simp
qed

text \<open>
  The weighted scan sees liveness and weights, so recording a failure changes no answer of
  any of the four algorithms: it commutes with the choice.
\<close>

lemma weighted_loop_view:
  "map IsAlive bs = map IsAlive cs \<Longrightarrow> map be_Weight bs = map be_Weight cs \<Longrightarrow>
   weighted_loop bs i c target = weighted_loop cs i c target \<and> totalWeight bs = totalWeight cs"
proof (induction bs arbitrary: cs i c)
  case (Cons b bs)
  then obtain d ds where "cs = d # ds" by (cases cs) auto
  with Cons show ?case by auto
qed simp

definition record_failure :: "ServicePool \<Rightarrow> instant \<times> nat \<Rightarrow> ServicePool" where
  "record_failure s f = upd_backend (RecordFailure (fst f)) (snd f) s"

lemma record_failure_view:
  "map IsAlive (sp_backends (record_failure s f)) = map IsAlive (sp_backends s)"
  "map be_Weight (sp_backends (record_failure s f)) = map be_Weight (sp_backends s)"
  "sp_current (record_failure s f) = sp_current s" "sp_algo (record_failure s f) = sp_algo s"
  "length (sp_backends (record_failure s f)) = length (sp_backends s)"
  "same_view s (record_failure s f)"
  "(record_failure s f)\<lparr>sp_current := c\<rparr> = record_failure (s\<lparr>sp_current := c\<rparr>) f"
  using same_view_RecordFailure [of s "fst f" "snd f"]
  by (simp_all add: record_failure_def upd_backend_def map_update_same backend_defs same_view_def)

lemma roundRobin_record_failure:
  "roundRobin (record_failure s f) = map_sum id (map_prod (\<lambda>s. record_failure s f) id) (roundRobin s)"
  using roundRobin_loop_view [OF record_failure_view(1) [of s f]]
  by (simp add: roundRobin_def Let_def record_failure_view sum.map_comp o_def id_def)

lemma weighted_record_failure:
  "weighted (record_failure s f) = map_sum id (map_prod (\<lambda>s. record_failure s f) id) (weighted s)"
  using weighted_loop_view [OF record_failure_view(1,2) [of s f]]
  by (simp add: weighted_def Let_def record_failure_view split: sum.split)

lemma NextPeer_record_failure:
  "NextPeer digest (record_failure s f) ip =
   map_sum id (map_prod (\<lambda>s. record_failure s f) id) (NextPeer digest s ip)"
proof -
  have "sp_backends (record_failure s f) = [] \<longleftrightarrow> sp_backends s = []"
    by (metis length_0_conv record_failure_view(5))
  then show ?thesis
    by (simp add: NextPeer_def record_failure_view(4) roundRobin_record_failure weighted_record_failure
        leastConnections_view [OF record_failure_view(6)] ipHash_view [OF record_failure_view(6)] sum.map_comp o_def id_def)
qed

section \<open>Properties\<close>

text \<open>Concrete pools for the witnesses.\<close>

definition example_url :: URL where
  "example_url = \<lparr>url_Scheme = ''http'', url_Host = ''10.0.0.5:8080'', url_Path = [],
     url_RawQuery = [], url_Rest = []\<rparr>"

definition example_transport :: Transport where
  "example_transport = \<lparr>tr_MaxIdleConns = 100, tr_MaxIdleConnsPerHost = 100,
     tr_IdleConnTimeout = 90 * second, tr_InsecureSkipVerify = False,
     tr_DisableCompression = False, tr_ForceAttemptHTTP2 = True\<rparr>"

definition example_backend :: "bool \<Rightarrow> int64 \<Rightarrow> goint \<Rightarrow> Backend" where
  "example_backend up conns weight =
     \<lparr>be_URL = example_url, be_Alive = up, be_Connections = conns, be_Weight = weight,
      be_ReverseProxy = \<lparr>px_target = example_url, px_transport = example_transport,
        px_preserveHost = False\<rparr>,
      be_FailCount = 0, be_LastFail = 0, be_HealthPath = [],
      be_healthClient = \<lparr>hc_Timeout = 3 * second, hc_Transport = example_transport,
        hc_FollowRedirects = False\<rparr>\<rparr>"

definition example_pool :: "string \<Rightarrow> Backend list \<Rightarrow> ServicePool" where
  "example_pool algo bs = \<lparr>sp_backends = bs, sp_current = 0, sp_algo = algo\<rparr>"

definition example_digest :: "string \<Rightarrow> 8 word list" where
  "example_digest m = replicate 32 (if length m = 3 then 3 else 4)"

lemmas example_defs = example_url_def example_transport_def example_backend_def example_pool_def example_digest_def

text \<open>
  C9: choosing a backend is safe and complete for every algorithm. On a pool whose counter is
  below the sign bit, whose weights are positive with a sum that fits an \<open>int\<close> and whose
  connection counts are below the maximum, \<open>NextPeer\<close> never panics, leaves the backends
  alone, answers only backends that exist and are alive, and answers none only when all of
  them are down.
\<close>

theorem next_peer_contract:
  assumes "pool_ready s" and "digest_ok digest"
  shows "\<exists>s' r. NextPeer digest s ip = Inr (s', r) \<and> sp_backends s' = sp_backends s \<and>
    (case r of None \<Rightarrow> \<forall>b \<in> set (sp_backends s). \<not> IsAlive b
     | Some k \<Rightarrow> k < length (sp_backends s) \<and> IsAlive (sp_backends s ! k))"
  using assms by (intro np.pick_spec) simp

theorem next_peer_contract_witness:
  "\<exists>s' r. NextPeer example_digest (example_pool ''ip-hash'' [example_backend True 0 1]) ''1.2.3.4'' =
     Inr (s', r) \<and> sp_backends s' = [example_backend True 0 1]"
proof -
  have "pool_ready (example_pool ''ip-hash'' [example_backend True 0 1])"
    by (simp add: pool_ready_def counter_low_def weights_ok_def example_defs IsAlive_def
        GetConnections_def maxInt64_def)
  moreover have "digest_ok example_digest" by (simp add: digest_ok_def example_digest_def)
  ultimately show ?thesis
    using next_peer_contract
      [of "example_pool ''ip-hash'' [example_backend True 0 1]" example_digest "''1.2.3.4''"]
    by (auto simp: example_pool_def)
qed



text \<open>
  C25: weighted balancing is proportional. With a total live weight \<open>T\<close> that fits an
  \<open>int\<close>, \<open>T\<close> consecutive choices select each live backend exactly as often as its
  weight says, and no other backend.
\<close>

theorem weighted_proportional:
  assumes "sp_algo s = ''weighted''" and "T = length (schedule (sp_backends s) 0)"
    and "0 < T" and "T < 2 ^ 63" and "unat (sp_current s) + T + 1 \<le> 2 ^ 63"
  shows "\<exists>ks. picks (NextPeer digest) T s ip = Inr (map Some ks) \<and>
    (\<forall>k < length (sp_backends s). count_list ks k =
      (if IsAlive (sp_backends s ! k) then unat (be_Weight (sp_backends s ! k)) else 0))"
proof -
  let ?sch = "schedule (sp_backends s) 0" and ?c = "unat (sp_current s) + 1"
  let ?ks = "map (\<lambda>c. ?sch ! (c mod T)) [?c..<?c + T]"
  have ne: "sp_backends s \<noteq> []" "?sch \<noteq> []" using assms(2,3) by auto
  have "picks (NextPeer digest) T s ip = Inr (map (\<lambda>c. Some (?sch ! (c mod T))) [?c..<?c + T])"
  proof (rule picks_counter [where slack = 1])
    fix t :: ServicePool
    assume "sp_backends t = sp_backends s" "sp_algo t = sp_algo s"
      "unat (sp_current t) + 1 < 2 ^ 63"
    with assms ne show "NextPeer digest t ip = Inr (t\<lparr>sp_current := sp_current t + 1\<rparr>,
        Some (?sch ! ((unat (sp_current t) + 1) mod T)))"
      using weighted_schedule [of t] by (simp add: NextPeer_def)
  qed (use assms(5) in simp)
  then have "picks (NextPeer digest) T s ip = Inr (map Some ?ks)" by (simp add: comp_def)
  moreover have "mset ?ks = mset ?sch"
  proof -
    have "mset ?ks = image_mset ((!) ?sch) (mset (map (\<lambda>c. c mod T) [?c..<?c + T]))"
      by (simp add: image_mset.compositionality comp_def flip: mset_map)
    also have "\<dots> = mset (map ((!) ?sch) [0..<length ?sch])"
      unfolding mset_window by (simp add: assms(2))
    finally show ?thesis by (simp add: map_nth)
  qed
  then have "count_list ?ks k = count_list ?sch k" for k by (metis count_mset)
  ultimately show ?thesis using count_schedule [where i = 0] by (intro exI [of _ ?ks]) simp
qed

theorem weighted_proportional_witness:
  "\<exists>ks. picks (NextPeer example_digest) 4 (example_pool ''weighted''
      [example_backend True 0 3, example_backend False 0 5, example_backend True 0 1]) ''c'' =
      Inr (map Some ks) \<and> count_list ks 0 = 3 \<and> count_list ks 1 = 0 \<and> count_list ks 2 = 1"
proof -
  let ?s = "example_pool ''weighted''
      [example_backend True 0 3, example_backend False 0 5, example_backend True 0 1]"
  have "4 = length (schedule (sp_backends ?s) 0)" by (simp add: example_defs IsAlive_def)
  moreover have "sp_algo ?s = ''weighted''" "unat (sp_current ?s) + 4 + 1 \<le> 2 ^ 63"
    by (simp_all add: example_pool_def)
  ultimately obtain ks where ks: "picks (NextPeer example_digest) 4 ?s ''c'' = Inr (map Some ks)"
    and c: "\<forall>k < length (sp_backends ?s). count_list ks k =
      (if IsAlive (sp_backends ?s ! k) then unat (be_Weight (sp_backends ?s ! k)) else 0)"
    using weighted_proportional [of ?s 4 example_digest "''c''"] by auto
  have "count_list ks 0 = 3" "count_list ks 1 = 0" "count_list ks 2 = 1"
    using c [rule_format, of 0] c [rule_format, of 1] c [rule_format, of 2]
    by (simp_all add: example_pool_def example_backend_def IsAlive_def)
  with ks show ?thesis by blast
qed

text \<open>
  Least-connections picks a minimum. The chosen backend is alive, has no more connections
  than any live backend, and is the first one with that count.
\<close>

theorem least_conn_minimal:
  assumes "sp_algo s = ''least-conn''" and "NextPeer digest s ip = Inr (s', Some k)"
  shows "s' = s \<and> k < length (sp_backends s) \<and> IsAlive (sp_backends s ! k) \<and>
    (\<forall>j < length (sp_backends s). IsAlive (sp_backends s ! j) \<longrightarrow>
      go_le (GetConnections (sp_backends s ! k)) (GetConnections (sp_backends s ! j)) \<and>
      (j < k \<longrightarrow> go_lt (GetConnections (sp_backends s ! k)) (GetConnections (sp_backends s ! j))))"
proof -
  have "s' = s" "leastConnections s = Some k"
    using assms by (auto simp: NextPeer_def split: if_splits)
  with leastConnections_least [of s k] show ?thesis by (simp add: least_at_def)
qed

theorem least_conn_minimal_witness:
  "go_le (GetConnections (sp_backends (example_pool ''least-conn''
      [example_backend True 4 1, example_backend False 0 1, example_backend True 2 1]) ! 2)) 4"
proof -
  let ?s = "example_pool ''least-conn''
      [example_backend True 4 1, example_backend False 0 1, example_backend True 2 1]"
  have "sp_algo ?s = ''least-conn''" by (simp add: example_pool_def)
  moreover have "NextPeer example_digest ?s ''c'' = Inr (?s, Some 2)"
    by (simp add: NextPeer_def leastConnections_def example_defs IsAlive_def GetConnections_def
        maxInt64_def)
  ultimately have "IsAlive (sp_backends ?s ! 0) \<longrightarrow>
      go_le (GetConnections (sp_backends ?s ! 2)) (GetConnections (sp_backends ?s ! 0))"
    using least_conn_minimal [of ?s example_digest "''c''" ?s 2]
    by (auto simp: example_pool_def)
  then show ?thesis by (simp add: example_pool_def example_backend_def IsAlive_def GetConnections_def)
qed

text \<open>
  IP-hash is sticky. As long as the backend chosen for a client stays up and no other
  backend comes up, failures elsewhere, connection counts and the pool's counter do not
  change the choice for that client.
\<close>

theorem ip_hash_sticky:
  assumes "sp_algo s = ''ip-hash''" and "sp_algo t = ''ip-hash''"
    and "length (sp_backends t) = length (sp_backends s)" and "length (sp_backends s) < 2 ^ 62"
    and "digest_ok digest" and "NextPeer digest s ip = Inr (s', Some k)"
    and "IsAlive (sp_backends t ! k)"
    and "\<forall>j < length (sp_backends s). IsAlive (sp_backends t ! j) \<longrightarrow> IsAlive (sp_backends s ! j)"
  shows "NextPeer digest t ip = Inr (t, Some k)"
proof -
  let ?n = "length (sp_backends s)"
  have ne: "sp_backends s \<noteq> []" "sp_backends t \<noteq> []"
    using assms(3,6) by (auto simp: NextPeer_def)
  have "digest ip \<noteq> []" using assms(5) by (metis digest_ok_def list.size(3) zero_neq_numeral)
  then have scan: "u \<in> {s, t} \<Longrightarrow> NextPeer digest u ip =
      Inr (u, scan_from (sp_backends u) (unat (hd (digest ip)) mod ?n))" for u
    using ne assms(1-4) ipHash_scan [of u digest ip] by (auto simp: NextPeer_def)
  have "scan_from (sp_backends s) (unat (hd (digest ip)) mod ?n) = Some k"
    using scan [of s] assms(6) by simp
  then have "scan_from (sp_backends t) (unat (hd (digest ip)) mod ?n) = Some k"
    unfolding scan_from_def assms(3) using assms(7,8) by (rule find_shrink) simp
  with scan [of t] show ?thesis by simp
qed

theorem ip_hash_sticky_witness:
  "NextPeer example_digest (example_pool ''ip-hash''
     [example_backend False 7 1, example_backend True 9 1]) ''abc'' =
   Inr (example_pool ''ip-hash'' [example_backend False 7 1, example_backend True 9 1], Some 1)"
proof (rule ip_hash_sticky)
  let ?s = "example_pool ''ip-hash'' [example_backend True 0 1, example_backend True 0 1]"
  show "digest_ok example_digest" by (simp add: digest_ok_def example_digest_def)
  show "NextPeer example_digest ?s ''abc'' = Inr (?s, Some 1)"
  proof -
    have n: "length (sp_backends ?s) = 2" and h: "unat (hd (example_digest ''abc'')) = 3"
      by (simp_all add: example_pool_def example_digest_def)
    have "ipHash example_digest ?s ''abc'' = Inr (scan_from (sp_backends ?s) (3 mod 2))"
      using ipHash_scan [of ?s example_digest "''abc''", unfolded n h]
      by (auto simp: example_pool_def example_digest_def)
    moreover have "scan_from (sp_backends ?s) (3 mod 2) = Some 1"
      by (simp add: scan_from_all_alive example_pool_def example_backend_def IsAlive_def)
    ultimately show ?thesis by (simp add: NextPeer_def example_pool_def)
  qed
qed (simp_all add: example_defs IsAlive_def less_Suc_eq_0_disj)

text \<open>
  The round-robin counter is read as a signed number. On a pool of at least two backends
  the call that brings the counter to \<open>2\<^sup>64 - 1\<close> computes a negative slot and panics with an
  index out of range, although backends are alive.
\<close>

theorem round_robin_counter_panics:
  assumes "sp_algo s = ''round-robin''" and "2 \<le> length (sp_backends s)"
    and "length (sp_backends s) < 2 ^ 63" and "sp_current s = - 2"
  shows "NextPeer digest s ip = Inl IndexOutOfRange"
proof -
  let ?n = "length (sp_backends s)"
  have n: "sint (word_of_nat ?n :: int64) = int ?n" using assms(3) by (rule sint_word_of_nat)
  then have "(word_of_nat ?n :: int64) \<noteq> 0" using assms(2) by (metis not_numeral_le_zero of_nat_eq_0_iff signed_0)
  moreover have "(1 :: int) mod int ?n = 1" using assms(2) by simp
  ultimately have "go_rem (- 1) (word_of_nat ?n) = Inr (- 1)"
    using n by (simp add: go_rem_def)
  moreover have "go_index (sp_backends s) (- 1) = Inl IndexOutOfRange"
    by (simp add: go_index_def)
  moreover have pos: "0 < ?n" using assms(2) by linarith
  then have "[0..<?n] = 0 # [Suc 0..<?n]" by (rule upt_conv_Cons)
  moreover have "sp_backends s \<noteq> []" using pos by auto
  ultimately show ?thesis
    using assms(1,4) by (simp add: NextPeer_def roundRobin_def Let_def)
qed

theorem round_robin_counter_panics_witness:
  "NextPeer example_digest
     \<lparr>sp_backends = replicate 2 (example_backend True 0 1), sp_current = - 2,
      sp_algo = ''round-robin''\<rparr> ''c'' = Inl IndexOutOfRange"
  by (rule round_robin_counter_panics) simp_all

text \<open>
  C40: recorded failures never steer a choice. In any state of a pool, whatever other requests
  and health checks have done to it, and for every algorithm, recording any number of failures
  on any backends changes neither which backend \<open>NextPeer\<close> picks nor whether it panics nor
  what it does to the pool: recording and choosing commute. A failed backend is left out of
  a retry by a health check or by the turn of a counter, never because it failed.
\<close>

theorem failures_do_not_steer:
  "NextPeer digest (foldl record_failure s fs) ip =
   map_sum id (map_prod (\<lambda>s. foldl record_failure s fs) id) (NextPeer digest s ip)"
proof (induction fs arbitrary: s)
  case (Cons f fs)
  show ?case by (simp add: Cons.IH NextPeer_record_failure sum.map_comp o_def prod.map_comp)
qed (simp add: sum.map_id0 prod.map_id0 id_def [symmetric])

end
