(* ===== verification/Config.thy ===== *)
theory Config
  imports Go_Strings "HOL-Library.AList" "HOL-Library.Char_ord" "HOL-Library.List_Lexorder"
begin

text \<open>
  \<open>config.go\<close>: the configuration records, the typed readers of environment variables,
  and the discovery of routes from \<open>SERVICE_ROUTES\<close>, from variables named
  \<open>ROUTE_<NAME>_<SUFFIX>\<close> and from the opt-in defaults.

  The process environment is the list of its \<open>key=value\<close> strings. The JSON decoder and
  \<open>time.ParseDuration\<close> are parameters (\<open>None\<close> is their error return).
\<close>

section \<open>Data\<close>

record ServiceRoute =
  ro_Host :: string
  ro_Prefix :: string
  ro_TargetURL :: string
  ro_Targets :: "string list"
  ro_StripPrefix :: bool
  ro_RequireAuth :: bool
  ro_Weight :: goint
  ro_Weights :: "goint list"
  ro_TimeoutSecs :: goint
  ro_HealthPath :: string
  ro_PreserveHost :: bool
  ro_Name :: string

record Config =
  cf_Port :: string
  cf_MaxRequestsPerSecond :: goint
  cf_MaxBurstSize :: goint
  cf_DDoSThreshold :: goint
  cf_BlockDuration :: duration
  cf_JWTSecret :: string
  cf_HealthCheckInterval :: duration
  cf_ConnectionTimeout :: duration
  cf_MaxIdleConns :: goint
  cf_IdleConnTimeout :: duration
  cf_CircuitBreakerMax :: goint
  cf_CircuitBreakerTimeout :: duration
  cf_EnableCompression :: bool
  cf_EnableCaching :: bool
  cf_CacheTTL :: duration
  cf_RedisAddr :: string
  cf_LoadBalancingAlgo :: string
  cf_ServiceRoutes :: "ServiceRoute list"
  cf_CorsAllowedOrigins :: "string list"

section \<open>The environment\<close>

type_synonym environ = "string list"

text \<open>The key of an entry ends at its first \<open>=\<close>; the first entry of a key counts.\<close>

definition env_key :: "string \<Rightarrow> string option" where
  "env_key kv = map_option (\<lambda>i. take i kv) (IndexByte kv CHR ''='')"

definition env_val :: "string \<Rightarrow> string" where
  "env_val kv = (case IndexByte kv CHR ''='' of None \<Rightarrow> [] | Some i \<Rightarrow> drop (i + 1) kv)"

definition Getenv :: "environ \<Rightarrow> string \<Rightarrow> string" where
  "Getenv env key =
     (if key = [] then []
      else case List.find (\<lambda>kv. env_key kv = Some key) env of None \<Rightarrow> [] | Some kv \<Rightarrow> env_val kv)"

text \<open>\<open>os.Environ\<close> drops later entries of a key that was already seen.\<close>

fun Environ_from :: "string set \<Rightarrow> environ \<Rightarrow> environ" where
  "Environ_from seen [] = []"
| "Environ_from seen (kv # env) =
     (case env_key kv of
        None \<Rightarrow> (if kv = [] then Environ_from seen env else kv # Environ_from seen env)
      | Some k \<Rightarrow> if k \<in> seen then Environ_from seen env
                  else kv # Environ_from (insert k seen) env)"

definition Environ :: "environ \<Rightarrow> environ" where
  "Environ env = Environ_from {} env"

definition envOr :: "environ \<Rightarrow> string \<Rightarrow> string \<Rightarrow> string" where
  "envOr env key fallback = (let v = Getenv env key in if v \<noteq> [] then v else fallback)"

definition envOrInt :: "environ \<Rightarrow> string \<Rightarrow> goint \<Rightarrow> goint" where
  "envOrInt env key fallback =
     (let v = Getenv env key
      in if v = [] then fallback
         else case Atoi v of None \<Rightarrow> fallback | Some n \<Rightarrow> n)"

definition envOrBool :: "environ \<Rightarrow> string \<Rightarrow> bool \<Rightarrow> bool" where
  "envOrBool env key fallback =
     (let v = Getenv env key
      in if v = [] then fallback
         else case ParseBool v of None \<Rightarrow> fallback | Some b \<Rightarrow> b)"

definition envOrDuration ::
  "(string \<Rightarrow> duration option) \<Rightarrow> environ \<Rightarrow> string \<Rightarrow> duration \<Rightarrow> duration" where
  "envOrDuration ParseDuration env key fallback =
     (let v = Getenv env key
      in if v = [] then fallback
         else case ParseDuration v of None \<Rightarrow> fallback | Some d \<Rightarrow> d)"

section \<open>Routes from the environment\<close>

definition zero_route :: ServiceRoute where
  "zero_route = \<lparr>ro_Host = [], ro_Prefix = [], ro_TargetURL = [], ro_Targets = [],
     ro_StripPrefix = False, ro_RequireAuth = False, ro_Weight = 0, ro_Weights = [],
     ro_TimeoutSecs = 0, ro_HealthPath = [], ro_PreserveHost = False, ro_Name = []\<rparr>"

definition default_route :: "string \<Rightarrow> string \<Rightarrow> string \<Rightarrow> ServiceRoute" where
  "default_route name pfx target =
     zero_route\<lparr>ro_Name := name, ro_Prefix := pfx, ro_TargetURL := target\<rparr>"

definition vxCloudDefaultRoutes :: "ServiceRoute list" where
  "vxCloudDefaultRoutes =
    [default_route ''studio'' ''/api/studio'' ''http://localhost:3000'',
     default_route ''studio2'' ''/api/studio2'' ''http://localhost:3001'',
     default_route ''ai'' ''/api/ai'' ''http://localhost:8741'',
     default_route ''admin'' ''/api/admin'' ''http://localhost:8242'',
     default_route ''core'' ''/api/core'' ''http://localhost:8743'',
     default_route ''node'' ''/api/node'' ''http://localhost:8744'',
     default_route ''llm'' ''/api/llm'' ''http://localhost:8745'',
     default_route ''llm2'' ''/api/llm2'' ''http://localhost:8746'',
     default_route ''agent'' ''/api/agent'' ''http://localhost:8788'']"

definition splitList :: "string \<Rightarrow> string list" where
  "splitList raw =
     filter (\<lambda>f. f \<noteq> [])
       (map TrimSpace
         (FieldsFunc (\<lambda>r. r = CHR '','' \<or> r = CHR '' '' \<or> r = CHR 0x09 \<or> r = CHR 0x0A) raw))"

definition routeEnvSuffixes :: "string list" where
  "routeEnvSuffixes =
    [''URL'', ''TARGETS'', ''PREFIX'', ''HOST'', ''STRIP_PREFIX'', ''REQUIRE_AUTH'',
     ''WEIGHT'', ''WEIGHTS'', ''TIMEOUT_SECS'', ''HEALTH_PATH'', ''PRESERVE_HOST'']"

definition longer :: "'a list \<Rightarrow> 'a list \<Rightarrow> bool" where
  "longer a b \<longleftrightarrow> length b < length a"

text \<open>
  \<open>sort.Slice\<close> may order suffixes of equal length either way; \<open>split_suffix_order\<close>
  below shows that the order among them does not matter.
\<close>

definition sorted_suffixes :: "string list" where
  "sorted_suffixes = SliceStable longer routeEnvSuffixes"

text \<open>The inner loop: split \<open><NAME>_<SUFFIX>\<close> at the first suffix that fits.\<close>

fun split_suffix :: "string list \<Rightarrow> string \<Rightarrow> (string \<times> string) option" where
  "split_suffix [] rest = None"
| "split_suffix (sfx # sfxs) rest =
     (if length sfx + 1 < length rest \<and> HasSuffix rest (''_'' @ sfx)
      then Some (take (length rest - length sfx - 1) rest, sfx)
      else split_suffix sfxs rest)"

text \<open>One entry of the environment: name, suffix and value, when it is a route variable.\<close>

definition route_var :: "string \<Rightarrow> (string \<times> string \<times> string) option" where
  "route_var kv =
     (case IndexByte kv CHR ''='' of
        None \<Rightarrow> None
      | Some eq \<Rightarrow>
          (if eq = 0 then None
           else let key = take eq kv; val = drop (eq + 1) kv
                in if \<not> HasPrefix key ''ROUTE_'' \<or> val = [] then None
                   else map_option (\<lambda>(name, sfx). (name, sfx, val))
                          (split_suffix sorted_suffixes (drop (length ''ROUTE_'') key))))"

type_synonym fields = "string \<rightharpoonup> string"

definition add_var :: "(string \<times> fields) list \<Rightarrow> string \<Rightarrow> (string \<times> fields) list" where
  "add_var byName kv =
     (case route_var kv of
        None \<Rightarrow> byName
      | Some (name, sfx, val) \<Rightarrow>
          AList.update name
            ((case map_of byName name of None \<Rightarrow> Map.empty | Some f \<Rightarrow> f)(sfx \<mapsto> val)) byName)"

definition group_vars :: "environ \<Rightarrow> (string \<times> fields) list" where
  "group_vars env = foldl add_var [] (Environ env)"

definition field :: "fields \<Rightarrow> string \<Rightarrow> string" where
  "field f k = (case f k of None \<Rightarrow> [] | Some v \<Rightarrow> v)"

definition parseBoolOr :: "string \<Rightarrow> bool \<Rightarrow> bool" where
  "parseBoolOr v fallback =
     (if v = [] then fallback
      else case ParseBool (TrimSpace v) of None \<Rightarrow> fallback | Some b \<Rightarrow> b)"

definition parseIntOr :: "string \<Rightarrow> goint \<Rightarrow> goint" where
  "parseIntOr v fallback =
     (if v = [] then fallback
      else case Atoi (TrimSpace v) of None \<Rightarrow> fallback | Some n \<Rightarrow> n)"

definition has_upstream :: "fields \<Rightarrow> bool" where
  "has_upstream f \<longleftrightarrow> \<not> (field f ''URL'' = [] \<and> splitList (field f ''TARGETS'') = [])"

definition env_route :: "string \<Rightarrow> fields \<Rightarrow> ServiceRoute" where
  "env_route name f =
     \<lparr>ro_Host = field f ''HOST'',
      ro_Prefix = (if field f ''PREFIX'' = [] then ''/'' else field f ''PREFIX''),
      ro_TargetURL = field f ''URL'',
      ro_Targets = splitList (field f ''TARGETS''),
      ro_StripPrefix = (case f ''STRIP_PREFIX'' of None \<Rightarrow> True | Some v \<Rightarrow> parseBoolOr v True),
      ro_RequireAuth = (case f ''REQUIRE_AUTH'' of None \<Rightarrow> False | Some v \<Rightarrow> parseBoolOr v False),
      ro_Weight = (case f ''WEIGHT'' of None \<Rightarrow> 1 | Some v \<Rightarrow> parseIntOr v 1),
      ro_Weights = map (\<lambda>w. parseIntOr w 1) (splitList (field f ''WEIGHTS'')),
      ro_TimeoutSecs = (case f ''TIMEOUT_SECS'' of None \<Rightarrow> 30 | Some v \<Rightarrow> parseIntOr v 30),
      ro_HealthPath = field f ''HEALTH_PATH'',
      ro_PreserveHost = parseBoolOr (field f ''PRESERVE_HOST'') False,
      ro_Name = ToLower name\<rparr>"

definition loadEnvNamedRoutes :: "environ \<Rightarrow> ServiceRoute list" where
  "loadEnvNamedRoutes env =
     (let byName = group_vars env
      in map (\<lambda>name. env_route name (the (map_of byName name)))
           (filter (\<lambda>name. has_upstream (the (map_of byName name))) (sort (map fst byName))))"

definition loadServiceRoutes ::
  "(string \<Rightarrow> ServiceRoute list option) \<Rightarrow> environ \<Rightarrow> ServiceRoute list" where
  "loadServiceRoutes json env =
     (let raw = Getenv env ''SERVICE_ROUTES'';
          parsed = (if raw \<noteq> [] then (case json raw of None \<Rightarrow> [] | Some rs \<Rightarrow> rs) else []);
          defaults = (if envOrBool env ''ENABLE_VXCLOUD_DEFAULT_ROUTES'' False
                      then map (\<lambda>d. d\<lparr>ro_StripPrefix := True, ro_Weight := 1, ro_TimeoutSecs := 30\<rparr>)
                             vxCloudDefaultRoutes
                      else [])
      in parsed @ loadEnvNamedRoutes env @ defaults)"

definition loadCorsOrigins :: "(string \<Rightarrow> string list option) \<Rightarrow> environ \<Rightarrow> string list" where
  "loadCorsOrigins json env =
     (let raw = Getenv env ''CORS_ALLOWED_ORIGINS''
      in if raw \<noteq> [] then (case json raw of None \<Rightarrow> [''*''] | Some origins \<Rightarrow> origins)
         else [''*''])"

record decoders =
  dec_Duration :: "string \<Rightarrow> duration option"
  dec_Routes :: "string \<Rightarrow> ServiceRoute list option"
  dec_Strings :: "string \<Rightarrow> string list option"

definition LoadConfig :: "decoders \<Rightarrow> environ \<Rightarrow> Config" where
  "LoadConfig dec env = (let dur = envOrDuration (dec_Duration dec) env in
     \<lparr>cf_Port = envOr env ''GATEWAY_PORT'' '':9777'',
      cf_MaxRequestsPerSecond = envOrInt env ''MAX_REQUESTS_PER_SECOND'' 100,
      cf_MaxBurstSize = envOrInt env ''MAX_BURST_SIZE'' 200,
      cf_DDoSThreshold = envOrInt env ''DDOS_THRESHOLD'' 1000,
      cf_BlockDuration = dur ''BLOCK_DURATION'' (10 * minute),
      cf_JWTSecret = envOr env ''JWT_SECRET'' ''your-secret-key-change-in-production'',
      cf_HealthCheckInterval = dur ''HEALTH_CHECK_INTERVAL'' (10 * second),
      cf_ConnectionTimeout = dur ''CONNECTION_TIMEOUT'' (30 * second),
      cf_MaxIdleConns = envOrInt env ''MAX_IDLE_CONNS'' 100,
      cf_IdleConnTimeout = dur ''IDLE_CONN_TIMEOUT'' (90 * second),
      cf_CircuitBreakerMax = envOrInt env ''CIRCUIT_BREAKER_MAX'' 5,
      cf_CircuitBreakerTimeout = dur ''CIRCUIT_BREAKER_TIMEOUT'' (30 * second),
      cf_EnableCompression = envOrBool env ''ENABLE_COMPRESSION'' True,
      cf_EnableCaching = envOrBool env ''ENABLE_CACHING'' True,
      cf_CacheTTL = dur ''CACHE_TTL'' (5 * minute),
      cf_RedisAddr = envOr env ''REDIS_ADDR'' ''localhost:6379'',
      cf_LoadBalancingAlgo = envOr env ''LOAD_BALANCING_ALGO'' ''least-conn'',
      cf_ServiceRoutes = loadServiceRoutes (dec_Routes dec) env,
      cf_CorsAllowedOrigins = loadCorsOrigins (dec_Strings dec) env\<rparr>)"

section \<open>Names of route variables\<close>

interpretation by_length: weak_order longer
  by unfold_locales (auto simp: longer_def)

lemma set_sorted_suffixes [simp]: "set sorted_suffixes = set routeEnvSuffixes"
  by (simp add: sorted_suffixes_def)

definition fits :: "string \<Rightarrow> string \<Rightarrow> bool" where
  "fits rest sfx \<longleftrightarrow> (\<exists>name. name \<noteq> [] \<and> rest = name @ ''_'' @ sfx)"

lemma fits_test: "length sfx + 1 < length rest \<and> HasSuffix rest (''_'' @ sfx) \<longleftrightarrow> fits rest sfx"
  by (auto simp: fits_def HasSuffix_iff)

lemma fits_longer: "fits rest a \<Longrightarrow> fits rest b \<Longrightarrow> length a < length b \<Longrightarrow> HasSuffix b (''_'' @ a)"
  unfolding fits_def HasSuffix_iff
  by (auto simp: append_eq_append_conv2 Cons_eq_append_conv append_eq_Cons_conv)

lemma fits_same_length: "fits rest a \<Longrightarrow> fits rest b \<Longrightarrow> length a = length b \<Longrightarrow> a = b"
  unfolding fits_def by auto

lemma split_suffix_find:
  "split_suffix sfxs rest =
     map_option (\<lambda>sfx. (take (length rest - length sfx - 1) rest, sfx)) (List.find (fits rest) sfxs)"
proof (induction sfxs)
  case (Cons sfx sfxs)
  then show ?case by (simp only: split_suffix.simps fits_test find.simps split: if_split) simp
qed simp

text \<open>On a list sorted by length the first fitting suffix is the longest one that fits.\<close>

lemma split_suffix_iff:
  assumes "sorted_wrt (\<lambda>a b. \<not> longer b a) sfxs"
  shows "split_suffix sfxs rest = Some (name, sfx) \<longleftrightarrow>
    sfx \<in> set sfxs \<and> name \<noteq> [] \<and> rest = name @ ''_'' @ sfx \<and>
    (\<forall>s \<in> set sfxs. fits rest s \<longrightarrow> length s \<le> length sfx)"
proof
  assume "split_suffix sfxs rest = Some (name, sfx)"
  then have f: "List.find (fits rest) sfxs = Some sfx"
    and n: "name = take (length rest - length sfx - 1) rest"
    by (auto simp: split_suffix_find)
  from find_SomeD [OF f] obtain m where m: "sfx \<in> set sfxs" "m \<noteq> []" "rest = m @ ''_'' @ sfx"
    unfolding fits_def by blast
  moreover from m n have "name = m" by simp
  moreover have "length s \<le> length sfx" if "s \<in> set sfxs" "fits rest s" for s
    using find_sorted_first [OF assms f that] by (auto simp: longer_def)
  ultimately show "sfx \<in> set sfxs \<and> name \<noteq> [] \<and> rest = name @ ''_'' @ sfx \<and>
      (\<forall>s \<in> set sfxs. fits rest s \<longrightarrow> length s \<le> length sfx)"
    by blast
next
  assume r: "sfx \<in> set sfxs \<and> name \<noteq> [] \<and> rest = name @ ''_'' @ sfx \<and>
      (\<forall>s \<in> set sfxs. fits rest s \<longrightarrow> length s \<le> length sfx)"
  then have fit: "fits rest sfx" by (auto simp: fits_def)
  with r obtain s where s: "List.find (fits rest) sfxs = Some s"
    by (metis find_None_iff not_Some_eq)
  then have "s = sfx"
    using find_SomeD [OF s] find_sorted_first [OF assms s, of sfx] r fit
    by (metis fits_same_length le_antisym longer_def not_le)
  with s r show "split_suffix sfxs rest = Some (name, sfx)" by (simp add: split_suffix_find)
qed

lemma split_suffix_order:
  assumes "set sfxs = set routeEnvSuffixes" and "sorted_wrt (\<lambda>a b. \<not> longer b a) sfxs"
  shows "split_suffix sfxs rest = split_suffix sorted_suffixes rest"
proof -
  have "split_suffix sfxs rest = Some p \<longleftrightarrow> split_suffix sorted_suffixes rest = Some p" for p
    using split_suffix_iff [OF assms(2), of rest "fst p" "snd p"]
      split_suffix_iff [OF by_length.sorted_SliceStable, of routeEnvSuffixes rest "fst p" "snd p"]
      assms(1) by (simp add: sorted_suffixes_def)
  then show ?thesis by (metis not_Some_eq)
qed

lemma split_sorted_iff:
  "split_suffix sorted_suffixes rest = Some (name, sfx) \<longleftrightarrow>
    sfx \<in> set routeEnvSuffixes \<and> name \<noteq> [] \<and> rest = name @ ''_'' @ sfx \<and>
    (\<forall>s \<in> set routeEnvSuffixes. fits rest s \<longrightarrow> length s \<le> length sfx)"
  using split_suffix_iff [OF by_length.sorted_SliceStable, of routeEnvSuffixes rest]
  by (simp add: sorted_suffixes_def)

lemma suffix_overlaps_list:
  "list_all (\<lambda>a. list_all (\<lambda>b. HasSuffix b (''_'' @ a) \<longrightarrow>
     (a = ''PREFIX'' \<and> b = ''STRIP_PREFIX'') \<or> (a = ''HOST'' \<and> b = ''PRESERVE_HOST''))
     routeEnvSuffixes) routeEnvSuffixes"
  by code_simp

lemma suffix_overlaps:
  "a \<in> set routeEnvSuffixes \<Longrightarrow> b \<in> set routeEnvSuffixes \<Longrightarrow> HasSuffix b (''_'' @ a) \<Longrightarrow>
   (a = ''PREFIX'' \<and> b = ''STRIP_PREFIX'') \<or> (a = ''HOST'' \<and> b = ''PRESERVE_HOST'')"
  using suffix_overlaps_list unfolding list_all_iff by blast

text \<open>The names for which the variable \<open>ROUTE_<NAME>_<SUFFIX>\<close> reads as another pair.\<close>

definition ambiguous :: "string \<Rightarrow> string \<Rightarrow> bool" where
  "ambiguous name sfx \<longleftrightarrow>
     (sfx = ''PREFIX'' \<and> HasSuffix name ''_STRIP'' \<and> name \<noteq> ''_STRIP'') \<or>
     (sfx = ''HOST'' \<and> HasSuffix name ''_PRESERVE'' \<and> name \<noteq> ''_PRESERVE'')"

lemma split_suffix_roundtrip:
  assumes "sfx \<in> set routeEnvSuffixes" and "name \<noteq> []"
  shows "split_suffix sorted_suffixes (name @ ''_'' @ sfx) = Some (name, sfx) \<longleftrightarrow> \<not> ambiguous name sfx"
proof -
  let ?rest = "name @ ''_'' @ sfx"
  have fit: "fits ?rest sfx" using assms by (auto simp: fits_def)
  have "(\<exists>s \<in> set routeEnvSuffixes. fits ?rest s \<and> length sfx < length s) \<longleftrightarrow> ambiguous name sfx"
  proof
    assume "\<exists>s \<in> set routeEnvSuffixes. fits ?rest s \<and> length sfx < length s"
    then obtain s where s: "s \<in> set routeEnvSuffixes" "fits ?rest s" "length sfx < length s" by blast
    from suffix_overlaps [OF assms(1) s(1) fits_longer [OF fit s(2,3)]] s(2)
    show "ambiguous name sfx"
      by (auto simp: fits_def ambiguous_def HasSuffix_iff append_eq_append_conv2 append_eq_Cons_conv)
  next
    assume "ambiguous name sfx"
    then consider (strip) n where "n \<noteq> []" "name = n @ ''_STRIP''" "sfx = ''PREFIX''"
      | (host) n where "n \<noteq> []" "name = n @ ''_PRESERVE''" "sfx = ''HOST''"
      by (auto simp: ambiguous_def HasSuffix_iff)
    then show "\<exists>s \<in> set routeEnvSuffixes. fits ?rest s \<and> length sfx < length s"
    proof cases
      case strip
      then show ?thesis by (intro bexI [of _ "''STRIP_PREFIX''"]) (auto simp: fits_def routeEnvSuffixes_def)
    next
      case host
      then show ?thesis by (intro bexI [of _ "''PRESERVE_HOST''"]) (auto simp: fits_def routeEnvSuffixes_def)
    qed
  qed
  with assms show ?thesis unfolding split_sorted_iff by (auto simp: not_less)
qed

section \<open>Discovery by scanning is lookup by name\<close>

lemma env_key_Some: "env_key kv = Some k \<longleftrightarrow> kv = k @ CHR ''='' # env_val kv \<and> CHR ''='' \<notin> set k"
proof
  assume "env_key kv = Some k"
  then obtain i where i: "IndexByte kv CHR ''='' = Some i" and k: "k = take i kv"
    by (auto simp: env_key_def)
  from IndexByte_Some [OF i] k i id_take_nth_drop [of i kv]
  show "kv = k @ CHR ''='' # env_val kv \<and> CHR ''='' \<notin> set k"
    by (simp add: env_val_def)
next
  assume r: "kv = k @ CHR ''='' # env_val kv \<and> CHR ''='' \<notin> set k"
  then have "IndexByte kv CHR ''='' = Some (length k)" by (metis IndexByte_append)
  with r show "env_key kv = Some k" by (metis append_eq_conv_conj env_key_def option.map(2))
qed

lemma env_key_entry: "CHR ''='' \<notin> set k \<Longrightarrow> env_key (k @ CHR ''='' # v) = Some k"
  by (simp add: env_key_def IndexByte_append)

lemma env_val_entry: "CHR ''='' \<notin> set k \<Longrightarrow> env_val (k @ CHR ''='' # v) = v"
  by (simp add: env_val_def IndexByte_append)

text \<open>\<open>os.Environ\<close> holds one entry per key, the one \<open>os.Getenv\<close> reads.\<close>

lemma filter_Environ_from:
  "filter (\<lambda>kv. env_key kv = Some k) (Environ_from seen env) =
     (if k \<in> seen then []
      else case List.find (\<lambda>kv. env_key kv = Some k) env of None \<Rightarrow> [] | Some kv \<Rightarrow> [kv])"
  by (induction env arbitrary: seen) (auto split: option.split)

lemma filter_Environ:
  "filter (\<lambda>kv. env_key kv = Some k) (Environ env) =
     (case List.find (\<lambda>kv. env_key kv = Some k) env of None \<Rightarrow> [] | Some kv \<Rightarrow> [kv])"
  by (simp add: Environ_def filter_Environ_from)

definition var_name :: "string \<Rightarrow> string \<Rightarrow> string" where
  "var_name name sfx = ''ROUTE_'' @ name @ ''_'' @ sfx"

lemma var_name_nonempty [simp]: "var_name name sfx \<noteq> []"
  by (simp add: var_name_def)

lemma route_var_iff:
  "route_var kv = Some (name, sfx, v) \<longleftrightarrow>
     env_key kv = Some (var_name name sfx) \<and> v = env_val kv \<and> v \<noteq> [] \<and>
     split_suffix sorted_suffixes (name @ ''_'' @ sfx) = Some (name, sfx)"
proof (cases "IndexByte kv CHR ''=''")
  case None
  then show ?thesis by (simp add: route_var_def env_key_def)
next
  case (Some i)
  let ?key = "take i kv"
  have rest: "split_suffix sorted_suffixes r = Some (name, sfx) \<longleftrightarrow> r = name @ ''_'' @ sfx \<and>
      split_suffix sorted_suffixes (name @ ''_'' @ sfx) = Some (name, sfx)" for r
    using split_sorted_iff [of r name sfx] by auto
  have key: "HasPrefix ?key ''ROUTE_'' \<and> drop 6 ?key = name @ ''_'' @ sfx \<longleftrightarrow> ?key = var_name name sfx"
    unfolding HasPrefix_iff var_name_def by auto
  have "i \<noteq> 0" if "?key = var_name name sfx" using that by (cases i) (simp_all add: var_name_def)
  with Some key rest [of "drop 6 ?key"] show ?thesis
    by (auto simp: route_var_def env_key_def env_val_def Let_def eval_nat_numeral)
qed

definition get_var :: "(string \<times> fields) list \<Rightarrow> string \<Rightarrow> fields" where
  "get_var byName name = (case map_of byName name of None \<Rightarrow> Map.empty | Some f \<Rightarrow> f)"

lemma get_var_add:
  "get_var (add_var byName kv) name sfx =
     (case route_var kv of
        Some (n, s, v) \<Rightarrow> if n = name \<and> s = sfx then Some v else get_var byName name sfx
      | None \<Rightarrow> get_var byName name sfx)"
  by (auto simp: get_var_def add_var_def update_conv split: option.splits)

text \<open>What the environment declares for a route, read by the variables' names.\<close>

definition declared :: "environ \<Rightarrow> string \<Rightarrow> fields" where
  "declared env name sfx =
     (let v = Getenv env (var_name name sfx)
      in if v \<noteq> [] \<and> split_suffix sorted_suffixes (name @ ''_'' @ sfx) = Some (name, sfx)
         then Some v else None)"

lemma get_var_fold:
  "get_var (foldl add_var [] kvs) name sfx =
     (case rev (filter (\<lambda>kv. env_key kv = Some (var_name name sfx) \<and> env_val kv \<noteq> [] \<and>
         split_suffix sorted_suffixes (name @ ''_'' @ sfx) = Some (name, sfx)) kvs) of
        [] \<Rightarrow> None | kv # _ \<Rightarrow> Some (env_val kv))"
proof (induction kvs rule: rev_induct)
  case (snoc kv kvs)
  show ?case
  proof (cases "route_var kv = Some (name, sfx, env_val kv)")
    case True
    with snoc show ?thesis using route_var_iff [of kv name sfx "env_val kv"]
      by (simp add: get_var_add)
  next
    case False
    then have "route_var kv \<noteq> Some (name, sfx, v)" for v using route_var_iff [of kv name sfx v] by auto
    with snoc False route_var_iff [of kv name sfx "env_val kv"] show ?thesis
      by (auto simp: get_var_add split: option.split)
  qed
qed (simp add: get_var_def)

lemma get_var_group: "get_var (group_vars env) name = declared env name"
proof
  fix sfx
  let ?ok = "split_suffix sorted_suffixes (name @ ''_'' @ sfx) = Some (name, sfx)"
  have "filter (\<lambda>kv. env_key kv = Some (var_name name sfx) \<and> env_val kv \<noteq> [] \<and> ?ok) (Environ env) =
      filter (\<lambda>kv. env_val kv \<noteq> [] \<and> ?ok) (filter (\<lambda>kv. env_key kv = Some (var_name name sfx)) (Environ env))"
    by (auto intro: filter_cong)
  then show "get_var (group_vars env) name sfx = declared env name sfx"
    unfolding group_vars_def get_var_fold filter_Environ
    by (auto simp: declared_def Getenv_def Let_def split: option.split)
qed

lemma group_vars_keys: "distinct (map fst (group_vars env))"
  unfolding group_vars_def
proof (induction "Environ env" rule: rev_induct)
  case (snoc kv kvs)
  have "distinct (map fst b) \<Longrightarrow> distinct (map fst (add_var b kv))" for b kv
    by (auto simp: add_var_def distinct_update split: option.split)
  then have "distinct (map fst b) \<Longrightarrow> distinct (map fst (foldl add_var b kvs))" for b kvs
    by (induction kvs arbitrary: b) auto
  then show ?case by simp
qed simp

lemma has_upstream_empty [simp]: "\<not> has_upstream Map.empty"
  by (simp add: has_upstream_def field_def splitList_def FieldsFunc_def)

lemma upstream_in_group:
  assumes "has_upstream (declared env n)"
  shows "n \<in> fst ` set (group_vars env)"
proof -
  from assms have "declared env n \<noteq> Map.empty" by (metis has_upstream_empty)
  with get_var_group [of env n] have "map_of (group_vars env) n \<noteq> None"
    by (auto simp: get_var_def split: option.splits)
  then show ?thesis by (metis map_of_eq_None_iff)
qed

lemma finite_upstream: "finite {name. has_upstream (declared env name)}"
  by (rule finite_subset [of _ "fst ` set (group_vars env)"]) (auto simp: upstream_in_group)

lemma loadEnvNamedRoutes_declared:
  "loadEnvNamedRoutes env =
     map (\<lambda>name. env_route name (declared env name))
       (sorted_list_of_set {name. has_upstream (declared env name)})"
proof -
  let ?g = "group_vars env"
  have the: "the (map_of ?g n) = declared env n" if "n \<in> fst ` set ?g" for n
  proof -
    from that obtain f where "map_of ?g n = Some f"
      by (metis domIff dom_map_of_conv_image_fst option.exhaust)
    with get_var_group [of env n] show ?thesis by (simp add: get_var_def)
  qed
  let ?names = "filter (\<lambda>n. has_upstream (declared env n)) (sort (map fst ?g))"
  have "set ?names = {n. has_upstream (declared env n)}" using upstream_in_group by auto
  moreover have "sorted ?names" by (simp add: sorted_wrt_filter)
  moreover have "distinct ?names" using group_vars_keys by simp
  ultimately have "?names = sorted_list_of_set {n. has_upstream (declared env n)}"
    by (metis sorted_list_of_set.idem_if_sorted_distinct)
  moreover have "filter (\<lambda>n. has_upstream (the (map_of ?g n))) (sort (map fst ?g)) = ?names"
    using the by (intro filter_cong) auto
  moreover have "map (\<lambda>n. env_route n (the (map_of ?g n))) ?names =
      map (\<lambda>n. env_route n (declared env n)) ?names"
    using the by (intro map_cong) auto
  ultimately show ?thesis by (simp add: loadEnvNamedRoutes_def Let_def)
qed

section \<open>Properties\<close>

text \<open>
  C29: a route variable names its route and its setting. For a known suffix, a non-empty name
  and a non-empty value, the variable \<open>ROUTE_<NAME>_<SUFFIX>\<close> is read as this name, suffix
  and value, except that a name ending in \<open>_STRIP\<close> loses its \<open>PREFIX\<close> and a name ending
  in \<open>_PRESERVE\<close> its \<open>HOST\<close> to the longer suffix.
\<close>

theorem route_variable_roundtrip:
  assumes "sfx \<in> set routeEnvSuffixes" and "name \<noteq> []" and "v \<noteq> []"
    and "CHR ''='' \<notin> set name"
  shows "route_var (''ROUTE_'' @ name @ ''_'' @ sfx @ ''='' @ v) = Some (name, sfx, v) \<longleftrightarrow>
    \<not> (sfx = ''PREFIX'' \<and> HasSuffix name ''_STRIP'' \<and> name \<noteq> ''_STRIP'') \<and>
    \<not> (sfx = ''HOST'' \<and> HasSuffix name ''_PRESERVE'' \<and> name \<noteq> ''_PRESERVE'')"
proof -
  have "CHR ''='' \<notin> set (var_name name sfx)"
    using assms(1,4) by (auto simp: var_name_def routeEnvSuffixes_def)
  then have "env_key (var_name name sfx @ CHR ''='' # v) = Some (var_name name sfx)"
    "env_val (var_name name sfx @ CHR ''='' # v) = v"
    by (simp_all add: env_key_entry env_val_entry)
  then have "route_var (var_name name sfx @ CHR ''='' # v) = Some (name, sfx, v) \<longleftrightarrow>
      split_suffix sorted_suffixes (name @ ''_'' @ sfx) = Some (name, sfx)"
    using assms(3) by (simp add: route_var_iff)
  also have "\<dots> \<longleftrightarrow> \<not> ambiguous name sfx" by (rule split_suffix_roundtrip [OF assms(1,2)])
  finally show ?thesis by (simp add: var_name_def ambiguous_def)
qed

theorem route_variable_roundtrip_witness:
  "route_var ''ROUTE_API_STRIP_PREFIX=false'' = Some (''API'', ''STRIP_PREFIX'', ''false'')"
  using route_variable_roundtrip [of "''STRIP_PREFIX''" "''API''" "''false''"]
  by (simp add: routeEnvSuffixes_def)

text \<open>
  C23: discovering routes by scanning the environment is reading it by name, in a
  deterministic order. The routes are, in ascending order of their names, exactly the names
  for which \<open>ROUTE_<NAME>_URL\<close> or \<open>ROUTE_<NAME>_TARGETS\<close> declares an upstream, each
  built from the values \<open>os.Getenv\<close> returns for its variables; the order of the
  environment has no influence.
\<close>

theorem env_routes_by_name:
  "loadEnvNamedRoutes env =
     map (\<lambda>name. env_route name (declared env name))
       (sorted_list_of_set {name. has_upstream (declared env name)})"
  by (rule loadEnvNamedRoutes_declared)

text \<open>
  Nothing declared, nothing routed. The route table is empty exactly when the JSON
  source yields no route, no named route has an upstream and the defaults are not enabled.
\<close>

theorem no_invented_routes:
  "(loadServiceRoutes json env = [] \<longleftrightarrow>
      (Getenv env ''SERVICE_ROUTES'' = [] \<or> json (Getenv env ''SERVICE_ROUTES'') \<in> {None, Some []}) \<and>
      (\<nexists>name. has_upstream (declared env name)) \<and>
      ParseBool (Getenv env ''ENABLE_VXCLOUD_DEFAULT_ROUTES'') \<noteq> Some True)"
proof -
  have "loadEnvNamedRoutes env = [] \<longleftrightarrow> (\<nexists>name. has_upstream (declared env name))"
    using finite_upstream by (simp add: loadEnvNamedRoutes_declared sorted_list_of_set_eq_Nil_iff)
  moreover have "envOrBool env ''ENABLE_VXCLOUD_DEFAULT_ROUTES'' False \<longleftrightarrow>
      ParseBool (Getenv env ''ENABLE_VXCLOUD_DEFAULT_ROUTES'') = Some True"
    by (auto simp: envOrBool_def Let_def ParseBool_def split: option.split)
  ultimately show ?thesis
    by (auto simp: loadServiceRoutes_def Let_def vxCloudDefaultRoutes_def split: option.splits)
qed

end
