(* ===== verification/Go_Http.thy ===== *)
theory Go_Http
  imports Go_Strings
begin

text \<open>
  The part of \<open>net/http\<close> the gateway talks to: headers, the request, the response writer
  of the server and \<open>http.Error\<close>.
\<close>

section \<open>Headers\<close>

text \<open>
  \<open>http.Header\<close> maps canonical keys to value lists. Canonicalisation identifies names
  that differ in letter case only, so the model keys its map by the lower-cased name.
\<close>

type_synonym header = "string \<rightharpoonup> string list"

definition Header_Get :: "header \<Rightarrow> string \<Rightarrow> string" where
  "Header_Get h k = (case h (ToLower k) of Some (v # _) \<Rightarrow> v | _ \<Rightarrow> [])"

definition Header_Set :: "header \<Rightarrow> string \<Rightarrow> string \<Rightarrow> header" where
  "Header_Set h k v = h(ToLower k \<mapsto> [v])"

definition Header_Add :: "header \<Rightarrow> string \<Rightarrow> string \<Rightarrow> header" where
  "Header_Add h k v =
     h(ToLower k \<mapsto> (case h (ToLower k) of None \<Rightarrow> [v] | Some vs \<Rightarrow> vs @ [v]))"

definition Header_Del :: "header \<Rightarrow> string \<Rightarrow> header" where
  "Header_Del h k = h(ToLower k := None)"

lemma Header_Get_Set [simp]:
  "Header_Get (Header_Set h k v) k' = (if ToLower k = ToLower k' then v else Header_Get h k')"
  by (simp add: Header_Get_def Header_Set_def)

lemma Header_Get_Del:
  "Header_Get (Header_Del h k) k' = (if ToLower k = ToLower k' then [] else Header_Get h k')"
  by (simp add: Header_Get_def Header_Del_def)

text \<open>The header names in use, in the lower-case form the map is keyed by.\<close>

lemma header_keys [simp]:
  "ToLower ''X-Content-Type-Options'' = ''x-content-type-options''"
  "ToLower ''X-Frame-Options'' = ''x-frame-options''"
  "ToLower ''Strict-Transport-Security'' = ''strict-transport-security''"
  "ToLower ''Content-Security-Policy'' = ''content-security-policy''"
  "ToLower ''X-XSS-Protection'' = ''x-xss-protection''"
  "ToLower ''Referrer-Policy'' = ''referrer-policy''"
  "ToLower ''x-request-id'' = ''x-request-id''"
  "ToLower ''X-Real-IP'' = ''x-real-ip''"
  "ToLower ''X-Forwarded-For'' = ''x-forwarded-for''"
  "ToLower ''X-Forwarded-Host'' = ''x-forwarded-host''"
  "ToLower ''X-Forwarded-Proto'' = ''x-forwarded-proto''"
  "ToLower ''X-Gateway-Time'' = ''x-gateway-time''"
  "ToLower ''X-Cache'' = ''x-cache''"
  "ToLower ''Authorization'' = ''authorization''"
  "ToLower ''X-API-Key'' = ''x-api-key''"
  "ToLower ''Content-Type'' = ''content-type''"
  "ToLower ''Content-Length'' = ''content-length''"
  "ToLower ''Content-Encoding'' = ''content-encoding''"
  "ToLower ''Accept-Encoding'' = ''accept-encoding''"
  by code_simp+

section \<open>Requests\<close>

text \<open>
  The fields of \<open>http.Request\<close> the gateway reads; \<open>req_Query\<close> is \<open>r.URL.Query()\<close>.
\<close>

record Request =
  req_Method :: string
  req_Host :: string
  req_Path :: string
  req_RawPath :: string
  req_Query :: "string \<rightharpoonup> string list"
  req_Header :: header
  req_RemoteAddr :: string
  req_TLS :: bool

definition Query_Get :: "Request \<Rightarrow> string \<Rightarrow> string" where
  "Query_Get r k = (case req_Query r k of Some (v # _) \<Rightarrow> v | _ \<Rightarrow> [])"

section \<open>The server's response writer\<close>

text \<open>
  \<open>w_status\<close> is the final status line sent, \<open>w_info\<close> the informational ones before it
  (an interim 1xx response does not end the header phase). The two capability flags say
  whether the writer implements \<open>http.Flusher\<close> and \<open>http.Hijacker\<close>. Status codes are
  in the range net/http accepts (100 to 999). \<open>w_header\<close> is the map the handler sees.
  \<open>w_contentLength\<close> is the length the handler declared in its headers when it sent the
  final status (\<open>contentLength\<close> of the server's \<open>response\<close>, which has -1 for none), and
  \<open>w_written\<close> the bytes it has tried to write; a write that would exceed the declared
  length is refused whole.
\<close>

record ResponseWriter =
  w_header :: header
  w_info :: "int list"
  w_status :: "int option"
  w_body :: string
  w_contentLength :: "nat option"
  w_written :: nat
  w_hijacked :: bool
  w_flushes :: nat
  w_canFlush :: bool
  w_canHijack :: bool

definition informational :: "int \<Rightarrow> bool" where
  "informational code \<longleftrightarrow> 100 \<le> code \<and> code \<le> 199 \<and> code \<noteq> 101"

definition bodyAllowed :: "int \<Rightarrow> bool" where
  "bodyAllowed code \<longleftrightarrow> \<not> (100 \<le> code \<and> code \<le> 199) \<and> code \<noteq> 204 \<and> code \<noteq> 304"

text \<open>
  A declared length that is not a number, or negative, is dropped from the headers.
\<close>

definition declare_length :: "ResponseWriter \<Rightarrow> ResponseWriter" where
  "declare_length w =
     (let cl = Header_Get (w_header w) ''Content-Length''
      in if cl = [] then w
         else (case Atoi cl of
             Some v \<Rightarrow> (if go_le 0 v then w\<lparr>w_contentLength := Some (unat v)\<rparr>
                        else w\<lparr>w_header := Header_Del (w_header w) ''Content-Length''\<rparr>)
           | None \<Rightarrow> w\<lparr>w_header := Header_Del (w_header w) ''Content-Length''\<rparr>))"

definition w_WriteHeader :: "ResponseWriter \<Rightarrow> int \<Rightarrow> ResponseWriter" where
  "w_WriteHeader w code =
     (if w_hijacked w \<or> w_status w \<noteq> None then w
      else if informational code then w\<lparr>w_info := w_info w @ [code]\<rparr>
      else declare_length (w\<lparr>w_status := Some code\<rparr>))"

text \<open>\<open>Write\<close> answers the number of bytes taken and whether there was no error.\<close>

definition w_Write :: "ResponseWriter \<Rightarrow> string \<Rightarrow> ResponseWriter \<times> nat \<times> bool" where
  "w_Write w b =
     (if w_hijacked w then (w, 0, False)
      else let w1 = (if w_status w = None then w_WriteHeader w 200 else w)
           in if b = [] then (w1, 0, True)
              else if \<not> bodyAllowed (the (w_status w1)) then (w1, 0, False)
              else let w2 = w1\<lparr>w_written := w_written w1 + length b\<rparr>
                   in if (case w_contentLength w2 of None \<Rightarrow> False | Some n \<Rightarrow> n < w_written w2)
                      then (w2, 0, False)
                      else (w2\<lparr>w_body := w_body w2 @ b\<rparr>, length b, True))"

definition w_Flush :: "ResponseWriter \<Rightarrow> ResponseWriter" where
  "w_Flush w =
     (if w_hijacked w then w
      else let w1 = (if w_status w = None then w_WriteHeader w 200 else w)
           in w1\<lparr>w_flushes := Suc (w_flushes w1)\<rparr>)"

definition w_Hijack :: "ResponseWriter \<Rightarrow> ResponseWriter \<times> bool" where
  "w_Hijack w = (if w_hijacked w then (w, False) else (w\<lparr>w_hijacked := True\<rparr>, True))"

text \<open>
  \<open>http.Error\<close>: \<open>Fprintln\<close> ends the text with a newline.
\<close>

definition http_Error :: "ResponseWriter \<Rightarrow> string \<Rightarrow> int \<Rightarrow> ResponseWriter" where
  "http_Error w msg code =
     (let h = Header_Set (Header_Set (Header_Del (w_header w) ''Content-Length'')
                ''Content-Type'' ''text/plain; charset=utf-8'')
                ''X-Content-Type-Options'' ''nosniff'';
          w1 = w_WriteHeader (w\<lparr>w_header := h\<rparr>) code
      in fst (w_Write w1 (msg @ [CHR 0x0A])))"

definition fresh_writer :: "bool \<Rightarrow> bool \<Rightarrow> ResponseWriter" where
  "fresh_writer fl hj =
     \<lparr>w_header = Map.empty, w_info = [], w_status = None, w_body = [], w_contentLength = None,
      w_written = 0, w_hijacked = False,
      w_flushes = 0, w_canFlush = fl, w_canHijack = hj\<rparr>"

lemmas writer_defs =
  informational_def bodyAllowed_def declare_length_def w_WriteHeader_def w_Write_def w_Flush_def w_Hijack_def

lemma declare_length_frame [simp]:
  "w_status (declare_length w) = w_status w" "w_hijacked (declare_length w) = w_hijacked w"
  "w_body (declare_length w) = w_body w" "w_info (declare_length w) = w_info w"
  "w_canFlush (declare_length w) = w_canFlush w" "w_canHijack (declare_length w) = w_canHijack w"
  "w_written (declare_length w) = w_written w"
  by (simp_all add: declare_length_def Let_def split: option.split)

lemma declare_length_none:
  "Header_Get (w_header w) ''Content-Length'' = [] \<Longrightarrow> declare_length w = w"
  by (simp add: declare_length_def)

text \<open>The other headers are left alone.\<close>

lemma declare_length_header:
  "ToLower k \<noteq> ''content-length'' \<Longrightarrow> Header_Get (w_header (declare_length w)) k = Header_Get (w_header w) k"
  by (simp add: declare_length_def Let_def Header_Get_Del split: option.split)

lemma w_WriteHeader_hijacked [simp]: "w_hijacked (w_WriteHeader w code) = w_hijacked w"
  by (simp add: w_WriteHeader_def)

lemma w_WriteHeader_body [simp]:
  "w_body (w_WriteHeader w code) = w_body w" "w_written (w_WriteHeader w code) = w_written w"
  by (simp_all add: w_WriteHeader_def)

lemma w_WriteHeader_can [simp]:
  "w_canFlush (w_WriteHeader w code) = w_canFlush w"
  "w_canHijack (w_WriteHeader w code) = w_canHijack w"
  by (simp_all add: w_WriteHeader_def)

lemma w_WriteHeader_header:
  "ToLower k \<noteq> ''content-length'' \<Longrightarrow> Header_Get (w_header (w_WriteHeader w code)) k = Header_Get (w_header w) k"
  by (simp add: w_WriteHeader_def declare_length_header)

lemma not_informational_200 [simp]: "\<not> informational 200"
  by (simp add: informational_def)

lemma w_WriteHeader_status:
  "w_status (w_WriteHeader w code) =
     (if w_hijacked w \<or> w_status w \<noteq> None \<or> informational code then w_status w else Some code)"
  by (simp add: w_WriteHeader_def)

lemma w_WriteHeader_final:
  "\<not> w_hijacked w \<Longrightarrow> w_status w = None \<Longrightarrow> \<not> informational code \<Longrightarrow>
   w_status (w_WriteHeader w code) = Some code"
  by (simp add: w_WriteHeader_status)

lemma w_Write_frame [simp]:
  "w_hijacked (fst (w_Write w b)) = w_hijacked w"
  "w_canFlush (fst (w_Write w b)) = w_canFlush w"
  "w_canHijack (fst (w_Write w b)) = w_canHijack w"
  "w_info (fst (w_Write w b)) = w_info w"
  by (simp_all add: w_Write_def Let_def w_WriteHeader_def)

lemma w_Write_header:
  "ToLower k \<noteq> ''content-length'' \<Longrightarrow> Header_Get (w_header (fst (w_Write w b))) k = Header_Get (w_header w) k"
  by (simp add: w_Write_def Let_def w_WriteHeader_header)

lemma w_Write_status:
  "w_status (fst (w_Write w b)) =
     (if w_hijacked w then w_status w else if w_status w = None then Some 200 else w_status w)"
  by (auto simp: w_Write_def Let_def w_WriteHeader_status)

lemma w_Write_body:
  "w_body (fst (w_Write w b)) = w_body w @ take (fst (snd (w_Write w b))) b"
  by (auto simp: w_Write_def Let_def)

lemma w_Write_count: "fst (snd (w_Write w b)) \<le> length b"
  by (simp add: w_Write_def Let_def)

lemma w_Flush_frame [simp]:
  "w_hijacked (w_Flush w) = w_hijacked w" "w_body (w_Flush w) = w_body w"
  "w_canFlush (w_Flush w) = w_canFlush w" "w_canHijack (w_Flush w) = w_canHijack w"
  by (simp_all add: w_Flush_def Let_def)

lemma w_Flush_status:
  "w_status (w_Flush w) =
     (if w_hijacked w then w_status w else if w_status w = None then Some 200 else w_status w)"
  by (auto simp: w_Flush_def Let_def w_WriteHeader_status)

lemma w_Hijack_frame [simp]:
  "w_hijacked (fst (w_Hijack w))" "w_status (fst (w_Hijack w)) = w_status w"
  "w_body (fst (w_Hijack w)) = w_body w" "w_canFlush (fst (w_Hijack w)) = w_canFlush w"
  "w_canHijack (fst (w_Hijack w)) = w_canHijack w"
  by (simp_all add: w_Hijack_def)

lemma http_Error_status:
  assumes "\<not> w_hijacked w" "w_status w = None" "\<not> informational code"
  shows "w_status (http_Error w msg code) = Some code"
  using assms by (simp add: http_Error_def Let_def w_Write_status w_WriteHeader_final)

end
