(* ===== verification/Router.thy ===== *)
theory Router
  imports Backend_Pool Config Go_Http
begin

text \<open>
  \<open>routing.go\<close>, second half: host patterns, the routing table ordered by specificity,
  registration of routes, the request rewriting of the backend proxies, and route lookup.
  The pools are kept in a store; an entry refers to its pool by its position there, as the
  code does by a pointer. \<open>url.Parse\<close> and \<open>URL.String\<close> are parameters.
\<close>

section \<open>Host patterns\<close>

definition hostAny :: int where "hostAny = 0"
definition hostWildcard :: int where "hostWildcard = 1"
definition hostExact :: int where "hostExact = 2"

definition hostSpecificity :: "string \<Rightarrow> int" where
  "hostSpecificity pattern =
     (if pattern = [] then hostAny
      else if HasPrefix pattern ''*.'' then hostWildcard
      else hostExact)"

definition normalizeHost :: "string \<Rightarrow> string" where
  "normalizeHost h0 =
     (let h = ToLower (TrimSpace h0)
      in if h = [] then []
         else let h1 = (case SplitHostPort h of Some (host, _) \<Rightarrow> host | None \<Rightarrow> h);
                  h2 = Trim h1 ''[]''
              in if 1 < length h2 then TrimSuffix h2 ''.'' else h2)"

definition hostMatches :: "string \<Rightarrow> string \<Rightarrow> bool" where
  "hostMatches pattern0 host =
     (if pattern0 = [] then True
      else let pattern = normalizeHost pattern0
           in if pattern = host then True
              else case CutPrefix pattern ''*'' of
                  Some suff \<Rightarrow> length suff < length host \<and> HasSuffix host suff
                | None \<Rightarrow> False)"

section \<open>Upstreams\<close>

record url_lib =
  ul_Parse :: "string \<Rightarrow> string + URL"
  ul_String :: "URL \<Rightarrow> string"

datatype upstream_error = EmptyUpstream | ParseFailed string | NoHost string | BadScheme string string

definition normalizeUpstream :: "url_lib \<Rightarrow> string \<Rightarrow> upstream_error + URL" where
  "normalizeUpstream lib raw0 =
     (let raw1 = TrimSpace raw0
      in if raw1 = [] then Inl EmptyUpstream
         else let raw = (if \<not> Contains raw1 ''://'' then ''http://'' @ raw1 else raw1)
              in case ul_Parse lib raw of
                   Inl err \<Rightarrow> Inl (ParseFailed err)
                 | Inr u \<Rightarrow>
                     if url_Host u = [] then Inl (NoHost raw)
                     else if url_Scheme u \<noteq> ''http'' \<and> url_Scheme u \<noteq> ''https''
                     then Inl (BadScheme raw (url_Scheme u))
                     else Inr u)"

section \<open>The table\<close>

record RouteEntry =
  re_Name :: string
  re_Host :: string
  re_Prefix :: string
  re_Pool :: nat
  re_StripPrefix :: bool
  re_RequireAuth :: bool
  re_Timeout :: duration

record MatchedRoute =
  mr_Name :: string
  mr_Pool :: nat
  mr_BackendPath :: string
  mr_RequireAuth :: bool
  mr_Timeout :: duration

record ServiceRouter =
  sr_routes :: "RouteEntry list"
  sr_pools :: "ServicePool list"

definition NewServiceRouter :: ServiceRouter where
  "NewServiceRouter = \<lparr>sr_routes = [], sr_pools = []\<rparr>"

text \<open>The comparison \<open>sort.SliceStable\<close> is called with.\<close>

definition more_specific :: "RouteEntry \<Rightarrow> RouteEntry \<Rightarrow> bool" where
  "more_specific a b =
     (let si = hostSpecificity (re_Host a); sj = hostSpecificity (re_Host b)
      in if si \<noteq> sj then si > sj
         else if length (re_Host a) \<noteq> length (re_Host b) then length (re_Host a) > length (re_Host b)
         else length (re_Prefix a) > length (re_Prefix b))"

definition newBackendProxy :: "URL \<Rightarrow> Transport \<Rightarrow> bool \<Rightarrow> ReverseProxy" where
  "newBackendProxy target transport preserveHost =
     \<lparr>px_target = target, px_transport = transport, px_preserveHost = preserveHost\<rparr>"

text \<open>
  What the proxy's director does to the outgoing request; \<open>inner\<close> is the director of
  \<open>httputil.NewSingleHostReverseProxy\<close> for the target.
\<close>

definition proxy_Director :: "(URL \<Rightarrow> Request \<Rightarrow> Request) \<Rightarrow> ReverseProxy \<Rightarrow> Request \<Rightarrow> Request" where
  "proxy_Director inner px req =
     (let origHost = req_Host req;
          scheme0 = (if req_TLS req then ''https'' else ''http'');
          xf = Header_Get (req_Header req) ''X-Forwarded-Proto'';
          scheme = (if xf \<noteq> [] then xf else scheme0);
          r1 = inner (px_target px) req;
          h1 = (if Header_Get (req_Header r1) ''X-Forwarded-Host'' = [] \<and> origHost \<noteq> []
                then Header_Set (req_Header r1) ''X-Forwarded-Host'' origHost else req_Header r1);
          h2 = Header_Set h1 ''X-Forwarded-Proto'' scheme
      in r1\<lparr>req_Header := h2,
            req_Host := (if px_preserveHost px then origHost else url_Host (px_target px))\<rparr>)"

section \<open>Registration\<close>

definition route_transport :: "Config \<Rightarrow> Transport" where
  "route_transport cfg =
     \<lparr>tr_MaxIdleConns = cf_MaxIdleConns cfg, tr_MaxIdleConnsPerHost = cf_MaxIdleConns cfg,
      tr_IdleConnTimeout = cf_IdleConnTimeout cfg, tr_InsecureSkipVerify = False,
      tr_DisableCompression = \<not> cf_EnableCompression cfg, tr_ForceAttemptHTTP2 = True\<rparr>"

definition route_healthClient :: "Transport \<Rightarrow> HealthClient" where
  "route_healthClient transport =
     \<lparr>hc_Timeout = 3 * second, hc_Transport = transport, hc_FollowRedirects = False\<rparr>"

definition raw_targets :: "ServiceRoute \<Rightarrow> string list" where
  "raw_targets cfg = (if ro_TargetURL cfg \<noteq> [] then [ro_TargetURL cfg] else []) @ ro_Targets cfg"

definition defaultWeight :: "ServiceRoute \<Rightarrow> goint" where
  "defaultWeight cfg = (if go_le (ro_Weight cfg) 0 then 1 else ro_Weight cfg)"

definition weight_at :: "ServiceRoute \<Rightarrow> nat \<Rightarrow> goint" where
  "weight_at cfg i =
     (if i < length (ro_Weights cfg) \<and> go_lt 0 (ro_Weights cfg ! i) then ro_Weights cfg ! i
      else defaultWeight cfg)"

definition new_backend :: "ServiceRoute \<Rightarrow> Transport \<Rightarrow> URL \<Rightarrow> goint \<Rightarrow> Backend" where
  "new_backend cfg transport targetURL weight =
     \<lparr>be_URL = targetURL, be_Alive = True, be_Connections = 0, be_Weight = weight,
      be_ReverseProxy = newBackendProxy targetURL transport (ro_PreserveHost cfg),
      be_FailCount = 0, be_LastFail = 0, be_HealthPath = ro_HealthPath cfg,
      be_healthClient = route_healthClient transport\<rparr>"

text \<open>The loop over the merged targets, with the \<open>seen\<close> set of upstream URLs.\<close>

fun add_targets ::
  "url_lib \<Rightarrow> ServiceRoute \<Rightarrow> Transport \<Rightarrow> nat \<Rightarrow> string list \<Rightarrow> string set \<Rightarrow> ServicePool \<Rightarrow> ServicePool" where
  "add_targets lib cfg transport i [] seen pool = pool"
| "add_targets lib cfg transport i (r # rs) seen pool =
     (case normalizeUpstream lib r of
        Inl err \<Rightarrow> add_targets lib cfg transport (Suc i) rs seen pool
      | Inr targetURL \<Rightarrow>
          if ul_String lib targetURL \<in> seen then add_targets lib cfg transport (Suc i) rs seen pool
          else add_targets lib cfg transport (Suc i) rs (insert (ul_String lib targetURL) seen)
                 (AddBackend (new_backend cfg transport targetURL (weight_at cfg i)) pool))"

definition route_pool :: "url_lib \<Rightarrow> ServiceRoute \<Rightarrow> string \<Rightarrow> Config \<Rightarrow> ServicePool" where
  "route_pool lib cfg algo transportCfg =
     add_targets lib cfg (route_transport transportCfg) 0 (raw_targets cfg) {} (NewServicePool algo)"

definition route_timeout :: "ServiceRoute \<Rightarrow> duration" where
  "route_timeout cfg =
     (let timeout = ro_TimeoutSecs cfg * second in if go_le timeout 0 then hour else timeout)"

definition new_entry :: "ServiceRoute \<Rightarrow> nat \<Rightarrow> RouteEntry" where
  "new_entry cfg pool =
     \<lparr>re_Name = ro_Name cfg, re_Host = normalizeHost (ro_Host cfg),
      re_Prefix = (if ro_Prefix cfg = [] then ''/'' else ro_Prefix cfg),
      re_Pool = pool, re_StripPrefix = ro_StripPrefix cfg,
      re_RequireAuth = ro_RequireAuth cfg, re_Timeout = route_timeout cfg\<rparr>"

definition AddRoute ::
  "url_lib \<Rightarrow> string \<Rightarrow> Config \<Rightarrow> ServiceRouter \<Rightarrow> ServiceRoute \<Rightarrow> ServiceRouter" where
  "AddRoute lib algo transportCfg sr cfg =
     (let pool = route_pool lib cfg algo transportCfg
      in if length (Backends pool) = 0 then sr
         else \<lparr>sr_routes = SliceStable more_specific
                 (sr_routes sr @ [new_entry cfg (length (sr_pools sr))]),
               sr_pools = sr_pools sr @ [pool]\<rparr>)"

section \<open>Lookup\<close>

definition pathMatches :: "string \<Rightarrow> string \<Rightarrow> bool" where
  "pathMatches pfx path =
     (if pfx = [] \<or> pfx = ''/'' then True
      else if \<not> HasPrefix path pfx then False
      else if length path = length pfx then True
      else path ! length pfx = CHR ''/'' \<or> HasSuffix pfx ''/'')"

definition backend_path :: "RouteEntry \<Rightarrow> string \<Rightarrow> string" where
  "backend_path entry path =
     (if re_StripPrefix entry \<and> re_Prefix entry \<noteq> ''/''
      then let p = TrimPrefix path (re_Prefix entry)
           in if p = [] \<or> hd p \<noteq> CHR ''/'' then ''/'' @ p else p
      else path)"

definition matched :: "string \<Rightarrow> RouteEntry \<Rightarrow> MatchedRoute" where
  "matched path entry =
     \<lparr>mr_Name = re_Name entry, mr_Pool = re_Pool entry, mr_BackendPath = backend_path entry path,
      mr_RequireAuth = re_RequireAuth entry, mr_Timeout = re_Timeout entry\<rparr>"

fun Route_loop :: "RouteEntry list \<Rightarrow> string \<Rightarrow> string \<Rightarrow> MatchedRoute option" where
  "Route_loop [] h path = None"
| "Route_loop (entry # es) h path =
     (if \<not> hostMatches (re_Host entry) h then Route_loop es h path
      else if \<not> pathMatches (re_Prefix entry) path then Route_loop es h path
      else Some (matched path entry))"

definition Route :: "ServiceRouter \<Rightarrow> string \<Rightarrow> string \<Rightarrow> MatchedRoute option" where
  "Route sr host path = Route_loop (sr_routes sr) (normalizeHost host) path"

definition Routes :: "ServiceRouter \<Rightarrow> RouteEntry list" where
  "Routes sr = sr_routes sr"

text \<open>Health checks run entry by entry on the pools the entries point to.\<close>

definition check_pool :: "NetEnv \<Rightarrow> ServicePool list \<Rightarrow> RouteEntry \<Rightarrow> ServicePool list" where
  "check_pool net pools entry =
     pools[re_Pool entry := HealthCheck net (pools ! re_Pool entry)]"

definition HealthCheckAll :: "NetEnv \<Rightarrow> ServiceRouter \<Rightarrow> ServiceRouter" where
  "HealthCheckAll net sr = sr\<lparr>sr_pools := foldl (check_pool net) (sr_pools sr) (sr_routes sr)\<rparr>"

section \<open>The table is sorted by specificity\<close>

definition rank :: "RouteEntry \<Rightarrow> nat list" where
  "rank e = [nat (hostSpecificity (re_Host e)), length (re_Host e), length (re_Prefix e)]"

lemma more_specific_rank: "more_specific a b \<longleftrightarrow> rank b < rank a"
  by (auto simp: more_specific_def rank_def Let_def hostSpecificity_def hostAny_def
      hostWildcard_def hostExact_def)

interpretation specificity: weak_order more_specific
  by unfold_locales (auto simp: more_specific_rank)

definition covers :: "string \<Rightarrow> string \<Rightarrow> RouteEntry \<Rightarrow> bool" where
  "covers h path e \<longleftrightarrow> hostMatches (re_Host e) h \<and> pathMatches (re_Prefix e) path"

lemma Route_loop_find: "Route_loop es h path = map_option (matched path) (List.find (covers h path) es)"
  by (induction es) (auto simp: covers_def)

text \<open>The router that start-up builds from a list of route configurations.\<close>

definition build_router :: "url_lib \<Rightarrow> string \<Rightarrow> Config \<Rightarrow> ServiceRoute list \<Rightarrow> ServiceRouter" where
  "build_router lib algo tc cfgs = foldl (AddRoute lib algo tc) NewServiceRouter cfgs"

text \<open>The specification: usable routes in the order of registration.\<close>

definition usable :: "url_lib \<Rightarrow> string \<Rightarrow> Config \<Rightarrow> ServiceRoute \<Rightarrow> bool" where
  "usable lib algo tc cfg \<longleftrightarrow> sp_backends (route_pool lib cfg algo tc) \<noteq> []"

definition registered :: "url_lib \<Rightarrow> string \<Rightarrow> Config \<Rightarrow> ServiceRoute list \<Rightarrow> RouteEntry list" where
  "registered lib algo tc cfgs =
     (let us = filter (usable lib algo tc) cfgs in map2 new_entry us [0..<length us])"

lemma registered_snoc:
  "registered lib algo tc (cfgs @ [cfg]) =
     (if usable lib algo tc cfg
      then registered lib algo tc cfgs @ [new_entry cfg (length (filter (usable lib algo tc) cfgs))]
      else registered lib algo tc cfgs)"
  by (simp add: registered_def Let_def)

lemma build_router_sorted:
  "build_router lib algo tc cfgs =
     \<lparr>sr_routes = SliceStable more_specific (registered lib algo tc cfgs),
      sr_pools = map (\<lambda>cfg. route_pool lib cfg algo tc) (filter (usable lib algo tc) cfgs)\<rparr>"
proof (induction cfgs rule: rev_induct)
  case Nil
  then show ?case
    by (simp add: build_router_def NewServiceRouter_def registered_def SliceStable_def)
next
  case (snoc cfg cfgs)
  then show ?case
    by (simp add: build_router_def AddRoute_def Backends_def usable_def [symmetric] registered_snoc
        Let_def specificity.SliceStable_again)
qed

lemma in_registered:
  assumes "e \<in> set (registered lib algo tc cfgs)"
  obtains cfg where "cfg \<in> set cfgs" "usable lib algo tc cfg" "e = new_entry cfg (re_Pool e)"
    "re_Pool e < length (filter (usable lib algo tc) cfgs)"
    "filter (usable lib algo tc) cfgs ! re_Pool e = cfg"
proof -
  let ?us = "filter (usable lib algo tc) cfgs"
  from assms obtain i where i: "i < length ?us" "e = new_entry (?us ! i) i"
    by (auto simp: registered_def Let_def set_zip)
  then have "re_Pool e = i" by (simp add: new_entry_def)
  moreover from i(1) have "?us ! i \<in> set ?us" by (rule nth_mem)
  ultimately show ?thesis using that [of "?us ! i"] i by auto
qed

lemma registered_pools: "map re_Pool (registered lib algo tc cfgs) = [0..<length (filter (usable lib algo tc) cfgs)]"
proof -
  have "map re_Pool (map2 new_entry us is) = take (length us) is" if "length is = length us" for us "is"
    using that by (induction us "is" rule: list_induct2') (simp_all add: new_entry_def)
  then show ?thesis by (simp add: registered_def Let_def)
qed

section \<open>Pools of registered routes\<close>

definition fresh_backend :: "ServiceRoute \<Rightarrow> Transport \<Rightarrow> Backend \<Rightarrow> bool" where
  "fresh_backend cfg tr b \<longleftrightarrow>
     IsAlive b \<and> 0 < sint (be_Weight b) \<and> GetConnections b = 0 \<and>
     url_Host (be_URL b) \<noteq> [] \<and> url_Scheme (be_URL b) \<in> {''http'', ''https''} \<and>
     be_ReverseProxy b = newBackendProxy (be_URL b) tr (ro_PreserveHost cfg)"

lemma weight_at_positive: "0 < sint (weight_at cfg i)"
  by (auto simp: weight_at_def defaultWeight_def)

lemma normalizeUpstream_ok:
  "normalizeUpstream lib r = Inr u \<Longrightarrow> url_Host u \<noteq> [] \<and> url_Scheme u \<in> {''http'', ''https''}"
  by (auto simp: normalizeUpstream_def Let_def split: if_splits sum.splits)

lemma fresh_new_backend:
  "normalizeUpstream lib r = Inr u \<Longrightarrow> fresh_backend cfg tr (new_backend cfg tr u (weight_at cfg i))"
  using normalizeUpstream_ok [of lib r u] weight_at_positive [of cfg i]
  by (simp add: fresh_backend_def new_backend_def IsAlive_def GetConnections_def)

lemma add_targets_fresh:
  "list_all (fresh_backend cfg tr) (sp_backends pool) \<Longrightarrow>
   list_all (fresh_backend cfg tr) (sp_backends (add_targets lib cfg tr i rs seen pool))"
  by (induction lib cfg tr i rs seen pool rule: add_targets.induct)
    (auto simp: AddBackend_def fresh_new_backend split: sum.split)

text \<open>The backends are the valid upstreams in their order, each listed once.\<close>

definition valid_upstreams :: "url_lib \<Rightarrow> string list \<Rightarrow> string list" where
  "valid_upstreams lib rs =
     concat (map (\<lambda>r. case normalizeUpstream lib r of Inl _ \<Rightarrow> [] | Inr u \<Rightarrow> [ul_String lib u]) rs)"

lemma add_targets_urls:
  "map (\<lambda>b. ul_String lib (be_URL b)) (sp_backends (add_targets lib cfg tr i rs seen pool)) =
   map (\<lambda>b. ul_String lib (be_URL b)) (sp_backends pool) @ keep_first seen (valid_upstreams lib rs)"
  by (induction lib cfg tr i rs seen pool rule: add_targets.induct)
    (auto simp: AddBackend_def new_backend_def valid_upstreams_def split: sum.split)

lemma add_targets_algo [simp]:
  "sp_algo (add_targets lib cfg tr i rs seen pool) = sp_algo pool \<and>
   sp_current (add_targets lib cfg tr i rs seen pool) = sp_current pool"
  by (induction lib cfg tr i rs seen pool rule: add_targets.induct)
    (auto simp: AddBackend_def split: sum.split)

lemma route_pool_fresh: "list_all (fresh_backend cfg (route_transport tc)) (sp_backends (route_pool lib cfg algo tc))"
  unfolding route_pool_def by (rule add_targets_fresh) (simp add: NewServicePool_def)

lemma route_pool_urls:
  "map (\<lambda>b. ul_String lib (be_URL b)) (sp_backends (route_pool lib cfg algo tc)) =
     keep_first {} (valid_upstreams lib (raw_targets cfg))"
  by (simp add: route_pool_def add_targets_urls NewServicePool_def)

lemma usable_iff: "usable lib algo tc cfg \<longleftrightarrow> valid_upstreams lib (raw_targets cfg) \<noteq> []"
proof -
  have "sp_backends (route_pool lib cfg algo tc) \<noteq> [] \<longleftrightarrow>
      keep_first {} (valid_upstreams lib (raw_targets cfg)) \<noteq> []"
    by (metis list.map_disc_iff route_pool_urls)
  also have "\<dots> \<longleftrightarrow> valid_upstreams lib (raw_targets cfg) \<noteq> []"
    by (metis Diff_empty set_empty set_keep_first)
  finally show ?thesis by (simp add: usable_def)
qed

lemma route_timeout_positive: "0 < sint (route_timeout cfg)"
  by (auto simp: route_timeout_def Let_def hour_def)

section \<open>Paths\<close>

lemma SplitByte_append_sep: "SplitByte (p @ sep # r) sep = SplitByte p sep @ SplitByte r sep"
proof (induction p)
  case (Cons c p)
  then show ?case by (cases "SplitByte p sep") (auto dest: arg_cong [where f = "\<lambda>x. x = []"])
qed simp

lemma pathMatches_segments:
  assumes "pfx \<noteq> []" and "\<not> HasSuffix pfx ''/''"
  shows "pathMatches pfx path \<longleftrightarrow>
    Sublist.prefix (SplitByte pfx CHR ''/'') (SplitByte path CHR ''/'')"
proof
  assume m: "pathMatches pfx path"
  have "pfx \<noteq> ''/''" using assms(2) by (auto simp: HasSuffix_def)
  with m assms obtain r where r: "path = pfx @ r" and sep: "r = [] \<or> hd r = CHR ''/''"
    by (auto simp: pathMatches_def HasPrefix_iff nth_append hd_conv_nth split: if_splits)
  then show "Sublist.prefix (SplitByte pfx CHR ''/'') (SplitByte path CHR ''/'')"
    by (cases r) (auto simp: SplitByte_append_sep)
next
  assume "Sublist.prefix (SplitByte pfx CHR ''/'') (SplitByte path CHR ''/'')"
  then obtain rest where eq: "SplitByte path CHR ''/'' = SplitByte pfx CHR ''/'' @ rest"
    by (auto simp: prefix_def)
  have join: "Join (xs @ ys) sep = (if ys = [] then Join xs sep else Join xs sep @ sep @ Join ys sep)"
    if "xs \<noteq> []" for xs ys sep
    using that
  proof (induction xs)
    case (Cons x xs)
    then show ?case by (cases xs) (auto simp: Join_Cons)
  qed simp
  have "path = Join (SplitByte pfx CHR ''/'' @ rest) ''/''" by (metis eq Join_SplitByte)
  then have "path = pfx \<or> (\<exists>r. path = pfx @ CHR ''/'' # r)"
    using join [of "SplitByte pfx CHR ''/''" rest "''/''"] by (auto simp: Join_SplitByte split: if_splits)
  then show "pathMatches pfx path" by (auto simp: pathMatches_def HasPrefix_iff)
qed

section \<open>Hosts\<close>

text \<open>Strings without the bytes that are special in a Host header.\<close>

definition host_chars :: "string \<Rightarrow> bool" where
  "host_chars h \<longleftrightarrow> (\<forall>c \<in> set h. \<not> isSpace c \<and> c \<notin> {CHR '':'', CHR ''['', CHR '']''})"

lemma host_chars_append [simp]: "host_chars (a @ b) \<longleftrightarrow> host_chars a \<and> host_chars b"
  by (auto simp: host_chars_def)

lemma host_chars_dot [simp]: "host_chars ''.''"
  by (simp add: host_chars_def isSpace_def)

lemma TrimSpace_none: "\<forall>c \<in> set h. \<not> isSpace c \<Longrightarrow> TrimSpace h = h"
  by (simp add: TrimSpace_def TrimFunc_none)

lemma Trim_brackets: "host_chars h \<Longrightarrow> Trim (ToLower h) ''[]'' = ToLower h"
  unfolding Trim_def using ToLower_punctuation [of h]
  by (intro TrimFunc_none) (auto simp: host_chars_def)

definition strip_dot :: "string \<Rightarrow> string" where
  "strip_dot h = (if 1 < length h then TrimSuffix h ''.'' else h)"

lemma strip_dot_plain: "h \<noteq> [] \<Longrightarrow> last h \<noteq> CHR ''.'' \<Longrightarrow> strip_dot h = h"
  by (simp add: strip_dot_def TrimSuffix_single)

lemma strip_dot_dotted: "h \<noteq> [] \<Longrightarrow> strip_dot (h @ ''.'') = h"
  by (simp add: strip_dot_def TrimSuffix_single)

lemma normalizeHost_name:
  assumes "host_chars h" shows "normalizeHost h = strip_dot (ToLower h)"
proof (cases "h = []")
  case False
  have "SplitHostPort (ToLower h) = None"
    using assms by (intro SplitHostPort_no_colon) (auto simp: ToLower_punctuation host_chars_def)
  moreover have "TrimSpace h = h" using assms by (intro TrimSpace_none) (simp add: host_chars_def)
  ultimately show ?thesis
    using False assms by (simp add: normalizeHost_def Trim_brackets strip_dot_def)
qed (simp add: normalizeHost_def strip_dot_def TrimSpace_none)

lemma normalizeHost_port:
  assumes "host_chars h" and "host_chars p"
  shows "normalizeHost (h @ '':'' @ p) = strip_dot (ToLower h)"
proof -
  have "SplitHostPort (ToLower h @ CHR '':'' # ToLower p) = Some (ToLower h, ToLower p)"
    using assms by (intro SplitHostPort_plain) (auto simp: ToLower_punctuation host_chars_def)
  moreover have "ToLower (h @ '':'' @ p) = ToLower h @ CHR '':'' # ToLower p"
    by (simp add: ToLower_def lowerChar_def)
  moreover have "TrimSpace (h @ '':'' @ p) = h @ '':'' @ p"
    using assms by (intro TrimSpace_none) (auto simp: host_chars_def isSpace_def)
  ultimately show ?thesis
    using assms by (simp add: normalizeHost_def Trim_brackets strip_dot_def)
qed

text \<open>A bracketed IPv6 literal, with and without a port.\<close>

lemma normalizeHost_bracketed:
  assumes "host_chars p" and "\<forall>c \<in> set a. \<not> isSpace c \<and> c \<notin> {CHR ''['', CHR '']''}"
  shows "normalizeHost (''['' @ a @ '']:'' @ p) = strip_dot (ToLower a)"
    and "normalizeHost (''['' @ a @ '']'') = strip_dot (ToLower a)"
proof -
  have a: "CHR ''['' \<notin> set (ToLower a)" "CHR '']'' \<notin> set (ToLower a)"
    using assms(2) by (auto simp: ToLower_punctuation)
  have t: "Trim (ToLower a) ''[]'' = ToLower a"
    unfolding Trim_def using a by (intro TrimFunc_none) auto
  have "SplitHostPort (CHR ''['' # ToLower a @ CHR '']'' # CHR '':'' # ToLower p) = Some (ToLower a, ToLower p)"
    using assms(1) a by (intro SplitHostPort_bracketed) (auto simp: ToLower_punctuation host_chars_def)
  moreover have "TrimSpace (''['' @ a @ '']:'' @ p) = ''['' @ a @ '']:'' @ p"
    using assms by (intro TrimSpace_none) (auto simp: host_chars_def isSpace_def)
  moreover have "ToLower (''['' @ a @ '']:'' @ p) = CHR ''['' # ToLower a @ CHR '']'' # CHR '':'' # ToLower p"
    by (simp add: ToLower_def lowerChar_def)
  ultimately show "normalizeHost (''['' @ a @ '']:'' @ p) = strip_dot (ToLower a)"
    by (simp add: normalizeHost_def t strip_dot_def)
  have "TrimSpace (''['' @ a @ '']'') = ''['' @ a @ '']''"
    using assms by (intro TrimSpace_none) (auto simp: host_chars_def isSpace_def)
  moreover have "ToLower (''['' @ a @ '']'') = CHR ''['' # ToLower a @ '']''"
    by (simp add: ToLower_def lowerChar_def)
  moreover have "Trim (CHR ''['' # ToLower a @ '']'') ''[]'' = ToLower a"
    using t a by (cases "ToLower a") (auto simp: Trim_def TrimFunc_def)
  ultimately show "normalizeHost (''['' @ a @ '']'') = strip_dot (ToLower a)"
    using SplitHostPort_bracketed_only [OF a(2)] by (simp add: normalizeHost_def strip_dot_def)
qed

section \<open>Health checks over the table\<close>

lemma fold_check_pool:
  assumes "distinct (map re_Pool es)" and "\<forall>e \<in> set es. re_Pool e < length pools"
  shows "foldl (check_pool net) pools es =
    map (\<lambda>i. if i \<in> re_Pool ` set es then HealthCheck net (pools ! i) else pools ! i) [0..<length pools]"
  using assms
proof (induction es arbitrary: pools)
  case (Cons e es)
  let ?p = "check_pool net pools e"
  have len: "length ?p = length pools" by (simp add: check_pool_def)
  then have "foldl (check_pool net) ?p es =
      map (\<lambda>i. if i \<in> re_Pool ` set es then HealthCheck net (?p ! i) else ?p ! i) [0..<length pools]"
    using Cons.IH [of ?p] Cons.prems by simp
  moreover have "?p ! i = (if i = re_Pool e then HealthCheck net (pools ! i) else pools ! i)"
    if "i < length pools" for i
    using that by (simp add: check_pool_def nth_list_update)
  ultimately show ?case using Cons.prems(1) by (auto intro!: map_cong)
qed (simp add: map_nth)

lemma HealthCheckAll_built:
  "HealthCheckAll net (build_router lib algo tc cfgs) =
     (build_router lib algo tc cfgs)
       \<lparr>sr_pools := map (HealthCheck net) (sr_pools (build_router lib algo tc cfgs))\<rparr>"
proof -
  let ?reg = "registered lib algo tc cfgs" and ?us = "filter (usable lib algo tc) cfgs"
  let ?srt = "SliceStable more_specific ?reg"
  have "mset (map re_Pool ?srt) = mset [0..<length ?us]"
    by (metis mset_SliceStable mset_map registered_pools)
  then have d: "distinct (map re_Pool ?srt)" and st: "re_Pool ` set ?srt = {0..<length ?us}"
    by (metis distinct_upt mset_eq_imp_distinct_iff, metis atLeastLessThan_upt image_set mset_eq_setD)
  then have "\<forall>e \<in> set ?srt. re_Pool e < length ?us" by fastforce
  with fold_check_pool [OF d, of "map (\<lambda>cfg. route_pool lib cfg algo tc) ?us" net] st
  show ?thesis
    by (auto simp: HealthCheckAll_def build_router_sorted intro: nth_equalityI)
qed

text \<open>A small URL library and routing table for the witnesses.\<close>

definition example_urls :: url_lib where
  "example_urls = \<lparr>
     ul_Parse = (\<lambda>raw. case CutPrefix raw ''http://'' of
         None \<Rightarrow> Inl ''unsupported''
       | Some r \<Rightarrow> Inr \<lparr>url_Scheme = ''http'', url_Host = takeWhile (\<lambda>c. c \<noteq> CHR ''/'') r,
           url_Path = dropWhile (\<lambda>c. c \<noteq> CHR ''/'') r, url_RawQuery = [], url_Rest = []\<rparr>),
     ul_String = (\<lambda>u. url_Scheme u @ ''://'' @ url_Host u @ url_Path u)\<rparr>"

definition example_config :: Config where
  "example_config = LoadConfig \<lparr>dec_Duration = (\<lambda>_. None), dec_Routes = (\<lambda>_. None),
     dec_Strings = (\<lambda>_. None)\<rparr> []"

definition example_route :: "string \<Rightarrow> string \<Rightarrow> string \<Rightarrow> ServiceRoute" where
  "example_route host pfx target =
     zero_route\<lparr>ro_Host := host, ro_Prefix := pfx, ro_TargetURL := target, ro_StripPrefix := True\<rparr>"

definition example_router :: ServiceRouter where
  "example_router = build_router example_urls ''round-robin'' example_config
     [example_route [] ''/'' ''a:1'', example_route ''*.ex.com'' ''/'' ''b:1'',
      example_route ''*.ex.com'' ''/v1'' ''c:1'']"

lemma example_router_routes:
  "Route example_router ''api.ex.com'' ''/v1/x'' =
     Some \<lparr>mr_Name = [], mr_Pool = 2, mr_BackendPath = ''/x'', mr_RequireAuth = False, mr_Timeout = hour\<rparr>"
  by code_simp

section \<open>Properties\<close>

text \<open>
  C1: lookup is most-specific-first. In every router built from a list of routes, a lookup
  fails exactly when no registered route covers the host and path; otherwise it returns a
  covering route whose rank (host class, then length of the host pattern, then length of the
  prefix) is the highest of all routes that cover the request.
\<close>

theorem route_most_specific:
  "let sr = build_router lib algo tc cfgs; h = normalizeHost host in
     (Route sr host path = None \<longleftrightarrow> (\<forall>e. e \<in> set (Routes sr) \<longrightarrow> \<not> covers h path e)) \<and>
     (\<forall>m. Route sr host path = Some m \<longrightarrow>
       (\<exists>e. e \<in> set (Routes sr) \<and> covers h path e \<and> m = matched path e \<and>
         (\<forall>e'. e' \<in> set (Routes sr) \<and> covers h path e' \<longrightarrow> rank e' \<le> rank e)))"
proof -
  let ?es = "SliceStable more_specific (registered lib algo tc cfgs)"
  let ?P = "covers (normalizeHost host) path"
  have best: "rank e' \<le> rank e" if "List.find ?P ?es = Some e" "e' \<in> set ?es" "?P e'" for e e'
    using find_sorted_first [OF specificity.sorted_SliceStable that]
    by (auto simp: more_specific_rank)
  have "List.find ?P ?es = None \<longleftrightarrow> (\<forall>e. e \<in> set ?es \<longrightarrow> \<not> ?P e)"
    by (auto simp: find_None_iff)
  moreover have "\<exists>e. e \<in> set ?es \<and> ?P e \<and> m = matched path e \<and>
      (\<forall>e'. e' \<in> set ?es \<and> ?P e' \<longrightarrow> rank e' \<le> rank e)"
    if "map_option (matched path) (List.find ?P ?es) = Some m" for m
    using that best find_SomeD [of ?P ?es] by (auto simp del: set_SliceStable)
  ultimately show ?thesis
    by (simp add: Let_def Route_def Routes_def build_router_sorted Route_loop_find del: set_SliceStable)
qed

theorem route_most_specific_witness:
  "\<exists>e. e \<in> set (Routes example_router) \<and> Route example_router ''api.ex.com'' ''/v1/x'' = Some (matched ''/v1/x'' e)"
  using route_most_specific [of example_urls "''round-robin''" example_config
      "[example_route [] ''/'' ''a:1'', example_route ''*.ex.com'' ''/'' ''b:1'',
        example_route ''*.ex.com'' ''/v1'' ''c:1'']" "''api.ex.com''" "''/v1/x''"]
  unfolding Let_def example_router_def [symmetric] example_router_routes by blast

text \<open>
  C8: the sorted table implements the plain registration list. Looking up a built router is
  searching the usable routes in the order of their registration for the first one that no
  other covering route exceeds in specificity; ties go to the route registered first.
\<close>

theorem route_refines_registration:
  "Route (build_router lib algo tc cfgs) host path =
     map_option (matched path)
       (first_best more_specific (covers (normalizeHost host) path) (registered lib algo tc cfgs))"
  by (simp add: Route_def build_router_sorted Route_loop_find specificity.find_SliceStable)

text \<open>
  C24: what a lookup returns can be served. The pool of a matched route exists and is not
  empty, all its backends start alive, idle and with a positive weight, with an http or https
  upstream that has a host, and no upstream is listed twice; the timeout is positive.
\<close>

theorem matched_route_serviceable:
  assumes "Route (build_router lib algo tc cfgs) host path = Some m"
  shows "mr_Pool m < length (sr_pools (build_router lib algo tc cfgs)) \<and> go_lt 0 (mr_Timeout m) \<and>
    (let bs = sp_backends (sr_pools (build_router lib algo tc cfgs) ! mr_Pool m) in
      bs \<noteq> [] \<and> distinct (map (\<lambda>b. ul_String lib (be_URL b)) bs) \<and>
      list_all (\<lambda>b. IsAlive b \<and> 0 < sint (be_Weight b) \<and> GetConnections b = 0 \<and>
        url_Host (be_URL b) \<noteq> [] \<and> url_Scheme (be_URL b) \<in> {''http'', ''https''}) bs)"
proof -
  let ?us = "filter (usable lib algo tc) cfgs"
  from assms obtain e where e: "e \<in> set (registered lib algo tc cfgs)" and m: "m = matched path e"
    using find_SomeD by (fastforce simp: Route_def build_router_sorted Route_loop_find)
  from in_registered [OF e] obtain cfg where cfg: "usable lib algo tc cfg" "e = new_entry cfg (re_Pool e)"
    "re_Pool e < length ?us" "?us ! re_Pool e = cfg" by metis
  have t: "mr_Timeout m = route_timeout cfg" using m cfg(2) by (simp add: matched_def) (metis new_entry_def RouteEntry.select_convs(7))
  have p: "mr_Pool m = re_Pool e" using m by (simp add: matched_def)
  have pool: "sr_pools (build_router lib algo tc cfgs) ! re_Pool e = route_pool lib cfg algo tc"
    using cfg by (simp add: build_router_sorted)
  have dist: "distinct (map (\<lambda>b. ul_String lib (be_URL b)) (sp_backends (route_pool lib cfg algo tc)))"
    by (simp add: route_pool_urls distinct_keep_first)
  from route_pool_fresh [of cfg tc lib algo] dist cfg t p pool route_timeout_positive [of cfg] show ?thesis
    by (auto simp: build_router_sorted Let_def usable_def list_all_iff fresh_backend_def)
qed

theorem matched_route_serviceable_witness:
  "sp_backends (sr_pools example_router ! 2) \<noteq> []"
  using matched_route_serviceable [OF example_router_routes [unfolded example_router_def]]
  by (simp add: example_router_def Let_def)

text \<open>
  C27: prefixes match whole path segments. A prefix that does not end in a slash covers a path
  exactly when its slash-separated segments are the first segments of the path.
\<close>

theorem path_matches_segments:
  assumes "pfx \<noteq> []" and "\<not> HasSuffix pfx ''/''"
  shows "pathMatches pfx path \<longleftrightarrow>
    Sublist.prefix (SplitByte pfx CHR ''/'') (SplitByte path CHR ''/'')"
  using assms by (rule pathMatches_segments)

theorem path_matches_segments_witness:
  "pathMatches ''/api/v1'' ''/api/v1/x'' \<longleftrightarrow>
    Sublist.prefix (SplitByte ''/api/v1'' CHR ''/'') (SplitByte ''/api/v1/x'' CHR ''/'')"
  by (rule path_matches_segments) (simp_all add: HasSuffix_def)

text \<open>
  C28: the spelling of the host does not matter. Letter case, an explicit port and a trailing
  dot of a host name, and the port of a bracketed IPv6 literal, do not change the route.
\<close>

theorem host_spelling_irrelevant:
  assumes "host_chars h" and "h \<noteq> []" and "last h \<noteq> CHR ''.''" and "ToLower g = ToLower h"
    and "host_chars g" and "host_chars p"
    and "\<forall>c \<in> set a. \<not> isSpace c \<and> c \<notin> {CHR ''['', CHR '']''}"
  shows "Route sr g path = Route sr h path \<and> Route sr (g @ '':'' @ p) path = Route sr h path \<and>
    Route sr (g @ ''.'') path = Route sr h path \<and>
    Route sr ((g @ ''.'') @ '':'' @ p) path = Route sr h path \<and>
    Route sr (''['' @ a @ '']:'' @ p) path = Route sr (''['' @ a @ '']'') path"
proof -
  have plain: "strip_dot (ToLower h) = ToLower h"
    using assms(2,3) by (intro strip_dot_plain) (auto simp: last_ToLower lowerChar_punctuation)
  have dotted: "strip_dot (ToLower (g @ ''.'')) = ToLower h"
    using assms(2,4) strip_dot_dotted [of "ToLower h"] by (simp add: ToLower_append) (simp add: ToLower_def lowerChar_def)
  note n = normalizeHost_name normalizeHost_port
  have "normalizeHost g = normalizeHost h" "normalizeHost (g @ '':'' @ p) = normalizeHost h"
    using assms(1,4-6) by (simp_all only: n)
  moreover have "normalizeHost (g @ ''.'') = normalizeHost h"
    "normalizeHost ((g @ ''.'') @ '':'' @ p) = normalizeHost h"
    using assms(1,5,6) plain dotted by (simp_all only: n host_chars_append host_chars_dot simp_thms)
  ultimately show ?thesis
    using normalizeHost_bracketed [OF assms(6,7)] by (simp only: Route_def simp_thms)
qed

theorem host_spelling_irrelevant_witness:
  "Route example_router ''API.Example.COM.:8443'' ''/'' = Route example_router ''api.example.com'' ''/''"
proof -
  have "ToLower ''API.Example.COM'' = ToLower ''api.example.com''" by code_simp
  then show ?thesis
    using host_spelling_irrelevant [of "''api.example.com''" "''API.Example.COM''" "''8443''" "''::1''"
        example_router "''/''"]
    by (simp add: host_chars_def isSpace_def)
qed

text \<open>
  A wildcard covers the subdomains of its domain at any depth and not the domain itself.
  For a lower-case domain \<open>d\<close>, a route with host \<open>*.d\<close> covers a host other than the
  pattern itself exactly when the host is a non-empty name followed by \<open>.d\<close>.
\<close>

theorem wildcard_covers_subdomains:
  assumes "normalizeHost (''*.'' @ d) = ''*.'' @ d" and "h \<noteq> ''*.'' @ d"
  shows "hostMatches (''*.'' @ d) h \<longleftrightarrow> (\<exists>l. l \<noteq> [] \<and> h = l @ ''.'' @ d)"
proof -
  have "hostMatches (''*.'' @ d) h \<longleftrightarrow> length (CHR ''.'' # d) < length h \<and> HasSuffix h (CHR ''.'' # d)"
    using assms by (simp add: hostMatches_def CutPrefix_def HasPrefix_def)
  also have "\<dots> \<longleftrightarrow> (\<exists>l. l \<noteq> [] \<and> h = l @ ''.'' @ d)" by (auto simp: HasSuffix_iff)
  finally show ?thesis .
qed

theorem wildcard_covers_subdomains_witness:
  "hostMatches ''*.ex.com'' ''a.b.ex.com''"
proof -
  have "normalizeHost (''*.'' @ ''ex.com'') = ''*.'' @ ''ex.com''" by code_simp
  from wildcard_covers_subdomains [OF this, of "''a.b.ex.com''"] show ?thesis
    by (auto intro: exI [of _ "''a.b''"])
qed

text \<open>
  Stripping keeps the rest of the path. When a route with a prefix other than \<open>/\<close> that
  does not end in a slash strips it, the backend path begins with a slash, and it is the
  request path with the prefix removed, or \<open>/\<close> when the request path is the prefix.
\<close>

theorem stripped_path_is_rest:
  assumes "pathMatches (re_Prefix e) path" and "re_StripPrefix e"
    and "re_Prefix e \<noteq> []" and "\<not> HasSuffix (re_Prefix e) ''/''"
  shows "HasPrefix (backend_path e path) ''/'' \<and>
    (if path = re_Prefix e then backend_path e path = ''/''
     else re_Prefix e @ backend_path e path = path)"
proof -
  have ne: "re_Prefix e \<noteq> ''/''" using assms(4) by (auto simp: HasSuffix_def)
  with assms obtain r where r: "path = re_Prefix e @ r" and sep: "r = [] \<or> hd r = CHR ''/''"
    by (auto simp: pathMatches_def HasPrefix_iff nth_append hd_conv_nth split: if_splits)
  then show ?thesis
    using assms(2) ne TrimPrefix_append [of "re_Prefix e" r]
    by (cases r) (auto simp: backend_path_def Let_def HasPrefix_def simp del: TrimPrefix_append)
qed

theorem stripped_path_is_rest_witness:
  "backend_path (new_entry (example_route [] ''/v1'' ''c:1'') 0) ''/v1/x'' = ''/x''"
  using stripped_path_is_rest [of "new_entry (example_route [] ''/v1'' ''c:1'') 0" "''/v1/x''"]
  by (simp add: new_entry_def example_route_def zero_route_def pathMatches_def HasPrefix_def
      HasSuffix_def)

text \<open>
  A health round visits every pool once. On a built router \<open>HealthCheckAll\<close> leaves the
  table alone and applies the health check to each pool, so that every backend is alive
  exactly when its probe succeeds and keeps its connection count.
\<close>

theorem health_round_probes_all:
  "let sr = build_router lib algo tc cfgs; sr' = HealthCheckAll net sr in
     Routes sr' = Routes sr \<and>
     map (\<lambda>s. map IsAlive (sp_backends s)) (sr_pools sr') =
       map (\<lambda>s. map (probe net) (sp_backends s)) (sr_pools sr) \<and>
     map (\<lambda>s. map GetConnections (sp_backends s)) (sr_pools sr') =
       map (\<lambda>s. map GetConnections (sp_backends s)) (sr_pools sr)"
  by (simp add: HealthCheckAll_built Routes_def HealthCheck_def check_backend_def backend_defs
      Let_def comp_def)

text \<open>
  The upstream can reconstruct the public URL. If the library's director leaves the
  headers alone, the outgoing request carries the client's host in \<open>X-Forwarded-Host\<close>
  (unless the client sent one), the client's scheme in \<open>X-Forwarded-Proto\<close> (unless the
  client sent one), and as Host the client's when the route preserves it and the target's
  otherwise.
\<close>

theorem director_forwards_origin:
  assumes "\<forall>u r. req_Header (inner u r) = req_Header r" and "req_Host req \<noteq> []"
  shows "let out = proxy_Director inner (newBackendProxy u tr keep) req; h = req_Header req in
    Header_Get (req_Header out) ''X-Forwarded-Host'' =
      (if Header_Get h ''X-Forwarded-Host'' = [] then req_Host req else Header_Get h ''X-Forwarded-Host'') \<and>
    Header_Get (req_Header out) ''X-Forwarded-Proto'' =
      (if Header_Get h ''X-Forwarded-Proto'' = [] then (if req_TLS req then ''https'' else ''http'')
       else Header_Get h ''X-Forwarded-Proto'') \<and>
    req_Host out = (if keep then req_Host req else url_Host u)"
proof -
  have "ToLower ''X-Forwarded-Host'' \<noteq> ToLower ''X-Forwarded-Proto''"
    by (simp add: ToLower_def lowerChar_def)
  with assms show ?thesis by (simp add: proxy_Director_def newBackendProxy_def Let_def)
qed

theorem director_forwards_origin_witness:
  "Header_Get (req_Header (proxy_Director (\<lambda>u r. r\<lparr>req_Path := url_Path u @ req_Path r\<rparr>)
      (newBackendProxy \<lparr>url_Scheme = ''http'', url_Host = ''b:1'', url_Path = [], url_RawQuery = [], url_Rest = []\<rparr>
        (route_transport example_config) False)
      \<lparr>req_Method = ''GET'', req_Host = ''ex.com'', req_Path = ''/'', req_RawPath = [],
       req_Query = Map.empty, req_Header = Map.empty, req_RemoteAddr = ''1.2.3.4:5'', req_TLS = True\<rparr>))
     ''X-Forwarded-Host'' = ''ex.com''"
  using director_forwards_origin [of "\<lambda>u r. r\<lparr>req_Path := url_Path u @ req_Path r\<rparr>"
      "\<lparr>req_Method = ''GET'', req_Host = ''ex.com'', req_Path = ''/'', req_RawPath = [],
        req_Query = Map.empty, req_Header = Map.empty, req_RemoteAddr = ''1.2.3.4:5'', req_TLS = True\<rparr>"
      "\<lparr>url_Scheme = ''http'', url_Host = ''b:1'', url_Path = [], url_RawQuery = [], url_Rest = []\<rparr>"
      "route_transport example_config" False]
  by (simp add: Header_Get_def [of Map.empty] Let_def)

text \<open>
  Between wildcard routes the longer host pattern wins before the longer prefix. Of two
  usable wildcard routes that both cover a request, the one with the longer host pattern is
  taken, however long the other one's prefix is and though that one was registered first.
\<close>

theorem wildcard_host_length_first:
  assumes "usable lib algo tc ca" and "usable lib algo tc cb"
    and "hostSpecificity (normalizeHost (ro_Host ca)) = hostWildcard"
    and "hostSpecificity (normalizeHost (ro_Host cb)) = hostWildcard"
    and "length (normalizeHost (ro_Host cb)) < length (normalizeHost (ro_Host ca))"
    and "covers (normalizeHost host) path (new_entry ca 1)"
    and "covers (normalizeHost host) path (new_entry cb 0)"
  shows "Route (build_router lib algo tc [cb, ca]) host path = Some (matched path (new_entry ca 1))"
proof -
  have "more_specific (new_entry ca 1) (new_entry cb 0)"
    using assms(3-5) by (simp add: more_specific_def new_entry_def)
  moreover have "registered lib algo tc [cb, ca] = [new_entry cb 0, new_entry ca 1]"
    using assms(1,2) by (simp add: registered_def)
  ultimately show ?thesis
    using assms(6,7)
    by (simp add: Route_def build_router_sorted Route_loop_find specificity.find_SliceStable)
qed

theorem wildcard_host_length_first_witness:
  "Route (build_router example_urls ''round-robin'' example_config
      [example_route ''*.ex.com'' ''/api/v1'' ''a:1'', example_route ''*.b.ex.com'' ''/'' ''b:1''])
     ''x.b.ex.com'' ''/api/v1/y'' =
   Some (matched ''/api/v1/y'' (new_entry (example_route ''*.b.ex.com'' ''/'' ''b:1'') 1))"
  by (rule wildcard_host_length_first; code_simp)

end
