(* ===== verification/Edge_Protection.thy ===== *)
theory Edge_Protection
  imports Prelude
begin

text \<open>
  \<open>middleware.go\<close>, the guards at the edge: the per-IP rate limiter and the DDoS counters,
  block list, whitelist and blacklist, with the clean-up passes of their background
  goroutines.
\<close>

section \<open>DDoS protection\<close>

record RequestCounter =
  rc_Count :: goint
  rc_FirstSeen :: instant

record DDoSProtection =
  dd_requests :: "string \<rightharpoonup> RequestCounter"
  dd_blocked :: "string \<rightharpoonup> instant"
  dd_threshold :: goint
  dd_duration :: duration
  dd_whitelist :: "string set"
  dd_blacklist :: "string set"

definition NewDDoSProtection :: "goint \<Rightarrow> duration \<Rightarrow> DDoSProtection" where
  "NewDDoSProtection threshold dur =
     \<lparr>dd_requests = Map.empty, dd_blocked = Map.empty, dd_threshold = threshold,
      dd_duration = dur, dd_whitelist = {}, dd_blacklist = {}\<rparr>"

definition AddToWhitelist :: "string \<Rightarrow> DDoSProtection \<Rightarrow> DDoSProtection" where
  "AddToWhitelist ip d = d\<lparr>dd_whitelist := insert ip (dd_whitelist d)\<rparr>"

definition AddToBlacklist :: "string \<Rightarrow> DDoSProtection \<Rightarrow> DDoSProtection" where
  "AddToBlacklist ip d = d\<lparr>dd_blacklist := insert ip (dd_blacklist d)\<rparr>"

definition IsBlocked :: "instant \<Rightarrow> DDoSProtection \<Rightarrow> string \<Rightarrow> DDoSProtection \<times> bool" where
  "IsBlocked now d ip =
     (if ip \<in> dd_whitelist d then (d, False)
      else if ip \<in> dd_blacklist d then (d, True)
      else (case dd_blocked d ip of
          None \<Rightarrow> (d, False)
        | Some blockTime \<Rightarrow>
            if now < blockTime then (d, True)
            else (d\<lparr>dd_blocked := (dd_blocked d)(ip := None)\<rparr>, False)))"

text \<open>
  The answer is true exactly when the IP was put on the block list by this call, which is
  also when the two block counters (Prometheus and dashboard) are incremented.
\<close>

definition RecordRequest :: "instant \<Rightarrow> DDoSProtection \<Rightarrow> string \<Rightarrow> DDoSProtection \<times> bool" where
  "RecordRequest now d ip =
     (if ip \<in> dd_whitelist d then (d, False)
      else (case dd_requests d ip of
          None \<Rightarrow>
            (d\<lparr>dd_requests := (dd_requests d)(ip \<mapsto> \<lparr>rc_Count = 1, rc_FirstSeen = now\<rparr>)\<rparr>, False)
        | Some counter \<Rightarrow>
            if go_lt minute (time_Sub now (rc_FirstSeen counter)) then
              (d\<lparr>dd_requests := (dd_requests d)(ip \<mapsto> \<lparr>rc_Count = 1, rc_FirstSeen = now\<rparr>)\<rparr>, False)
            else
              let c = counter\<lparr>rc_Count := rc_Count counter + 1\<rparr>;
                  d1 = d\<lparr>dd_requests := (dd_requests d)(ip \<mapsto> c)\<rparr>
              in if go_lt (dd_threshold d) (rc_Count c)
                 then (d1\<lparr>dd_blocked := (dd_blocked d1)(ip \<mapsto> time_Add now (dd_duration d))\<rparr>, True)
                 else (d1, False)))"

definition ddos_cleanup :: "instant \<Rightarrow> DDoSProtection \<Rightarrow> DDoSProtection" where
  "ddos_cleanup now d = d\<lparr>
     dd_requests := (\<lambda>ip. case dd_requests d ip of
         None \<Rightarrow> None
       | Some c \<Rightarrow> if go_lt minute (time_Sub now (rc_FirstSeen c)) then None else Some c),
     dd_blocked := (\<lambda>ip. case dd_blocked d ip of
         None \<Rightarrow> None
       | Some blockTime \<Rightarrow> if blockTime < now then None else Some blockTime)\<rparr>"

lemmas ddos_defs = NewDDoSProtection_def AddToWhitelist_def AddToBlacklist_def IsBlocked_def
  RecordRequest_def ddos_cleanup_def

lemma minute_passed [simp]: "60000000000 < sint (time_Sub now t) \<longleftrightarrow> t + 60000000000 < now"
  using time_Sub_gt_iff [of minute now t] by auto

section \<open>The clean-up pass is invisible\<close>

datatype ddos_op = OpIsBlocked string | OpRecord string | OpWhitelist string | OpBlacklist string

fun ddos_step :: "instant \<Rightarrow> DDoSProtection \<Rightarrow> ddos_op \<Rightarrow> DDoSProtection \<times> bool" where
  "ddos_step now d (OpIsBlocked ip) = IsBlocked now d ip"
| "ddos_step now d (OpRecord ip) = RecordRequest now d ip"
| "ddos_step now d (OpWhitelist ip) = (AddToWhitelist ip d, False)"
| "ddos_step now d (OpBlacklist ip) = (AddToBlacklist ip d, False)"

text \<open>
  The first state may lack entries of the second one: counters whose minute is over and
  blocks that have ended.
\<close>

definition cleaner :: "instant \<Rightarrow> DDoSProtection \<Rightarrow> DDoSProtection \<Rightarrow> bool" where
  "cleaner t d d' \<longleftrightarrow>
     dd_threshold d' = dd_threshold d \<and> dd_duration d' = dd_duration d \<and>
     dd_whitelist d' = dd_whitelist d \<and> dd_blacklist d' = dd_blacklist d \<and>
     (\<forall>ip. dd_requests d ip = dd_requests d' ip \<or>
        dd_requests d ip = None \<and>
        (\<exists>c. dd_requests d' ip = Some c \<and> rc_FirstSeen c + 60000000000 < t)) \<and>
     (\<forall>ip. dd_blocked d ip = dd_blocked d' ip \<or>
        dd_blocked d ip = None \<and> (\<exists>b. dd_blocked d' ip = Some b \<and> b \<le> t))"

lemma cleaner_fields:
  assumes "cleaner t d d'"
  shows "dd_threshold d' = dd_threshold d" "dd_duration d' = dd_duration d"
    "dd_whitelist d' = dd_whitelist d" "dd_blacklist d' = dd_blacklist d"
  using assms by (simp_all add: cleaner_def)

lemma cleaner_counter:
  assumes "cleaner t d d'"
  obtains (same) "dd_requests d ip = dd_requests d' ip"
  | (stale) c where "dd_requests d ip = None" "dd_requests d' ip = Some c"
      "rc_FirstSeen c + 60000000000 < t"
  using assms unfolding cleaner_def by blast

lemma cleaner_block:
  assumes "cleaner t d d'"
  obtains (same) "dd_blocked d ip = dd_blocked d' ip"
  | (ended) b where "dd_blocked d ip = None" "dd_blocked d' ip = Some b" "b \<le> t"
  using assms unfolding cleaner_def by blast

lemma cleaner_later: "cleaner t d d' \<Longrightarrow> t \<le> t' \<Longrightarrow> cleaner t' d d'"
  unfolding cleaner_def by fastforce

lemma cleaner_cleanup:
  assumes "cleaner t d d'"
  shows "cleaner t (ddos_cleanup t d) d'"
proof -
  have "dd_requests (ddos_cleanup t d) ip = dd_requests d' ip \<or>
      dd_requests (ddos_cleanup t d) ip = None \<and>
      (\<exists>c. dd_requests d' ip = Some c \<and> rc_FirstSeen c + 60000000000 < t)" for ip
    using assms by (cases rule: cleaner_counter [of t d d' ip])
      (auto simp: ddos_cleanup_def split: option.split)
  moreover have "dd_blocked (ddos_cleanup t d) ip = dd_blocked d' ip \<or>
      dd_blocked (ddos_cleanup t d) ip = None \<and> (\<exists>b. dd_blocked d' ip = Some b \<and> b \<le> t)" for ip
    using assms by (cases rule: cleaner_block [of t d d' ip])
      (auto simp: ddos_cleanup_def split: option.split)
  ultimately show ?thesis
    unfolding cleaner_def by (simp add: cleaner_fields [OF assms] ddos_cleanup_def)
qed

lemma cleaner_put_request:
  "cleaner t d d' \<Longrightarrow> cleaner t (d\<lparr>dd_requests := (dd_requests d)(ip := c)\<rparr>)
     (d'\<lparr>dd_requests := (dd_requests d')(ip := c)\<rparr>)"
  by (auto simp: cleaner_def)

lemma cleaner_put_block:
  "cleaner t d d' \<Longrightarrow> cleaner t (d\<lparr>dd_blocked := (dd_blocked d)(ip := b)\<rparr>)
     (d'\<lparr>dd_blocked := (dd_blocked d')(ip := b)\<rparr>)"
  by (auto simp: cleaner_def)

lemma IsBlocked_cleaner:
  assumes "cleaner t d d'"
  shows "snd (IsBlocked t d' ip) = snd (IsBlocked t d ip) \<and>
    cleaner t (fst (IsBlocked t d ip)) (fst (IsBlocked t d' ip))"
  using assms
proof (cases rule: cleaner_block [of t d d' ip])
  case same
  with assms show ?thesis
    by (auto simp: IsBlocked_def cleaner_fields [OF assms] cleaner_put_block split: option.split)
next
  case (ended b)
  then have "d = d\<lparr>dd_blocked := (dd_blocked d)(ip := None)\<rparr>" by (simp add: fun_upd_idem)
  with ended assms cleaner_put_block [OF assms, of ip None] show ?thesis
    by (simp add: IsBlocked_def cleaner_fields [OF assms])
qed

lemma RecordRequest_cleaner:
  assumes "cleaner t d d'"
  shows "snd (RecordRequest t d' ip) = snd (RecordRequest t d ip) \<and>
    cleaner t (fst (RecordRequest t d ip)) (fst (RecordRequest t d' ip))"
  using assms
proof (cases rule: cleaner_counter [of t d d' ip])
  case same
  with assms show ?thesis
    using cleaner_put_block [OF cleaner_put_request [OF assms]]
    by (auto simp: RecordRequest_def cleaner_fields [OF assms] cleaner_put_request Let_def
        split: option.split)
next
  case (stale c)
  with assms show ?thesis
    by (simp add: RecordRequest_def cleaner_fields [OF assms] cleaner_put_request)
qed

interpretation ddos: invisible_cleanup "\<lambda>_. True" cleaner ddos_step ddos_cleanup
proof unfold_locales
  fix t d d' e u r
  assume c: "cleaner t d d'" and st: "ddos_step t d e = (u, r)"
  show "\<exists>u'. ddos_step t d' e = (u', r) \<and> cleaner t u u'"
  proof (cases e)
    case (OpIsBlocked ip)
    with st IsBlocked_cleaner [OF c, of ip] show ?thesis by (cases "IsBlocked t d' ip") simp
  next
    case (OpRecord ip)
    with st RecordRequest_cleaner [OF c, of ip] show ?thesis by (cases "RecordRequest t d' ip") simp
  qed (use c st in \<open>auto simp: cleaner_def AddToWhitelist_def AddToBlacklist_def\<close>)
qed (auto simp: cleaner_cleanup cleaner_later, simp add: cleaner_def)

section \<open>Runs of operations\<close>

text \<open>A timed sequence of operations and clean-up ticks.\<close>

fun ddos_tick :: "DDoSProtection \<Rightarrow> instant \<times> ddos_op option \<Rightarrow> DDoSProtection" where
  "ddos_tick d (t, None) = ddos_cleanup t d"
| "ddos_tick d (t, Some e) = fst (ddos_step t d e)"

lemma IsBlocked_lists [gw_frame]:
  "dd_whitelist (fst (IsBlocked t d ip)) = dd_whitelist d"
  "dd_blacklist (fst (IsBlocked t d ip)) = dd_blacklist d"
  by (simp_all add: IsBlocked_def split: option.split)

lemma RecordRequest_lists [gw_frame]:
  "dd_whitelist (fst (RecordRequest t d ip)) = dd_whitelist d"
  "dd_blacklist (fst (RecordRequest t d ip)) = dd_blacklist d"
  by (simp_all add: RecordRequest_def Let_def split: option.split)

lemma ddos_tick_lists:
  "dd_whitelist d \<subseteq> dd_whitelist (ddos_tick d ev)"
  "dd_blacklist d \<subseteq> dd_blacklist (ddos_tick d ev)"
  "ip \<in> dd_whitelist (ddos_tick d ev) \<Longrightarrow> ip \<in> dd_whitelist d \<or> snd ev = Some (OpWhitelist ip)"
  by (cases "(d, ev)" rule: ddos_tick.cases; cases "the (snd ev)";
      force simp: ddos_cleanup_def AddToWhitelist_def AddToBlacklist_def gw_frame)+

interpretation whitelisted: invariant_machine ddos_tick "\<lambda>d. ip \<in> dd_whitelist d" for ip
  by unfold_locales (use ddos_tick_lists(1) in blast)

lemma ddos_run_blacklisted:
  "ip \<in> dd_blacklist d \<Longrightarrow> ip \<notin> dd_whitelist d \<Longrightarrow> Some (OpWhitelist ip) \<notin> snd ` set evs \<Longrightarrow>
   ip \<in> dd_blacklist (foldl ddos_tick d evs) \<and> ip \<notin> dd_whitelist (foldl ddos_tick d evs)"
proof (induction evs arbitrary: d)
  case (Cons ev evs)
  then have "ip \<notin> dd_whitelist (ddos_tick d ev)" using ddos_tick_lists(3) by fastforce
  with Cons ddos_tick_lists(2) show ?case by (simp add: subset_iff)
qed simp

section \<open>One counting window\<close>

text \<open>Successive requests of one IP, and the answers of \<open>RecordRequest\<close>.\<close>

fun record_run :: "DDoSProtection \<Rightarrow> string \<Rightarrow> instant list \<Rightarrow> DDoSProtection \<times> bool list" where
  "record_run d ip [] = (d, [])"
| "record_run d ip (t # ts) =
     (case RecordRequest t d ip of
        (d1, r) \<Rightarrow> (case record_run d1 ip ts of (d2, rs) \<Rightarrow> (d2, r # rs)))"

lemma record_run_append:
  "record_run d ip (ts @ us) =
     (case record_run d ip ts of
        (d1, rs) \<Rightarrow> (case record_run d1 ip us of (d2, qs) \<Rightarrow> (d2, rs @ qs)))"
  by (induction ts arbitrary: d) (auto split: prod.splits)

lemma record_counting:
  assumes "ip \<notin> dd_whitelist d" and "dd_requests d ip = Some \<lparr>rc_Count = word_of_nat n, rc_FirstSeen = t0\<rparr>"
    and "t \<le> t0 + 60000000000" and "n + 1 < 2 ^ 63"
  obtains d' where "RecordRequest t d ip = (d', sint (dd_threshold d) < int (n + 1))"
    "dd_threshold d' = dd_threshold d" "dd_whitelist d' = dd_whitelist d"
    "dd_requests d' ip = Some \<lparr>rc_Count = word_of_nat (n + 1), rc_FirstSeen = t0\<rparr>"
  using that assms sint_word_of_nat [of "n + 1"]
  by (cases "sint (dd_threshold d) < int (n + 1)") (auto simp: RecordRequest_def Let_def add.commute)

lemma record_run_counting:
  assumes "ip \<notin> dd_whitelist d" and "dd_requests d ip = Some \<lparr>rc_Count = word_of_nat n, rc_FirstSeen = t0\<rparr>"
    and "\<forall>t \<in> set ts. t \<le> t0 + 60000000000" and "n + length ts < 2 ^ 63"
  shows "snd (record_run d ip ts) = map (\<lambda>i. sint (dd_threshold d) < int (n + 1 + i)) [0..<length ts] \<and>
    dd_threshold (fst (record_run d ip ts)) = dd_threshold d \<and>
    dd_whitelist (fst (record_run d ip ts)) = dd_whitelist d \<and>
    dd_requests (fst (record_run d ip ts)) ip =
      Some \<lparr>rc_Count = word_of_nat (n + length ts), rc_FirstSeen = t0\<rparr>"
  using assms
proof (induction ts arbitrary: d n)
  case (Cons t ts)
  obtain d' where d': "RecordRequest t d ip = (d', sint (dd_threshold d) < int (n + 1))"
    "dd_threshold d' = dd_threshold d" "dd_whitelist d' = dd_whitelist d"
    "dd_requests d' ip = Some \<lparr>rc_Count = word_of_nat (n + 1), rc_FirstSeen = t0\<rparr>"
    using Cons.prems by (auto elim: record_counting [of ip d n t0 t])
  obtain d2 rs where r: "record_run d' ip ts = (d2, rs)" by fastforce
  have "[0..<length (t # ts)] = 0 # map Suc [0..<length ts]"
    by (simp add: map_Suc_upt upt_conv_Cons del: upt_Suc)
  then show ?case
    using Cons.IH [of d' "n + 1"] Cons.prems d' r by (simp add: comp_def add.assoc del: upt_Suc)
qed simp

text \<open>A window starts with the first request of an IP, or the first after its minute is over.\<close>

definition window_starts :: "DDoSProtection \<Rightarrow> string \<Rightarrow> instant \<Rightarrow> bool" where
  "window_starts d ip t \<longleftrightarrow>
     (case dd_requests d ip of None \<Rightarrow> True | Some c \<Rightarrow> rc_FirstSeen c + 60000000000 < t)"

lemma record_run_window:
  assumes "ip \<notin> dd_whitelist d" and "window_starts d ip t"
    and "\<forall>u \<in> set ts. u \<le> t + 60000000000" and "length ts + 1 < 2 ^ 63"
  shows "snd (record_run d ip (t # ts)) =
      map (\<lambda>i. 0 < i \<and> sint (dd_threshold d) < int (Suc i)) [0..<length (t # ts)] \<and>
    dd_threshold (fst (record_run d ip (t # ts))) = dd_threshold d \<and>
    dd_whitelist (fst (record_run d ip (t # ts))) = dd_whitelist d \<and>
    dd_requests (fst (record_run d ip (t # ts))) ip =
      Some \<lparr>rc_Count = word_of_nat (length (t # ts)), rc_FirstSeen = t\<rparr>"
proof -
  let ?d = "d\<lparr>dd_requests := (dd_requests d)(ip \<mapsto> \<lparr>rc_Count = 1, rc_FirstSeen = t\<rparr>)\<rparr>"
  have first: "RecordRequest t d ip = (?d, False)"
    using assms(1,2) by (auto simp: RecordRequest_def window_starts_def split: option.splits)
  have up: "[0..<length (t # ts)] = 0 # map Suc [0..<length ts]"
    by (simp add: map_Suc_upt upt_conv_Cons del: upt_Suc)
  obtain d2 rs where r: "record_run ?d ip ts = (d2, rs)" by fastforce
  from record_run_counting [of ip ?d 1 t ts] assms r first up show ?thesis
    by (simp add: comp_def del: upt_Suc)
qed

section \<open>The per-IP rate limiter\<close>

text \<open>
  The token bucket itself is \<open>golang.org/x/time/rate\<close>, a parameter: its constructor,
  \<open>Allow\<close>, \<open>Tokens\<close> and the conversion of the burst size to the number type of
  \<open>Tokens\<close>. The gateway's part is the map from IPs to limiters and the eviction pass.
\<close>

record ('r, 'l, 'f) rate_lib =
  rl_NewLimiter :: "'r \<Rightarrow> goint \<Rightarrow> 'l"
  rl_Allow :: "instant \<Rightarrow> 'l \<Rightarrow> 'l \<times> bool"
  rl_Tokens :: "instant \<Rightarrow> 'l \<Rightarrow> 'f"
  rl_float64 :: "goint \<Rightarrow> 'f"

record ('r, 'l) IPRateLimiter =
  ipl_ips :: "string \<rightharpoonup> 'l"
  ipl_r :: 'r
  ipl_b :: goint

definition NewIPRateLimiter :: "'r \<Rightarrow> goint \<Rightarrow> ('r, 'l) IPRateLimiter" where
  "NewIPRateLimiter r b = \<lparr>ipl_ips = Map.empty, ipl_r = r, ipl_b = b\<rparr>"

definition GetLimiter ::
  "('r, 'l, 'f) rate_lib \<Rightarrow> ('r, 'l) IPRateLimiter \<Rightarrow> string \<Rightarrow> ('r, 'l) IPRateLimiter \<times> 'l" where
  "GetLimiter lib i ip =
     (case ipl_ips i ip of
        Some limiter \<Rightarrow> (i, limiter)
      | None \<Rightarrow>
          let limiter = rl_NewLimiter lib (ipl_r i) (ipl_b i)
          in (i\<lparr>ipl_ips := (ipl_ips i)(ip \<mapsto> limiter)\<rparr>, limiter))"

definition limiter_cleanup ::
  "('r, 'l, 'f) rate_lib \<Rightarrow> instant \<Rightarrow> ('r, 'l) IPRateLimiter \<Rightarrow> ('r, 'l) IPRateLimiter" where
  "limiter_cleanup lib now i = i\<lparr>ipl_ips := (\<lambda>ip. case ipl_ips i ip of
       None \<Rightarrow> None
     | Some limiter \<Rightarrow>
         if rl_Tokens lib now limiter = rl_float64 lib (ipl_b i) then None else Some limiter)\<rparr>"

text \<open>
  The caller's \<open>GetLimiter(ip)\<close> followed by \<open>Allow\<close>, which changes the limiter the map
  points to, when nothing runs between the two calls. The map's mutex is released in
  between; \<open>Limiter_Objects\<close> treats the two calls as separate steps on shared limiters.
\<close>

definition limiter_allow ::
  "('r, 'l, 'f) rate_lib \<Rightarrow> instant \<Rightarrow> ('r, 'l) IPRateLimiter \<Rightarrow> string \<Rightarrow>
   ('r, 'l) IPRateLimiter \<times> bool" where
  "limiter_allow lib now i ip =
     (case GetLimiter lib i ip of (i1, limiter) \<Rightarrow>
       (case rl_Allow lib now limiter of (limiter', ok) \<Rightarrow>
          (i1\<lparr>ipl_ips := (ipl_ips i1)(ip \<mapsto> limiter')\<rparr>, ok)))"

text \<open>What a limiter answers to a sequence of requests.\<close>

fun allow_run :: "('r, 'l, 'f) rate_lib \<Rightarrow> 'l \<Rightarrow> instant list \<Rightarrow> bool list" where
  "allow_run lib l [] = []"
| "allow_run lib l (t # ts) = (case rl_Allow lib t l of (l', ok) \<Rightarrow> ok # allow_run lib l' ts)"

fun allow_state :: "('r, 'l, 'f) rate_lib \<Rightarrow> 'l \<Rightarrow> instant list \<Rightarrow> 'l" where
  "allow_state lib l [] = l"
| "allow_state lib l (t # ts) = allow_state lib (fst (rl_Allow lib t l)) ts"

lemma allow_state_snoc: "allow_state lib l (ts @ [t]) = fst (rl_Allow lib t (allow_state lib l ts))"
  by (induction ts arbitrary: l) simp_all

definition alike :: "('r, 'l, 'f) rate_lib \<Rightarrow> instant \<Rightarrow> 'l \<Rightarrow> 'l \<Rightarrow> bool" where
  "alike lib t l l' \<longleftrightarrow> (\<forall>ts. sorted (t # ts) \<longrightarrow> allow_run lib l ts = allow_run lib l' ts)"

text \<open>
  The law of the token bucket the eviction relies on: a limiter that was made with rate
  \<open>r\<close> and burst \<open>b\<close>, has served some requests and is full again answers every later
  sequence of requests like a new one.
\<close>

definition refilled_like_new :: "('r, 'l, 'f) rate_lib \<Rightarrow> 'r \<Rightarrow> goint \<Rightarrow> bool" where
  "refilled_like_new lib r b \<longleftrightarrow>
     (\<forall>us t. rl_Tokens lib t (allow_state lib (rl_NewLimiter lib r b) us) = rl_float64 lib b \<longrightarrow>
        alike lib t (allow_state lib (rl_NewLimiter lib r b) us) (rl_NewLimiter lib r b))"

definition limiter_at :: "('r, 'l, 'f) rate_lib \<Rightarrow> ('r, 'l) IPRateLimiter \<Rightarrow> string \<Rightarrow> 'l" where
  "limiter_at lib i ip =
     (case ipl_ips i ip of Some l \<Rightarrow> l | None \<Rightarrow> rl_NewLimiter lib (ipl_r i) (ipl_b i))"

text \<open>
  Every limiter in the map was made with the map's rate and burst; then the limiters of two
  maps answer alike.
\<close>

definition limiter_ok ::
  "('r, 'l, 'f) rate_lib \<Rightarrow> 'r \<Rightarrow> goint \<Rightarrow> ('r, 'l) IPRateLimiter \<Rightarrow> bool" where
  "limiter_ok lib r b i \<longleftrightarrow> ipl_r i = r \<and> ipl_b i = b \<and>
     (\<forall>ip. \<exists>us. limiter_at lib i ip = allow_state lib (rl_NewLimiter lib r b) us)"

definition limiter_sim ::
  "('r, 'l, 'f) rate_lib \<Rightarrow> 'r \<Rightarrow> goint \<Rightarrow> instant \<Rightarrow>
   ('r, 'l) IPRateLimiter \<Rightarrow> ('r, 'l) IPRateLimiter \<Rightarrow> bool" where
  "limiter_sim lib r b t i i' \<longleftrightarrow> limiter_ok lib r b i \<and> ipl_r i' = r \<and> ipl_b i' = b \<and>
     (\<forall>ip. alike lib t (limiter_at lib i ip) (limiter_at lib i' ip))"

lemma limiter_allow_at:
  "limiter_allow lib t i ip =
     (i\<lparr>ipl_ips := (ipl_ips i)(ip \<mapsto> fst (rl_Allow lib t (limiter_at lib i ip)))\<rparr>,
      snd (rl_Allow lib t (limiter_at lib i ip)))"
  by (simp add: limiter_allow_def GetLimiter_def limiter_at_def Let_def split: option.split prod.split)

lemma alike_step:
  assumes "alike lib t l l'"
  shows "snd (rl_Allow lib t l) = snd (rl_Allow lib t l')"
    and "alike lib t (fst (rl_Allow lib t l)) (fst (rl_Allow lib t l'))"
proof -
  have run: "allow_run lib l (t # ts) = allow_run lib l' (t # ts)" if "sorted (t # ts)" for ts
    using assms that unfolding alike_def by (metis order_refl set_ConsD sorted_simps(2))
  from run [of "[]"] show "snd (rl_Allow lib t l) = snd (rl_Allow lib t l')"
    by (simp split: prod.splits)
  have "allow_run lib (fst (rl_Allow lib t l)) ts = allow_run lib (fst (rl_Allow lib t l')) ts"
    if "sorted (t # ts)" for ts using run [OF that] by (simp split: prod.splits)
  then show "alike lib t (fst (rl_Allow lib t l)) (fst (rl_Allow lib t l'))"
    unfolding alike_def by blast
qed

lemma alike_later: "alike lib t l l' \<Longrightarrow> t \<le> t' \<Longrightarrow> alike lib t' l l'"
  unfolding alike_def by (metis order_trans sorted_simps(2) set_ConsD)

lemma limiter_at_update:
  "limiter_at lib (i\<lparr>ipl_ips := (ipl_ips i)(ip \<mapsto> l)\<rparr>) ip' = (if ip' = ip then l else limiter_at lib i ip')"
  by (simp add: limiter_at_def split: option.split)

lemma limiter_at_cleanup:
  "limiter_at lib (limiter_cleanup lib t i) ip = limiter_at lib i ip \<or>
   limiter_at lib (limiter_cleanup lib t i) ip = rl_NewLimiter lib (ipl_r i) (ipl_b i) \<and>
   rl_Tokens lib t (limiter_at lib i ip) = rl_float64 lib (ipl_b i)"
  by (simp add: limiter_at_def limiter_cleanup_def split: option.split)

lemma limiter_ok_new: "limiter_ok lib r b (NewIPRateLimiter r b)"
  unfolding limiter_ok_def NewIPRateLimiter_def limiter_at_def
  by (auto intro: exI [of _ "[]"])

lemma limiter_ok_cleanup: "limiter_ok lib r b i \<Longrightarrow> limiter_ok lib r b (limiter_cleanup lib t i)"
proof -
  assume ok: "limiter_ok lib r b i"
  have "\<exists>us. limiter_at lib (limiter_cleanup lib t i) ip = allow_state lib (rl_NewLimiter lib r b) us" for ip
  proof (cases "limiter_at lib (limiter_cleanup lib t i) ip = limiter_at lib i ip")
    case True
    with ok show ?thesis by (simp add: limiter_ok_def)
  next
    case False
    with ok limiter_at_cleanup [of lib t i ip] show ?thesis
      by (intro exI [of _ "[]"]) (simp add: limiter_ok_def)
  qed
  with ok show ?thesis by (simp add: limiter_ok_def limiter_cleanup_def)
qed

lemma limiter_ok_allow: "limiter_ok lib r b i \<Longrightarrow> limiter_ok lib r b (fst (limiter_allow lib t i ip))"
  unfolding limiter_ok_def
  by (auto simp: limiter_allow_at limiter_at_update) (metis allow_state_snoc)

lemma limiter_sim_cleanup:
  assumes law: "refilled_like_new lib r b" and sim: "limiter_sim lib r b t i i'"
  shows "limiter_sim lib r b t (limiter_cleanup lib t i) i'"
proof -
  have ok: "limiter_ok lib r b i" using sim by (simp add: limiter_sim_def)
  have "alike lib t (limiter_at lib (limiter_cleanup lib t i) ip) (limiter_at lib i' ip)" for ip
  proof (cases "limiter_at lib (limiter_cleanup lib t i) ip = limiter_at lib i ip")
    case True
    with sim show ?thesis by (simp add: limiter_sim_def)
  next
    case False
    then have "alike lib t (limiter_at lib i ip) (limiter_at lib (limiter_cleanup lib t i) ip)"
      using limiter_at_cleanup [of lib t i ip] law ok
      unfolding refilled_like_new_def limiter_ok_def by metis
    with sim show ?thesis by (simp add: limiter_sim_def alike_def)
  qed
  with sim ok show ?thesis by (simp add: limiter_sim_def limiter_ok_cleanup)
qed

text \<open>Under that law the eviction pass is one more clean-up that no request can observe.\<close>

lemma limiter_invisible_cleanup:
  assumes law: "refilled_like_new lib r b"
  shows "invisible_cleanup (limiter_ok lib r b) (limiter_sim lib r b)
    (limiter_allow lib) (limiter_cleanup lib)"
proof unfold_locales
  fix t i i' ip u ok
  assume sim: "limiter_sim lib r b t i i'" and st: "limiter_allow lib t i ip = (u, ok)"
  let ?a = "limiter_at lib i ip" and ?a' = "limiter_at lib i' ip"
  have a: "alike lib t ?a ?a'" using sim by (simp add: limiter_sim_def)
  have "limiter_sim lib r b t u (fst (limiter_allow lib t i' ip))"
    using sim alike_step(2) [OF a] limiter_ok_allow [of lib r b i t ip] st
    by (auto simp: limiter_sim_def limiter_allow_at limiter_at_update)
  moreover have "snd (limiter_allow lib t i' ip) = ok"
    using st alike_step(1) [OF a] by (simp add: limiter_allow_at)
  ultimately show "\<exists>u'. limiter_allow lib t i' ip = (u', ok) \<and> limiter_sim lib r b t u u'"
    by (cases "limiter_allow lib t i' ip") simp
next
  fix t i i' t'
  show "limiter_sim lib r b t i i' \<Longrightarrow> t \<le> t' \<Longrightarrow> limiter_sim lib r b t' i i'"
    unfolding limiter_sim_def by (auto intro: alike_later)
qed (auto simp: limiter_sim_cleanup [OF law], simp add: limiter_sim_def limiter_ok_def alike_def)

text \<open>
  A token bucket that satisfies the law: one token per second, the level kept in
  nanoseconds of accumulated time up to the capacity.
\<close>

definition example_spend :: "instant \<Rightarrow> int \<Rightarrow> int \<Rightarrow> (int \<times> int \<times> instant) \<times> bool" where
  "example_spend t cap now =
     (if 1000000000 \<le> now then ((cap, now - 1000000000, t), True) else ((cap, now, t), False))"

definition example_bucket :: "(unit, int \<times> int \<times> instant, int) rate_lib" where
  "example_bucket = \<lparr>
     rl_NewLimiter = (\<lambda>_ b. (sint b * 1000000000, sint b * 1000000000, 0)),
     rl_Allow = (\<lambda>t (cap, level, last). example_spend t cap (min cap (level + max 0 (t - last)))),
     rl_Tokens = (\<lambda>t (cap, level, last). min cap (level + max 0 (t - last))),
     rl_float64 = (\<lambda>b. sint b * 1000000000)\<rparr>"

lemma example_bucket_capacity: "fst (allow_state example_bucket l us) = fst l"
  by (induction us arbitrary: l) (auto simp: example_bucket_def example_spend_def)

lemma example_bucket_refills: "refilled_like_new example_bucket () b"
proof -
  let ?cap = "sint b * 1000000000"
  have full: "alike example_bucket t (?cap, level, last) (?cap, ?cap, 0)"
    if f: "min ?cap (level + max 0 (t - last)) = ?cap" for t level last
    unfolding alike_def
  proof (intro allI impI)
    fix ts assume "sorted (t # ts)"
    then show "allow_run example_bucket (?cap, level, last) ts = allow_run example_bucket (?cap, ?cap, 0) ts"
    proof (cases ts)
      case (Cons u us)
      with \<open>sorted (t # ts)\<close> f have "min ?cap (level + max 0 (u - last)) = ?cap" by auto
      then have "rl_Allow example_bucket u (?cap, level, last) = rl_Allow example_bucket u (?cap, ?cap, 0)"
        by (simp add: example_bucket_def)
      with Cons show ?thesis by simp
    qed simp
  qed
  have "alike example_bucket t (allow_state example_bucket (?cap, ?cap, 0) us) (?cap, ?cap, 0)"
    if "rl_Tokens example_bucket t (allow_state example_bucket (?cap, ?cap, 0) us) = ?cap" for us t
    using full that example_bucket_capacity [of "(?cap, ?cap, 0)" us]
    by (cases "allow_state example_bucket (?cap, ?cap, 0) us") (simp add: example_bucket_def)
  moreover have "rl_NewLimiter example_bucket () b = (?cap, ?cap, 0)" "rl_float64 example_bucket b = ?cap"
    by (simp_all add: example_bucket_def)
  ultimately show ?thesis by (simp add: refilled_like_new_def)
qed

section \<open>Properties\<close>

text \<open>
  C19: the minute clean-up of the DDoS tables is not observable. In any schedule of block
  checks, recorded requests, white- and blacklistings and clean-up passes, with a clock that
  does not run backwards, from any state, every answer is what it would be had the clean-up
  never run.
\<close>

theorem ddos_cleanup_unobservable:
  assumes "sorted (map fst evs)"
  shows "timed_answers ddos_step ddos_cleanup d evs =
    timed_answers ddos_step ddos_cleanup d (filter (\<lambda>ev. snd ev \<noteq> None) evs)"
  using TrueI assms by (rule ddos.cleanup_unobservable)

theorem ddos_cleanup_unobservable_witness:
  "timed_answers ddos_step ddos_cleanup (NewDDoSProtection 1 second)
     [(0, Some (OpRecord ''ip'')), (5, Some (OpRecord ''ip'')), (2000000000, None),
      (2000000000, Some (OpIsBlocked ''ip''))] =
   timed_answers ddos_step ddos_cleanup (NewDDoSProtection 1 second)
     [(0, Some (OpRecord ''ip'')), (5, Some (OpRecord ''ip'')),
      (2000000000, Some (OpIsBlocked ''ip''))]"
  using ddos_cleanup_unobservable [of "[(0, Some (OpRecord ''ip'')), (5, Some (OpRecord ''ip'')),
      (2000000000, None), (2000000000, Some (OpIsBlocked ''ip''))]" "NewDDoSProtection 1 second"]
  by simp

text \<open>
  C38: the threshold is exact within a counting window. If a window of an IP starts at \<open>t\<close>
  and the requests \<open>ts\<close> follow within its minute, a request is answered with "just blocked"
  exactly when it is not the first one and its number in the window exceeds the threshold.
\<close>

theorem ddos_threshold_exact:
  assumes "ip \<notin> dd_whitelist d" and "window_starts d ip t"
    and "\<forall>u \<in> set ts. u \<le> t + 60000000000" and "length ts + 1 < 2 ^ 63"
    and "i < length (t # ts)"
  shows "snd (record_run d ip (t # ts)) ! i \<longleftrightarrow> 0 < i \<and> sint (dd_threshold d) < int (Suc i)"
  using record_run_window [OF assms(1-4)] assms(5) by (simp del: upt_Suc record_run.simps)

theorem ddos_threshold_exact_witness:
  "snd (record_run (NewDDoSProtection 2 second) ''ip'' [0, 10, 20]) ! 2"
  using ddos_threshold_exact [of "''ip''" "NewDDoSProtection 2 second" 0 "[10, 20]" 2]
  by (simp add: NewDDoSProtection_def window_starts_def del: record_run.simps)

text \<open>
  A block lasts for exactly the configured duration. When a request of an IP that is not
  blacklisted trips the threshold at \<open>t\<close>, the IP is refused at \<open>t'\<close> if and only if
  \<open>t'\<close> is before \<open>t\<close> plus the duration.
\<close>

theorem ddos_block_lasts:
  assumes "RecordRequest t d ip = (d', True)" and "ip \<notin> dd_blacklist d"
  shows "snd (IsBlocked t' d' ip) \<longleftrightarrow> t' < t + sint (dd_duration d)"
  using assms
  by (auto simp: RecordRequest_def IsBlocked_def time_Add_def Let_def split: option.splits if_splits)

theorem ddos_block_lasts_witness:
  "snd (IsBlocked 1000000009
     (fst (RecordRequest 10 (fst (RecordRequest 0 (NewDDoSProtection 1 second) ''ip'')) ''ip'')) ''ip'') \<longleftrightarrow>
   (1000000009 :: int) < 10 + sint second"
  by (rule ddos_block_lasts [of 10 "fst (RecordRequest 0 (NewDDoSProtection 1 second) ''ip'')" "''ip''" _
      1000000009, THEN trans]) (simp_all add: ddos_defs second_def)

text \<open>
  The access lists are permanent. An IP on the whitelist is never refused afterwards, and
  a blacklisted one is always refused unless it is whitelisted later, whatever requests,
  listings and clean-up passes happen in between.
\<close>

theorem access_lists_permanent:
  "let d' = foldl ddos_tick d evs in
     (ip \<in> dd_whitelist d \<longrightarrow> \<not> snd (IsBlocked t d' ip) \<and> \<not> snd (RecordRequest t d' ip)) \<and>
     (ip \<in> dd_blacklist d \<and> ip \<notin> dd_whitelist d \<and> Some (OpWhitelist ip) \<notin> snd ` set evs \<longrightarrow>
        snd (IsBlocked t d' ip))"
  using whitelisted.run_inv [of ip d evs] ddos_run_blacklisted [of ip d evs]
  by (simp add: Let_def IsBlocked_def RecordRequest_def)

theorem access_lists_permanent_witness:
  "snd (IsBlocked 9 (foldl ddos_tick (AddToBlacklist ''ip'' (NewDDoSProtection 1 second))
     [(0, Some (OpWhitelist ''other'')), (5, None)]) ''ip'')"
  using access_lists_permanent [of "AddToBlacklist ''ip'' (NewDDoSProtection 1 second)"
      "[(0, Some (OpWhitelist ''other'')), (5, None)]" "''ip''" 9]
  by (simp add: AddToBlacklist_def NewDDoSProtection_def Let_def del: foldl.simps foldl_Cons)

text \<open>
  The request window is fixed, not sliding. With a threshold \<open>m > 0\<close>, an IP that sends
  one request, \<open>m - 1\<close> more exactly at the end of its minute and \<open>m\<close> one nanosecond later
  sends \<open>2m - 1\<close> requests within a nanosecond and is never blocked.
\<close>

theorem ddos_window_not_sliding:
  assumes "0 < m" and "m + 1 < 2 ^ 63" and "ip \<notin> dd_whitelist d"
    and "dd_requests d ip = None" and "dd_threshold d = word_of_nat m"
  shows "True \<notin> set (snd (record_run d ip
    ((t # replicate (m - 1) (t + 60000000000)) @ replicate m (t + 60000000001))))"
proof -
  let ?ts = "t # replicate (m - 1) (t + 60000000000)"
  obtain d1 rs where r1: "record_run d ip ?ts = (d1, rs)" by fastforce
  have thr: "sint (dd_threshold d) = int m" using assms by (simp add: sint_word_of_nat)
  have first: "rs = map (\<lambda>i. 0 < i \<and> int m < int (Suc i)) [0..<m] \<and> dd_threshold d1 = dd_threshold d \<and>
      dd_whitelist d1 = dd_whitelist d \<and>
      dd_requests d1 ip = Some \<lparr>rc_Count = word_of_nat m, rc_FirstSeen = t\<rparr>"
    using record_run_window [of ip d t "replicate (m - 1) (t + 60000000000)"] assms r1 thr
    by (simp add: window_starts_def del: record_run.simps upt_Suc)
  obtain k where m: "m = Suc k" using assms(1) gr0_conv_Suc by blast
  have "snd (record_run d1 ip (replicate m (t + 60000000001))) =
      map (\<lambda>i. 0 < i \<and> int m < int (Suc i)) [0..<m]"
    using record_run_window [of ip d1 "t + 60000000001" "replicate k (t + 60000000001)"] assms first thr m
    by (simp add: window_starts_def del: record_run.simps upt_Suc)
  with r1 first show ?thesis
    by (auto simp only: record_run_append prod.case split: prod.splits) auto
qed

theorem ddos_window_not_sliding_witness:
  "True \<notin> set (snd (record_run (NewDDoSProtection 3 second) ''ip''
     ([0, 60000000000, 60000000000] @ [60000000001, 60000000001, 60000000001])))"
  using ddos_window_not_sliding [of 3 "''ip''" "NewDDoSProtection 3 second" 0]
  by (simp add: NewDDoSProtection_def numeral_3_eq_3 del: record_run.simps)

end
