(* ===== verification/Circuit_Breaker.thy ===== *)
theory Circuit_Breaker
  imports Prelude
begin

text \<open>
  \<open>middleware.go\<close>, the circuit breaker: its state machine as a sequential component, and
  the interleaving of concurrent calls, which the breaker's mutex serialises.
\<close>

section \<open>The breaker\<close>

record CircuitBreaker =
  cb_maxFailures :: goint
  cb_resetTimeout :: duration
  cb_failures :: goint
  cb_lastFailTime :: instant
  cb_state :: string

definition NewCircuitBreaker :: "goint \<Rightarrow> duration \<Rightarrow> CircuitBreaker" where
  "NewCircuitBreaker maxFailures resetTimeout =
     \<lparr>cb_maxFailures = maxFailures, cb_resetTimeout = resetTimeout, cb_failures = 0,
      cb_lastFailTime = 0, cb_state = ''closed''\<rparr>"

definition GetState :: "CircuitBreaker \<Rightarrow> string" where
  "GetState cb = cb_state cb"

text \<open>
  \<open>Call\<close> runs its argument between two parts of its own: the check whether the call is
  admitted (\<open>None\<close>: rejected with the error \<open>circuit breaker is open\<close>), and the
  book-keeping on the outcome. The second component of \<open>settle\<close> says whether the
  breaker tripped, which increments the trip counters. A panic of the argument skips the
  book-keeping; the deferred unlock still runs.
\<close>

datatype 'e outcome = Success | Failure 'e | Panicked

definition admit :: "instant \<Rightarrow> CircuitBreaker \<Rightarrow> CircuitBreaker option" where
  "admit now cb =
     (if cb_state cb = ''open'' then
        (if go_lt (cb_resetTimeout cb) (time_Sub now (cb_lastFailTime cb))
         then Some (cb\<lparr>cb_state := ''half-open'', cb_failures := 0\<rparr>)
         else None)
      else Some cb)"

fun settle :: "instant \<Rightarrow> 'e outcome \<Rightarrow> CircuitBreaker \<Rightarrow> CircuitBreaker \<times> bool" where
  "settle now Panicked cb = (cb, False)"
| "settle now (Failure e) cb =
     (let cb1 = cb\<lparr>cb_failures := cb_failures cb + 1, cb_lastFailTime := now\<rparr>
      in if go_le (cb_maxFailures cb1) (cb_failures cb1)
         then (cb1\<lparr>cb_state := ''open''\<rparr>, True) else (cb1, False))"
| "settle now Success cb =
     (cb\<lparr>cb_state := (if cb_state cb = ''half-open'' then ''closed'' else cb_state cb),
         cb_failures := 0\<rparr>, False)"

definition breaker_open_error :: string where
  "breaker_open_error = ''circuit breaker is open''"

text \<open>
  The whole \<open>Call\<close> over a state \<open>'s\<close> that the argument changes: the new breaker and
  state, the outcome as the caller sees it, and whether the breaker tripped. \<open>t0\<close> and
  \<open>t1\<close> are the clock readings at the check and after the argument returned.
\<close>

definition Call ::
  "instant \<Rightarrow> instant \<Rightarrow> ('s \<Rightarrow> 's \<times> string outcome) \<Rightarrow> CircuitBreaker \<Rightarrow> 's \<Rightarrow>
   (CircuitBreaker \<times> 's) \<times> string outcome \<times> bool" where
  "Call t0 t1 fn cb s =
     (case admit t0 cb of
        None \<Rightarrow> ((cb, s), Failure breaker_open_error, False)
      | Some cb1 \<Rightarrow>
          (let (s', r) = fn s; (cb2, tripped) = settle t1 r cb1 in ((cb2, s'), r, tripped)))"

text \<open>One call as an event: the two clock readings and what the argument would do.\<close>

type_synonym 'e call = "instant \<times> instant \<times> 'e outcome"

fun call_step :: "CircuitBreaker \<Rightarrow> 'e call \<Rightarrow> CircuitBreaker" where
  "call_step cb (t0, t1, r) =
     (case admit t0 cb of None \<Rightarrow> cb | Some cb1 \<Rightarrow> fst (settle t1 r cb1))"

lemma Call_call_step:
  "fst (fst (Call t0 t1 fn cb s)) = call_step cb (t0, t1, snd (fn s))"
  by (simp add: Call_def Let_def split: option.split prod.split)

section \<open>Invariant\<close>

text \<open>
  The state is one of the three names; with a positive limit, the failure count of a
  breaker that is not open is below the limit and an open breaker has reached it.
\<close>

definition cb_inv :: "CircuitBreaker \<Rightarrow> bool" where
  "cb_inv cb \<longleftrightarrow>
     cb_state cb \<in> {''closed'', ''open'', ''half-open''} \<and> 0 < sint (cb_maxFailures cb) \<and>
     0 \<le> sint (cb_failures cb) \<and> sint (cb_failures cb) \<le> sint (cb_maxFailures cb) \<and>
     (cb_state cb = ''open'' \<longleftrightarrow> cb_failures cb = cb_maxFailures cb)"

lemma cb_inv_New [gw_inv]: "0 < sint m \<Longrightarrow> cb_inv (NewCircuitBreaker m d)"
  by (auto simp: cb_inv_def NewCircuitBreaker_def)

lemma admit_inv: "cb_inv cb \<Longrightarrow> admit t cb = Some cb' \<Longrightarrow> cb_inv cb' \<and> cb_state cb' \<noteq> ''open''"
  by (auto simp: cb_inv_def admit_def split: if_splits)

lemma sint_succ:
  assumes "sint (a :: int64) < sint (b :: int64)"
  shows "sint (a + 1) = sint a + 1"
proof -
  have "- (2 ^ 63) \<le> sint a + 1" "sint a + 1 < 2 ^ 63"
    using assms sint_int64_range [of a] sint_int64_range [of b] by linarith+
  then show ?thesis using sint_word_of_int64 [of "sint a + 1"] by simp
qed

lemma cb_inv_lt:
  assumes "cb_inv cb" and "cb_state cb \<noteq> ''open''"
  shows "sint (cb_failures cb) < sint (cb_maxFailures cb)"
proof -
  have "cb_failures cb \<noteq> cb_maxFailures cb" using assms by (auto simp: cb_inv_def)
  then have "sint (cb_failures cb) \<noteq> sint (cb_maxFailures cb)" by (simp add: sint_eq_iff)
  with assms(1) show ?thesis by (auto simp: cb_inv_def)
qed

lemma settle_inv:
  assumes "cb_inv cb" and "cb_state cb \<noteq> ''open''"
  shows "cb_inv (fst (settle t r cb))"
proof (cases r)
  case Success
  with assms show ?thesis by (auto simp: cb_inv_def)
next
  case (Failure e)
  note lt = cb_inv_lt [OF assms]
  have s: "sint (cb_failures cb + 1) = sint (cb_failures cb) + 1" using lt by (rule sint_succ)
  then have "cb_failures cb + 1 = cb_maxFailures cb \<longleftrightarrow>
      sint (cb_maxFailures cb) \<le> sint (cb_failures cb) + 1"
    using lt by (auto simp flip: sint_eq_iff)
  with Failure assms s lt show ?thesis by (auto simp: cb_inv_def Let_def)
qed (use assms in simp)

lemma call_step_inv [gw_inv]: "cb_inv cb \<Longrightarrow> cb_inv (call_step cb c)"
  by (cases c) (auto simp: settle_inv dest: admit_inv split: option.split)

interpretation breaker: invariant_machine call_step cb_inv
  by unfold_locales (rule call_step_inv)

section \<open>Frame\<close>

lemma admit_frame [gw_frame]:
  "admit t cb = Some cb' \<Longrightarrow> cb_maxFailures cb' = cb_maxFailures cb \<and>
     cb_resetTimeout cb' = cb_resetTimeout cb \<and> cb_lastFailTime cb' = cb_lastFailTime cb"
  by (auto simp: admit_def split: if_splits)

lemma settle_frame [gw_frame]:
  "cb_maxFailures (fst (settle t r cb)) = cb_maxFailures cb"
  "cb_resetTimeout (fst (settle t r cb)) = cb_resetTimeout cb"
  by (cases r; simp add: Let_def)+

lemma call_step_frame [simp]:
  "cb_maxFailures (call_step cb c) = cb_maxFailures cb"
  "cb_resetTimeout (call_step cb c) = cb_resetTimeout cb"
  by (cases c; auto simp: settle_frame dest: admit_frame split: option.split)+

lemma foldl_maxFailures: "cb_maxFailures (foldl call_step cb cs) = cb_maxFailures cb"
  by (induction cs arbitrary: cb) (simp_all del: call_step.simps)

section \<open>Counting consecutive failures\<close>

lemma failing_call:
  assumes "cb_inv cb" and "cb_state cb \<noteq> ''open''"
  shows "call_step cb (t0, t1, Failure e) =
    cb\<lparr>cb_failures := cb_failures cb + 1, cb_lastFailTime := t1,
       cb_state := (if sint (cb_maxFailures cb) \<le> sint (cb_failures cb) + 1 then ''open''
                    else cb_state cb)\<rparr>"
  using assms sint_succ [OF cb_inv_lt [OF assms]] by (simp add: admit_def Let_def)

text \<open>
  A run of calls that are admitted and fail moves the count up one by one; the breaker stays
  in its state until the count reaches the limit.
\<close>

lemma failing_run:
  assumes "cb_inv cb" and "cb_state cb \<noteq> ''open''"
    and "int (length cs) < sint (cb_maxFailures cb) - sint (cb_failures cb)"
    and "\<forall>c \<in> set cs. \<exists>t0 t1 e. c = (t0, t1, Failure e)"
  shows "cb_state (foldl call_step cb cs) = cb_state cb \<and>
    sint (cb_failures (foldl call_step cb cs)) = sint (cb_failures cb) + int (length cs)"
  using assms
proof (induction cs arbitrary: cb)
  case (Cons c cs)
  then obtain t0 t1 e where c: "c = (t0, t1, Failure e)" by auto
  let ?cb = "call_step cb c"
  have st: "cb_state ?cb = cb_state cb" and "sint (cb_failures ?cb) = sint (cb_failures cb) + 1"
    using failing_call [OF Cons.prems(1,2), of t0 t1 e] Cons.prems(3) c
      sint_succ [OF cb_inv_lt [OF Cons.prems(1,2)]] by (simp_all del: call_step.simps)
  moreover have "cb_inv ?cb" using Cons.prems(1) by (rule call_step_inv)
  ultimately show ?case using Cons.IH [of ?cb] Cons.prems by simp
qed simp

section \<open>Concurrent calls\<close>

text \<open>
  \<open>Call\<close> holds the mutex from before the check until after the book-keeping, while its
  argument runs. Threads are numbered; each makes calls one after the other. \<open>bs_log\<close>
  is a ghost: the calls in the order in which they released the mutex. \<open>bs_active\<close>
  counts the arguments that are running.
\<close>

datatype phase = Idle | Waiting | Locked | Running instant

record 'e breaker_sys =
  bs_mu :: "nat option"
  bs_phase :: "nat \<Rightarrow> phase"
  bs_cb :: CircuitBreaker
  bs_active :: nat
  bs_log :: "'e call list"

definition bs_init :: "CircuitBreaker \<Rightarrow> 'e breaker_sys" where
  "bs_init cb = \<lparr>bs_mu = None, bs_phase = (\<lambda>_. Idle), bs_cb = cb, bs_active = 0, bs_log = []\<rparr>"

inductive bs_step :: "'e breaker_sys \<Rightarrow> 'e breaker_sys \<Rightarrow> bool" where
  arrive: "bs_phase s i = Idle \<Longrightarrow> bs_step s (s\<lparr>bs_phase := (bs_phase s)(i := Waiting)\<rparr>)"
| lock: "bs_phase s i = Waiting \<Longrightarrow> bs_mu s = None \<Longrightarrow>
     bs_step s (s\<lparr>bs_mu := Some i, bs_phase := (bs_phase s)(i := Locked)\<rparr>)"
| reject: "bs_phase s i = Locked \<Longrightarrow> admit t0 (bs_cb s) = None \<Longrightarrow>
     bs_step s (s\<lparr>bs_mu := None, bs_phase := (bs_phase s)(i := Idle),
                  bs_log := bs_log s @ [(t0, t0, Success)]\<rparr>)"
| enter: "bs_phase s i = Locked \<Longrightarrow> admit t0 (bs_cb s) = Some cb \<Longrightarrow>
     bs_step s (s\<lparr>bs_phase := (bs_phase s)(i := Running t0), bs_cb := cb,
                  bs_active := Suc (bs_active s)\<rparr>)"
| leave: "bs_phase s i = Running t0 \<Longrightarrow>
     bs_step s (s\<lparr>bs_mu := None, bs_phase := (bs_phase s)(i := Idle),
                  bs_cb := fst (settle t1 r (bs_cb s)), bs_active := bs_active s - 1,
                  bs_log := bs_log s @ [(t0, t1, r)]\<rparr>)"

text \<open>
  A read of the state from another thread, such as the health endpoint: \<open>GetState\<close> locks the
  same mutex, so it returns nothing (\<open>None\<close>: the caller waits) while a call is inside.
\<close>

definition GetState_step :: "'e breaker_sys \<Rightarrow> string option" where
  "GetState_step s = (if bs_mu s = None then Some (GetState (bs_cb s)) else None)"

inductive bs_reachable :: "CircuitBreaker \<Rightarrow> 'e breaker_sys \<Rightarrow> bool" for cb where
  start: "bs_reachable cb (bs_init cb)"
| step: "bs_reachable cb s \<Longrightarrow> bs_step s t \<Longrightarrow> bs_reachable cb t"

inductive_cases bs_stepE: "bs_step s t"

fun holds_lock :: "phase \<Rightarrow> bool" where
  "holds_lock Idle = False"
| "holds_lock Waiting = False"
| "holds_lock Locked = True"
| "holds_lock (Running t0) = True"

text \<open>
  The invariant: the mutex names exactly the thread that is inside; the breaker's state is the
  sequential one for the log, followed by the admission of the running call.
\<close>

definition bs_inv :: "CircuitBreaker \<Rightarrow> 'e breaker_sys \<Rightarrow> bool" where
  "bs_inv cb0 s \<longleftrightarrow>
     (\<forall>i. holds_lock (bs_phase s i) \<longleftrightarrow> bs_mu s = Some i) \<and>
     (case bs_mu s of
        None \<Rightarrow> bs_cb s = foldl call_step cb0 (bs_log s) \<and> bs_active s = 0
      | Some i \<Rightarrow>
          (case bs_phase s i of
             Running t0 \<Rightarrow> admit t0 (foldl call_step cb0 (bs_log s)) = Some (bs_cb s) \<and> bs_active s = 1
           | _ \<Rightarrow> bs_cb s = foldl call_step cb0 (bs_log s) \<and> bs_active s = 0))"

lemma bs_inv_init: "bs_inv cb (bs_init cb)"
  by (simp add: bs_inv_def bs_init_def)

lemma bs_inv_holder:
  "bs_inv cb0 s \<Longrightarrow> bs_phase s i = p \<Longrightarrow> holds_lock p \<Longrightarrow> bs_mu s = Some i"
  by (auto simp: bs_inv_def)

lemma bs_inv_step:
  assumes "bs_inv cb0 s" and "bs_step s t"
  shows "bs_inv cb0 t"
  using assms(2)
proof (cases rule: bs_step.cases)
  case (arrive i)
  with assms(1) have "bs_mu s \<noteq> Some i" by (metis bs_inv_def holds_lock.simps(1))
  with arrive assms(1) show ?thesis
    by (auto simp: bs_inv_def split: option.splits phase.splits)
next
  case (lock i)
  with assms(1) show ?thesis by (auto simp: bs_inv_def)
next
  case (reject i t0)
  then have "bs_mu s = Some i" using bs_inv_holder [OF assms(1)] by (simp add:)
  with reject assms(1) show ?thesis by (auto simp: bs_inv_def)
next
  case (enter i t0 cb)
  then have "bs_mu s = Some i" using bs_inv_holder [OF assms(1)] by (simp add:)
  with enter assms(1) show ?thesis by (auto simp: bs_inv_def)
next
  case (leave i t0 t1 r)
  then have "bs_mu s = Some i" using bs_inv_holder [OF assms(1)] by (simp add:)
  with leave assms(1) show ?thesis by (auto simp: bs_inv_def)
qed

lemma bs_reachable_inv: "bs_reachable cb s \<Longrightarrow> bs_inv cb s"
  by (induction rule: bs_reachable.induct) (auto intro: bs_inv_init bs_inv_step)

lemma GetState_waits:
  "bs_reachable cb s \<Longrightarrow> GetState_step s = None \<longleftrightarrow> (\<exists>i. holds_lock (bs_phase s i))"
  using bs_reachable_inv [of cb s] by (auto simp: bs_inv_def GetState_step_def)

lemma GetState_linear:
  "bs_reachable cb s \<Longrightarrow> GetState_step s = Some st \<Longrightarrow> st = GetState (foldl call_step cb (bs_log s))"
  using bs_reachable_inv [of cb s] by (auto simp: bs_inv_def GetState_step_def split: if_splits)

section \<open>Properties\<close>

text \<open>
  C10: the breaker is always in one of its three states, and its failure count agrees with the
  state: after any sequence of calls, with any clock readings and outcomes, on a breaker with
  a positive limit, the count is between 0 and the limit and the breaker is open exactly when
  the limit is reached.
\<close>

theorem breaker_state_invariant:
  assumes "0 < sint m"
  shows "let cb = foldl call_step (NewCircuitBreaker m d) cs in
    GetState cb \<in> {''closed'', ''open'', ''half-open''} \<and>
    0 \<le> sint (cb_failures cb) \<and> sint (cb_failures cb) \<le> sint m \<and>
    (GetState cb = ''open'' \<longleftrightarrow> cb_failures cb = m)"
proof -
  have "cb_maxFailures (foldl call_step (NewCircuitBreaker m d) cs) = m"
    by (simp only: foldl_maxFailures) (simp add: NewCircuitBreaker_def)
  then show ?thesis
    using breaker.run_inv [OF cb_inv_New [OF assms], of d cs]
    by (auto simp: cb_inv_def GetState_def Let_def)
qed

theorem breaker_state_invariant_witness:
  "GetState (foldl call_step (NewCircuitBreaker 2 second) [(1, 2, Failure ''e''), (3, 4, Success)])
     \<in> {''closed'', ''open'', ''half-open''}"
  using breaker_state_invariant [of 2 second "[(1, 2, Failure ''e''), (3, 4, Success)]"]
  by (auto simp: Let_def simp del: foldl.simps)

text \<open>
  The breaker opens at the limit and not before. On a new breaker with limit \<open>m\<close>, after
  \<open>k \<le> m\<close> consecutive failing calls it is open if \<open>k = m\<close> and still closed if
  \<open>k < m\<close>.
\<close>

theorem breaker_opens_at_limit:
  assumes "0 < sint m" and "int (length cs) \<le> sint m"
    and "\<forall>c \<in> set cs. \<exists>t0 t1 e. c = (t0, t1, Failure e)"
  shows "GetState (foldl call_step (NewCircuitBreaker m d) cs) =
    (if int (length cs) = sint m then ''open'' else ''closed'')"
proof (cases "int (length cs) = sint m")
  case False
  let ?cb = "NewCircuitBreaker m d"
  have "int (length cs) < sint (cb_maxFailures ?cb) - sint (cb_failures ?cb)"
    using False assms(2) by (simp add: NewCircuitBreaker_def)
  with failing_run [OF cb_inv_New [OF assms(1)] _ this assms(3)] False show ?thesis
    by (simp add: GetState_def NewCircuitBreaker_def)
next
  case True
  let ?cb = "NewCircuitBreaker m d"
  have "cs \<noteq> []" using True assms(1) by auto
  then obtain cs' c where cs: "cs = cs' @ [c]" by (metis rev_exhaust)
  with assms(3) obtain t0 t1 e where c: "c = (t0, t1, Failure e)" by auto
  let ?b = "foldl call_step ?cb cs'"
  have "int (length cs') < sint (cb_maxFailures ?cb) - sint (cb_failures ?cb)"
    using True cs by (simp add: NewCircuitBreaker_def)
  from failing_run [OF cb_inv_New [OF assms(1)] _ this] assms(3) cs
  have b: "cb_state ?b = ''closed''" "sint (cb_failures ?b) = int (length cs')"
    by (simp_all add: NewCircuitBreaker_def)
  have "sint (cb_maxFailures ?b) = sint m"
    by (simp only: foldl_maxFailures) (simp add: NewCircuitBreaker_def)
  with b failing_call [OF breaker.run_inv [OF cb_inv_New [OF assms(1)]], of d cs' t0 t1 e] True cs c
  show ?thesis by (simp add: GetState_def del: call_step.simps)
qed

theorem breaker_opens_at_limit_witness:
  "GetState (foldl call_step (NewCircuitBreaker 2 second) [(1, 2, Failure ''e''), (3, 4, Failure ''f'')]) = ''open''"
  using breaker_opens_at_limit [of 2 "[(1, 2, Failure ''e''), (3, 4, Failure ''f'')]" second]
  by (simp del: foldl.simps)

text \<open>
  An open breaker fails fast. Until the reset timeout has elapsed since the last failure,
  \<open>Call\<close> returns the breaker's own error, does not run its argument (the state it would
  change is unchanged) and does not change the breaker.
\<close>

theorem open_breaker_fails_fast:
  assumes "cb_state cb = ''open''"
    and "go_le (time_Sub t0 (cb_lastFailTime cb)) (cb_resetTimeout cb)"
  shows "Call t0 t1 fn cb s = ((cb, s), Failure ''circuit breaker is open'', False)"
  using assms by (simp add: Call_def admit_def breaker_open_error_def)

theorem open_breaker_fails_fast_witness:
  "Call 1000 1000 (\<lambda>n. (n + 1, Success))
     ((NewCircuitBreaker 1 second)\<lparr>cb_state := ''open'', cb_lastFailTime := 500\<rparr>) (0 :: nat) =
   (((NewCircuitBreaker 1 second)\<lparr>cb_state := ''open'', cb_lastFailTime := 500\<rparr>, 0),
     Failure ''circuit breaker is open'', False)"
  by (rule open_breaker_fails_fast)
    (simp_all add: NewCircuitBreaker_def sint_time_Sub second_def)

text \<open>
  A breaker recovers. Once the reset timeout has elapsed, the next call runs its argument;
  if that succeeds the breaker is closed with a zero failure count.
\<close>

theorem breaker_recovers:
  assumes "cb_state cb = ''open''"
    and "go_lt (cb_resetTimeout cb) (time_Sub t0 (cb_lastFailTime cb))"
    and "fn s = (s', Success)"
  shows "Call t0 t1 fn cb s =
    ((cb\<lparr>cb_state := ''closed'', cb_failures := 0\<rparr>, s'), Success, False)"
  using assms by (simp add: Call_def admit_def)

theorem breaker_recovers_witness:
  "GetState (fst (fst (Call 3000000000 3000000001 (\<lambda>n. (n + 1, Success))
     ((NewCircuitBreaker 1 second)\<lparr>cb_state := ''open'', cb_lastFailTime := 500\<rparr>) (0 :: nat)))) = ''closed''"
  using breaker_recovers [of "(NewCircuitBreaker 1 second)\<lparr>cb_state := ''open'', cb_lastFailTime := 500\<rparr>"
      3000000000 "\<lambda>n. (n + 1, Success)" "0 :: nat" 1 3000000001]
  by (simp add: NewCircuitBreaker_def sint_time_Sub second_def GetState_def)

text \<open>
  A failed trial call does not reopen the breaker. With a limit above one, the trial call
  after the reset timeout leaves a failing breaker half-open with a failure count of one, so
  the next call, at any time, is admitted as well.
\<close>

theorem half_open_failure_stays_half_open:
  assumes "cb_state cb = ''open''" and "1 < sint (cb_maxFailures cb)"
    and "go_lt (cb_resetTimeout cb) (time_Sub t0 (cb_lastFailTime cb))"
    and "fn s = (s', Failure e)"
  shows "Call t0 t1 fn cb s =
      ((cb\<lparr>cb_state := ''half-open'', cb_failures := 1, cb_lastFailTime := t1\<rparr>, s'), Failure e, False) \<and>
    admit t2 (fst (fst (Call t0 t1 fn cb s))) = Some (fst (fst (Call t0 t1 fn cb s)))"
  using assms by (simp add: Call_def admit_def Let_def)

theorem half_open_failure_stays_half_open_witness:
  "GetState (fst (fst (Call 3000000000 3000000001 (\<lambda>n. (n + 1, Failure ''down''))
     ((NewCircuitBreaker 5 second)\<lparr>cb_state := ''open'', cb_lastFailTime := 500\<rparr>) (0 :: nat)))) = ''half-open''"
  using half_open_failure_stays_half_open
    [of "(NewCircuitBreaker 5 second)\<lparr>cb_state := ''open'', cb_lastFailTime := 500\<rparr>"
      3000000000 "\<lambda>n. (n + 1, Failure ''down'')" "0 :: nat" 1 "''down''" 3000000001]
  by (simp add: NewCircuitBreaker_def sint_time_Sub second_def GetState_def)

text \<open>
  C11: concurrent calls are atomic, and they are serialised. In every interleaving of any number
  of threads, at most one argument of \<open>Call\<close> runs at any moment (the mutex is held while
  an upstream is being contacted), and whenever none runs the breaker is in the state that the
  completed calls produce when made one after the other.
\<close>

theorem breaker_serialises_calls:
  assumes "bs_reachable cb s"
  shows "bs_active s \<le> 1 \<and>
    (\<forall>i j t u. bs_phase s i = Running t \<and> bs_phase s j = Running u \<longrightarrow> i = j) \<and>
    (bs_mu s = None \<longrightarrow> bs_cb s = foldl call_step cb (bs_log s))"
proof -
  have inv: "bs_inv cb s" using assms by (rule bs_reachable_inv)
  then have "bs_active s \<le> 1" by (auto simp: bs_inv_def split: option.splits phase.splits)
  moreover have "i = j" if "bs_phase s i = Running t" "bs_phase s j = Running u" for i j t u
    using bs_inv_holder [OF inv that(1)] bs_inv_holder [OF inv that(2)] by simp
  ultimately show ?thesis using inv by (auto simp: bs_inv_def)
qed

theorem breaker_serialises_calls_witness:
  "\<exists>s :: string breaker_sys. bs_reachable (NewCircuitBreaker 2 second) s \<and> bs_phase s 7 = Locked \<and> bs_active s \<le> 1"
proof -
  let ?s0 = "bs_init (NewCircuitBreaker 2 second) :: string breaker_sys"
  let ?s1 = "?s0\<lparr>bs_phase := (bs_phase ?s0)(7 := Waiting)\<rparr>"
  let ?s2 = "?s1\<lparr>bs_mu := Some 7, bs_phase := (bs_phase ?s1)(7 := Locked)\<rparr>"
  have "bs_step ?s0 ?s1" by (rule bs_step.arrive) (simp add: bs_init_def)
  moreover have "bs_step ?s1 ?s2" by (rule bs_step.lock) (simp_all add: bs_init_def)
  ultimately have r: "bs_reachable (NewCircuitBreaker 2 second) ?s2"
    by (meson bs_reachable.intros)
  from breaker_serialises_calls [OF this] r show ?thesis by (intro exI [of _ ?s2]) simp
qed

end
