(* ===== verification/Auth.thy ===== *)
theory Auth
  imports Config Go_Http
begin

text \<open>
  \<open>middleware.go\<close>, authentication and request plumbing: JWT and API-key validation, the
  header middlewares, the client address and the list of public paths. The JWT library and
  SHA-256 are parameters; a handler is a function on its own state, the response writer and
  the request.
\<close>

section \<open>JSON web tokens\<close>

text \<open>
  A claim value is a number (given by what \<open>int64(exp)\<close> makes of the float), a string or
  something else. \<open>tok_hmac\<close> says whether the token's method is an HMAC one.
\<close>

datatype claim = ClaimNumber int64 | ClaimString string | ClaimOther

type_synonym claims = "string \<rightharpoonup> claim"

record jwt_token =
  tok_hmac :: bool
  tok_alg :: string
  tok_claims :: "claims option"
  tok_Valid :: bool

type_synonym keyfunc = "jwt_token \<Rightarrow> string + string"

text \<open>\<open>jwt.Parse\<close> takes the token string and the key function.\<close>

type_synonym jwt_parse = "string \<Rightarrow> keyfunc \<Rightarrow> string + jwt_token"

definition hmac_key :: "Config \<Rightarrow> keyfunc" where
  "hmac_key cfg token =
     (if \<not> tok_hmac token then Inl (''unexpected signing method: '' @ tok_alg token)
      else Inr (cf_JWTSecret cfg))"

definition validateJWT :: "jwt_parse \<Rightarrow> int64 \<Rightarrow> string \<Rightarrow> Config \<Rightarrow> string + claims" where
  "validateJWT parse nowUnix tokenString cfg =
     (case parse tokenString (hmac_key cfg) of
        Inl err \<Rightarrow> Inl err
      | Inr token \<Rightarrow>
          (case tok_claims token of
             None \<Rightarrow> Inl ''invalid token''
           | Some cs \<Rightarrow>
               if tok_Valid token then
                 (case cs ''exp'' of
                    Some (ClaimNumber e) \<Rightarrow>
                      if go_lt e nowUnix then Inl ''token expired'' else Inr cs
                  | _ \<Rightarrow> Inr cs)
               else Inl ''invalid token''))"

section \<open>API keys\<close>

definition hexDigit :: "nat \<Rightarrow> char" where
  "hexDigit n = ''0123456789abcdef'' ! n"

definition EncodeToString :: "8 word list \<Rightarrow> string" where
  "EncodeToString bs = concat (map (\<lambda>b. [hexDigit (unat b div 16), hexDigit (unat b mod 16)]) bs)"

definition hashAPIKey :: "(string \<Rightarrow> 8 word list) \<Rightarrow> string \<Rightarrow> string" where
  "hashAPIKey digest key = EncodeToString (digest key)"

definition validateAPIKey :: "(string \<Rightarrow> 8 word list) \<Rightarrow> string \<Rightarrow> bool" where
  "validateAPIKey digest apiKey =
     (let validKeys = map (hashAPIKey digest)
            [''demo-api-key-123'', ''production-key-456'', ''development-key-789'']
      in hashAPIKey digest apiKey \<in> set validKeys)"

section \<open>Middleware\<close>

type_synonym 's handler = "'s \<Rightarrow> ResponseWriter \<Rightarrow> Request \<Rightarrow> 's \<times> ResponseWriter"

definition set_header :: "string \<Rightarrow> string \<Rightarrow> ResponseWriter \<Rightarrow> ResponseWriter" where
  "set_header k v w = w\<lparr>w_header := Header_Set (w_header w) k v\<rparr>"

definition secure_headers :: "ResponseWriter \<Rightarrow> ResponseWriter" where
  "secure_headers w =
     (let w1 = set_header ''X-Content-Type-Options'' ''nosniff'' w;
          w2 = set_header ''X-Frame-Options'' ''DENY'' w1;
          w3 = set_header ''Strict-Transport-Security'' ''max-age=63072000; includeSubDomains'' w2;
          w4 = set_header ''Content-Security-Policy'' (''default-src '' @ [CHR 39] @ ''self'' @ [CHR 39]) w3;
          w5 = set_header ''X-XSS-Protection'' ''1; mode=block'' w4
      in set_header ''Referrer-Policy'' ''strict-origin-when-cross-origin'' w5)"

definition SecurityHeadersMiddleware :: "'s handler \<Rightarrow> 's handler" where
  "SecurityHeadersMiddleware nxt s w r = nxt s (secure_headers w) r"

text \<open>\<open>rand\<close> is what \<open>crypto/rand\<close> delivers: 16 bytes, or \<open>None\<close> for an error.\<close>

definition generateRequestID :: "8 word list option \<Rightarrow> int \<Rightarrow> string" where
  "generateRequestID rand nowUnixNano =
     (case rand of None \<Rightarrow> Itoa nowUnixNano | Some b \<Rightarrow> EncodeToString b)"

definition RequestIDMiddleware :: "8 word list option \<Rightarrow> int \<Rightarrow> 's handler \<Rightarrow> 's handler" where
  "RequestIDMiddleware rand nowUnixNano nxt s w r =
     (let given = Header_Get (req_Header r) ''x-request-id'';
          requestID = (if given = [] then generateRequestID rand nowUnixNano else given);
          r1 = (if given = [] then r\<lparr>req_Header := Header_Set (req_Header r) ''x-request-id'' requestID\<rparr> else r)
      in nxt s (set_header ''x-request-id'' requestID w) r1)"

section \<open>Client address and public paths\<close>

definition getClientIP :: "Request \<Rightarrow> string" where
  "getClientIP r =
     (let realIP = Header_Get (req_Header r) ''X-Real-IP'';
          xff = Header_Get (req_Header r) ''X-Forwarded-For''
      in if realIP \<noteq> [] then realIP
         else if xff \<noteq> [] then TrimSpace (hd (SplitByte xff CHR '',''))
         else (case SplitHostPort (req_RemoteAddr r) of
                 None \<Rightarrow> req_RemoteAddr r
               | Some (ip, _) \<Rightarrow> ip))"

definition isPublicEndpoint :: "string \<Rightarrow> bool" where
  "isPublicEndpoint path =
     list_ex (HasPrefix path) [''/health'', ''/metrics'', ''/login'', ''/register'', ''/api/v1/public'']"

section \<open>Hexadecimal encoding is injective\<close>

lemma hexDigit_inject: "m < 16 \<Longrightarrow> n < 16 \<Longrightarrow> hexDigit m = hexDigit n \<longleftrightarrow> m = n"
  unfolding hexDigit_def by (subst nth_eq_iff_index_eq) simp_all

lemma hex_byte_inject:
  "hexDigit (unat a div 16) = hexDigit (unat b div 16) \<Longrightarrow>
   hexDigit (unat a mod 16) = hexDigit (unat b mod 16) \<Longrightarrow> a = (b :: 8 word)"
proof -
  assume h: "hexDigit (unat a div 16) = hexDigit (unat b div 16)"
    and l: "hexDigit (unat a mod 16) = hexDigit (unat b mod 16)"
  have "unat a < 256" "unat b < 256" using unsigned_less [of a, where ?'a = nat] unsigned_less [of b, where ?'a = nat] by simp_all
  then have "unat a div 16 < 16" "unat b div 16 < 16" by simp_all
  with h have "unat a div 16 = unat b div 16" by (simp add: hexDigit_inject)
  moreover from l have "unat a mod 16 = unat b mod 16" by (simp add: hexDigit_inject)
  ultimately have "unat a = unat b" by (metis div_mod_decomp)
  then show "a = b" by (simp add: word_unat_eq_iff)
qed

lemma length_EncodeToString [simp]: "length (EncodeToString bs) = 2 * length bs"
  by (induction bs) (simp_all add: EncodeToString_def)

lemma EncodeToString_inject: "EncodeToString as = EncodeToString bs \<longleftrightarrow> as = bs"
proof
  assume eq: "EncodeToString as = EncodeToString bs"
  then have "length as = length bs" by (metis length_EncodeToString mult_cancel1 zero_neq_numeral)
  then show "as = bs" using eq
    by (induction as bs rule: list_induct2) (auto simp: EncodeToString_def dest: hex_byte_inject)
qed simp

lemma generateRequestID_nonempty: "rand \<noteq> Some [] \<Longrightarrow> generateRequestID rand now \<noteq> []"
proof -
  assume "rand \<noteq> Some []"
  moreover have "Itoa_nat n \<noteq> []" for n by (subst Itoa_nat.simps) simp
  then have "Itoa now \<noteq> []" by (simp add: Itoa_def)
  moreover have "EncodeToString b \<noteq> []" if "b \<noteq> []" for b
    using that length_EncodeToString [of b] by (metis length_0_conv mult_is_0 zero_neq_numeral)
  ultimately show ?thesis by (auto simp: generateRequestID_def split: option.split)
qed

lemma get_set_header [simp]:
  "Header_Get (w_header (set_header k v w)) k' =
     (if ToLower k = ToLower k' then v else Header_Get (w_header w) k')"
  by (simp add: set_header_def)

section \<open>Properties\<close>

text \<open>
  C30: an accepted token is an HMAC token signed with the configured secret. Assume of the
  JWT library what it documents: it returns a token only if the key function, called on the
  parsed and not yet validated token, gave a key, and the signature of the token string
  verifies under that key. Then whenever \<open>validateJWT\<close> accepts, the library has returned a
  valid HMAC token with these claims, the token string verifies under the gateway's secret,
  and a numeric expiry has not passed.
\<close>

theorem jwt_accepts_only_signed:
  assumes "\<forall>t kf tok. parse t kf = Inr tok \<longrightarrow>
      (\<exists>key. kf (tok\<lparr>tok_Valid := False\<rparr>) = Inr key \<and> verifies t key)"
    and "validateJWT parse now t cfg = Inr cs"
  shows "verifies t (cf_JWTSecret cfg) \<and>
    (\<exists>tok. parse t (hmac_key cfg) = Inr tok \<and> tok_hmac tok \<and> tok_Valid tok \<and> tok_claims tok = Some cs) \<and>
    (\<forall>e. cs ''exp'' = Some (ClaimNumber e) \<longrightarrow> go_le now e)"
proof -
  from assms(2) obtain tok where p: "parse t (hmac_key cfg) = Inr tok"
    and tok: "tok_claims tok = Some cs" "tok_Valid tok"
    and e: "\<forall>e. cs ''exp'' = Some (ClaimNumber e) \<longrightarrow> go_le now e"
    by (auto simp: validateJWT_def split: sum.splits option.splits if_splits claim.splits)
  from assms(1) p obtain key where "hmac_key cfg (tok\<lparr>tok_Valid := False\<rparr>) = Inr key" "verifies t key" by blast
  then have "tok_hmac tok" "verifies t (cf_JWTSecret cfg)"
    by (auto simp: hmac_key_def split: if_splits)
  with p tok e show ?thesis by blast
qed

text \<open>
  A JWT library for the examples: the token string is the key it is signed with, and the
  token is marked valid after the key function has been asked and the signature compared.
\<close>

definition example_claims :: claims where
  "example_claims = [''sub'' \<mapsto> ClaimString ''u'', ''exp'' \<mapsto> ClaimNumber 100]"

definition example_jwt :: jwt_parse where
  "example_jwt t kf =
     (let tok = \<lparr>tok_hmac = True, tok_alg = ''HS256'', tok_claims = Some example_claims, tok_Valid = False\<rparr>
      in case kf tok of Inl e \<Rightarrow> Inl e
         | Inr key \<Rightarrow> if key = t then Inr (tok\<lparr>tok_Valid := True\<rparr>) else Inl ''signature is invalid'')"

definition example_secret :: Config where
  "example_secret = (LoadConfig \<lparr>dec_Duration = (\<lambda>_. None), dec_Routes = (\<lambda>_. None),
     dec_Strings = (\<lambda>_. None)\<rparr> [])\<lparr>cf_JWTSecret := ''s3cret''\<rparr>"

theorem jwt_accepts_only_signed_witness:
  "validateJWT example_jwt 50 ''s3cret'' example_secret = Inr example_claims \<and>
   ''s3cret'' = cf_JWTSecret example_secret \<and>
   (\<exists>tok. example_jwt ''s3cret'' (hmac_key example_secret) = Inr tok \<and> tok_hmac tok \<and> tok_Valid tok \<and>
      tok_claims tok = Some example_claims)"
proof -
  have law: "\<forall>t kf tok. example_jwt t kf = Inr tok \<longrightarrow>
      (\<exists>key. kf (tok\<lparr>tok_Valid := False\<rparr>) = Inr key \<and> t = key)"
    by (auto simp: example_jwt_def Let_def split: sum.splits if_splits)
  have "validateJWT example_jwt 50 ''s3cret'' example_secret = Inr example_claims"
    by (simp add: validateJWT_def example_jwt_def hmac_key_def example_secret_def example_claims_def)
  with jwt_accepts_only_signed [OF law this] show ?thesis by blast
qed

text \<open>
  An API key is accepted exactly when its digest is the digest of a known key. The hex
  encoding does not confuse digests.
\<close>

theorem api_key_by_digest:
  "validateAPIKey digest k \<longleftrightarrow>
     digest k \<in> digest ` {''demo-api-key-123'', ''production-key-456'', ''development-key-789''}"
  by (auto simp: validateAPIKey_def hashAPIKey_def EncodeToString_inject)

text \<open>
  Every handler behind the middleware chain sees one request id and the security headers.
  If the random source delivers bytes or the clock is read instead, the handler is called
  with a request and a writer that carry the same non-empty \<open>x-request-id\<close>, the client's
  own if it sent one, and the writer has the six security headers.
\<close>

theorem middleware_chain_headers:
  assumes "rand \<noteq> Some []"
  shows "\<exists>w' r'. SecurityHeadersMiddleware (RequestIDMiddleware rand now nxt) s w r = nxt s w' r' \<and>
    Header_Get (req_Header r') ''x-request-id'' \<noteq> [] \<and>
    Header_Get (w_header w') ''x-request-id'' = Header_Get (req_Header r') ''x-request-id'' \<and>
    (Header_Get (req_Header r) ''x-request-id'' = [] \<or> r' = r) \<and>
    map (Header_Get (w_header w'))
      [''X-Content-Type-Options'', ''X-Frame-Options'', ''Strict-Transport-Security'',
       ''Content-Security-Policy'', ''X-XSS-Protection'', ''Referrer-Policy''] =
      [''nosniff'', ''DENY'', ''max-age=63072000; includeSubDomains'',
       ''default-src '' @ [CHR 39] @ ''self'' @ [CHR 39], ''1; mode=block'', ''strict-origin-when-cross-origin'']"
proof -
  let ?given = "Header_Get (req_Header r) ''x-request-id''"
  let ?id = "if ?given = [] then generateRequestID rand now else ?given"
  define w' where "w' = set_header ''x-request-id'' ?id (secure_headers w)"
  define r' where "r' = (if ?given = [] then r\<lparr>req_Header := Header_Set (req_Header r) ''x-request-id'' ?id\<rparr> else r)"
  have "SecurityHeadersMiddleware (RequestIDMiddleware rand now nxt) s w r = nxt s w' r'"
    by (simp add: SecurityHeadersMiddleware_def RequestIDMiddleware_def Let_def w'_def r'_def)
  moreover have "Header_Get (req_Header r') ''x-request-id'' = ?id"
    "Header_Get (w_header w') ''x-request-id'' = ?id" "?given = [] \<or> r' = r"
    by (simp_all add: w'_def r'_def)
  moreover have "?id \<noteq> []" using generateRequestID_nonempty [OF assms] by simp
  moreover have "map (Header_Get (w_header w'))
      [''X-Content-Type-Options'', ''X-Frame-Options'', ''Strict-Transport-Security'',
       ''Content-Security-Policy'', ''X-XSS-Protection'', ''Referrer-Policy''] =
      [''nosniff'', ''DENY'', ''max-age=63072000; includeSubDomains'',
       ''default-src '' @ [CHR 39] @ ''self'' @ [CHR 39], ''1; mode=block'', ''strict-origin-when-cross-origin'']"
    by (simp add: secure_headers_def Let_def w'_def)
  ultimately show ?thesis by metis
qed

definition example_request :: "string \<Rightarrow> string \<Rightarrow> string \<Rightarrow> Request" where
  "example_request method host path =
     \<lparr>req_Method = method, req_Host = host, req_Path = path, req_RawPath = [], req_Query = Map.empty,
      req_Header = Map.empty, req_RemoteAddr = ''1.2.3.4:5'', req_TLS = True\<rparr>"

theorem middleware_chain_headers_witness:
  "\<exists>w' r' :: Request. SecurityHeadersMiddleware (RequestIDMiddleware (Some [1, 255]) 0 (\<lambda>s w r. (s, w))) ()
     (fresh_writer True True) (example_request ''GET'' ''ex.com'' ''/'') = ((), w') \<and>
     Header_Get (w_header w') ''x-request-id'' = Header_Get (req_Header r') ''x-request-id''"
  using middleware_chain_headers [of "Some [1, 255]" 0 "\<lambda>s w r. (s, w)" "()" "fresh_writer True True"
      "example_request ''GET'' ''ex.com'' ''/''"]
  by blast

end
