(* ===== verification/Cache.thy ===== *)
theory Cache
  imports Go_Http
begin

text \<open>
  \<open>handlers.go\<close>, the response cache. Redis is a parameter: the reply to a \<open>GET\<close>, and
  whether \<open>PING\<close> and \<open>SET\<close> succeed. The entries of the store itself belong to the server.
\<close>

datatype redis_reply = ReplyNil | ReplyError string | ReplyValue string

record CacheManager =
  cm_ttl :: duration
  cm_enable :: bool

definition NewCacheManager :: "bool \<Rightarrow> duration \<Rightarrow> bool \<Rightarrow> CacheManager" where
  "NewCacheManager pingOk ttl enable =
     (if \<not> enable then \<lparr>cm_ttl = 0, cm_enable = False\<rparr>
      else if \<not> pingOk then \<lparr>cm_ttl = 0, cm_enable = False\<rparr>
      else \<lparr>cm_ttl = ttl, cm_enable = True\<rparr>)"

text \<open>A hit also increments the counter of cache hits.\<close>

definition cache_Get :: "(string \<Rightarrow> redis_reply) \<Rightarrow> CacheManager \<Rightarrow> string \<Rightarrow> string option" where
  "cache_Get redis cm key =
     (if \<not> cm_enable cm then None
      else case redis key of
          ReplyNil \<Rightarrow> None
        | ReplyError e \<Rightarrow> None
        | ReplyValue v \<Rightarrow> Some v)"

text \<open>The commands \<open>Set\<close> sends; an error reply is only logged.\<close>

definition cache_Set :: "CacheManager \<Rightarrow> string \<Rightarrow> string \<Rightarrow> (string \<times> string \<times> duration) list" where
  "cache_Set cm key v = (if \<not> cm_enable cm then [] else [(key, v, cm_ttl cm)])"

definition GenerateKey :: "Request \<Rightarrow> string" where
  "GenerateKey r = ''cache:'' @ req_Method r @ '':'' @ req_Host r @ '':'' @ req_Path r"

text \<open>
  A cache key determines method, host and path, when the method has no colon, the host no
  slash and the path begins with one.
\<close>

lemma takeWhile_unique:
  "x \<notin> set a \<Longrightarrow> x \<notin> set b \<Longrightarrow> a @ x # u = b @ x # v \<Longrightarrow> a = b \<and> u = v"
proof (induction a arbitrary: b)
  case Nil
  then show ?case by (cases b) auto
next
  case (Cons c a)
  then show ?case by (cases b) auto
qed

lemma GenerateKey_inject:
  assumes "GenerateKey r = GenerateKey q"
    and "CHR '':'' \<notin> set (req_Method r)" "CHR '':'' \<notin> set (req_Method q)"
    and "CHR ''/'' \<notin> set (req_Host r)" "CHR ''/'' \<notin> set (req_Host q)"
    and "HasPrefix (req_Path r) ''/''" "HasPrefix (req_Path q) ''/''"
  shows "req_Method r = req_Method q \<and> req_Host r = req_Host q \<and> req_Path r = req_Path q"
proof -
  from assms(6,7) obtain p p' where p: "req_Path r = CHR ''/'' # p" "req_Path q = CHR ''/'' # p'"
    by (auto simp: HasPrefix_single)
  from takeWhile_unique [OF assms(2,3)] assms(1)
  have m: "req_Method r = req_Method q"
    and "req_Host r @ CHR '':'' # req_Path r = req_Host q @ CHR '':'' # req_Path q"
    by (simp_all add: GenerateKey_def)
  then have "(req_Host r @ '':'') @ CHR ''/'' # p = (req_Host q @ '':'') @ CHR ''/'' # p'" using p by simp
  with takeWhile_unique [of "CHR ''/''" "req_Host r @ '':''" "req_Host q @ '':''" p p'] assms(4,5) m p
  show ?thesis by simp
qed

end
