(* ===== verification/Recorder.thy ===== *)
theory Recorder
  imports Go_Http
begin

text \<open>
  \<open>recorder.go\<close>: the wrapper around the server's response writer that the dispatcher
  uses to learn the status an upstream returned and whether a retry is still possible.
\<close>

record responseRecorder =
  rr_w :: ResponseWriter
  rr_status :: int
  rr_committed :: bool
  rr_bytes :: int64

definition newResponseRecorder :: "ResponseWriter \<Rightarrow> responseRecorder" where
  "newResponseRecorder w = \<lparr>rr_w = w, rr_status = 0, rr_committed = False, rr_bytes = 0\<rparr>"

definition rr_WriteHeader :: "responseRecorder \<Rightarrow> int \<Rightarrow> responseRecorder" where
  "rr_WriteHeader rr code =
     (if rr_committed rr then rr
      else rr\<lparr>rr_status := code, rr_committed := True, rr_w := w_WriteHeader (rr_w rr) code\<rparr>)"

definition rr_Write :: "responseRecorder \<Rightarrow> string \<Rightarrow> responseRecorder \<times> nat \<times> bool" where
  "rr_Write rr b =
     (let rr1 = (if \<not> rr_committed rr then rr_WriteHeader rr 200 else rr);
          (w, n, ok) = w_Write (rr_w rr1) b
      in (rr1\<lparr>rr_w := w, rr_bytes := rr_bytes rr1 + word_of_nat n\<rparr>, n, ok))"

definition rr_Status :: "responseRecorder \<Rightarrow> int" where
  "rr_Status rr = (if rr_status rr = 0 then 200 else rr_status rr)"

definition rr_Committed :: "responseRecorder \<Rightarrow> bool" where
  "rr_Committed rr = rr_committed rr"

definition rr_BytesWritten :: "responseRecorder \<Rightarrow> int64" where
  "rr_BytesWritten rr = rr_bytes rr"

definition rr_Flush :: "responseRecorder \<Rightarrow> responseRecorder" where
  "rr_Flush rr = (if w_canFlush (rr_w rr) then rr\<lparr>rr_w := w_Flush (rr_w rr)\<rparr> else rr)"

text \<open>The second component is false for an error return.\<close>

definition rr_Hijack :: "responseRecorder \<Rightarrow> responseRecorder \<times> bool" where
  "rr_Hijack rr =
     (if \<not> w_canHijack (rr_w rr) then (rr, False)
      else let rr1 = rr\<lparr>rr_committed := True,
                        rr_status := (if rr_status rr = 0 then 101 else rr_status rr)\<rparr>;
               (w, ok) = w_Hijack (rr_w rr1)
           in (rr1\<lparr>rr_w := w\<rparr>, ok))"

definition rr_Unwrap :: "responseRecorder \<Rightarrow> ResponseWriter" where
  "rr_Unwrap rr = rr_w rr"

text \<open>
  What a handler can do to the recorder: set a response header, send a status, write a
  piece of body, flush, or hijack the connection.
\<close>

datatype writer_event =
    EvHeader string string
  | EvWriteHeader int
  | EvWrite string
  | EvFlush
  | EvHijack

fun rr_step :: "responseRecorder \<Rightarrow> writer_event \<Rightarrow> responseRecorder" where
  "rr_step rr (EvHeader k v) =
     rr\<lparr>rr_w := (rr_w rr)\<lparr>w_header := Header_Add (w_header (rr_w rr)) k v\<rparr>\<rparr>"
| "rr_step rr (EvWriteHeader code) = rr_WriteHeader rr code"
| "rr_step rr (EvWrite b) = fst (rr_Write rr b)"
| "rr_step rr EvFlush = rr_Flush rr"
| "rr_step rr EvHijack = fst (rr_Hijack rr)"

abbreviation rr_run :: "responseRecorder \<Rightarrow> writer_event list \<Rightarrow> responseRecorder" where
  "rr_run rr evs \<equiv> foldl rr_step rr evs"

text \<open>
  \<open>http.Error\<close> on the recorder: the same calls as on the plain writer, through the
  wrapper's methods.
\<close>

definition rr_Error :: "responseRecorder \<Rightarrow> string \<Rightarrow> int \<Rightarrow> responseRecorder" where
  "rr_Error rr msg code =
     (let w = rr_w rr;
          h = Header_Set (Header_Set (Header_Del (w_header w) ''Content-Length'')
                ''Content-Type'' ''text/plain; charset=utf-8'')
                ''X-Content-Type-Options'' ''nosniff'';
          rr1 = rr_WriteHeader (rr\<lparr>rr_w := w\<lparr>w_header := h\<rparr>\<rparr>) code
      in fst (rr_Write rr1 (msg @ [CHR 0x0A])))"

lemmas recorder_defs =
  newResponseRecorder_def rr_WriteHeader_def rr_Write_def rr_Status_def rr_Committed_def
  rr_BytesWritten_def rr_Flush_def rr_Hijack_def

section \<open>Commitment is permanent\<close>

lemma rr_step_committed: "rr_committed rr \<Longrightarrow> rr_committed (rr_step rr ev)"
  by (cases ev) (auto simp: recorder_defs Let_def split: prod.splits)

lemma rr_step_status:
  "rr_committed rr \<Longrightarrow> rr_status rr \<noteq> 0 \<Longrightarrow> rr_status (rr_step rr ev) = rr_status rr"
  by (cases ev) (auto simp: recorder_defs Let_def split: prod.splits)

text \<open>The invariant: nothing is recorded before commitment, and a committed recorder has a status.\<close>

definition rr_inv :: "responseRecorder \<Rightarrow> bool" where
  "rr_inv rr \<longleftrightarrow> (rr_committed rr \<longleftrightarrow> rr_status rr \<noteq> 0)"

definition nonzero_code :: "writer_event \<Rightarrow> bool" where
  "nonzero_code ev \<longleftrightarrow> (case ev of EvWriteHeader code \<Rightarrow> code \<noteq> 0 | _ \<Rightarrow> True)"

lemma rr_inv_new [gw_inv]: "rr_inv (newResponseRecorder w)"
  by (simp add: rr_inv_def newResponseRecorder_def)

lemma rr_inv_step [gw_inv]: "rr_inv rr \<Longrightarrow> nonzero_code ev \<Longrightarrow> rr_inv (rr_step rr ev)"
  by (cases ev) (auto simp: rr_inv_def nonzero_code_def recorder_defs Let_def split: prod.splits)

section \<open>Agreement with the wire\<close>

text \<open>
  The recorder and the writer agree when what the recorder reports is what the client got:
  uncommitted means that no final status has been sent; committed means that the reported
  status is the one on the wire, or 101 for a connection that was handed over. There is one
  exception the wrapper has by construction: an interim status commits it, so that it reports
  the interim code while the wire has no final status yet, or 200.
\<close>

definition agrees :: "responseRecorder \<Rightarrow> bool" where
  "agrees rr \<longleftrightarrow>
     (if rr_committed rr
      then rr_status rr \<noteq> 0 \<and>
        (w_status (rr_w rr) = Some (rr_status rr) \<or>
         w_hijacked (rr_w rr) \<and> w_status (rr_w rr) = None \<and> rr_status rr = 101 \<or>
         informational (rr_status rr) \<and> w_status (rr_w rr) \<in> {None, Some 200})
      else w_status (rr_w rr) = None \<and> \<not> w_hijacked (rr_w rr) \<and> rr_status rr = 0)"

text \<open>
  The events for which the wrapper keeps the agreement: codes that net/http accepts (it
  panics on 0), and a flush only after the status has been sent.
\<close>

definition faithful_event :: "responseRecorder \<Rightarrow> writer_event \<Rightarrow> bool" where
  "faithful_event rr ev \<longleftrightarrow>
     (case ev of
        EvWriteHeader code \<Rightarrow> code \<noteq> 0
      | EvFlush \<Rightarrow> rr_committed rr
      | _ \<Rightarrow> True)"

fun faithful_run :: "responseRecorder \<Rightarrow> writer_event list \<Rightarrow> bool" where
  "faithful_run rr [] = True"
| "faithful_run rr (ev # evs) \<longleftrightarrow> faithful_event rr ev \<and> faithful_run (rr_step rr ev) evs"

definition fresh :: "ResponseWriter \<Rightarrow> bool" where
  "fresh w \<longleftrightarrow> w_status w = None \<and> \<not> w_hijacked w \<and> w_body w = [] \<and> w_contentLength w = None \<and> w_written w = 0"

lemma agrees_new: "fresh w \<Longrightarrow> agrees (newResponseRecorder w)"
  by (simp add: fresh_def agrees_def newResponseRecorder_def)

lemma rr_Write_parts:
  "rr_Write rr b =
     (let rr1 = (if rr_committed rr then rr else rr_WriteHeader rr 200)
      in (rr1\<lparr>rr_w := fst (w_Write (rr_w rr1) b),
              rr_bytes := rr_bytes rr1 + word_of_nat (fst (snd (w_Write (rr_w rr1) b)))\<rparr>,
          snd (w_Write (rr_w rr1) b)))"
  by (simp add: rr_Write_def Let_def split: prod.split)

lemma rr_Hijack_parts:
  "fst (rr_Hijack rr) =
     (if w_canHijack (rr_w rr)
      then rr\<lparr>rr_committed := True, rr_status := (if rr_status rr = 0 then 101 else rr_status rr),
              rr_w := fst (w_Hijack (rr_w rr))\<rparr>
      else rr)"
  by (simp add: rr_Hijack_def Let_def split: prod.split)

lemmas step_defs =
  rr_WriteHeader_def rr_Write_parts rr_Flush_def rr_Hijack_parts rr_Status_def Let_def

lemma agrees_step:
  assumes "agrees rr" and "faithful_event rr ev"
  shows "agrees (rr_step rr ev)"
  using assms
  by (cases ev)
    (auto simp: agrees_def faithful_event_def step_defs w_WriteHeader_status w_Write_status w_Flush_status
      split: if_splits)

lemma agrees_run: "agrees rr \<Longrightarrow> faithful_run rr evs \<Longrightarrow> agrees (rr_run rr evs)"
  by (induction evs arbitrary: rr) (auto simp: agrees_step)

text \<open>A run that sends a status or writes a piece of body commits the recorder.\<close>

definition commits :: "writer_event list \<Rightarrow> bool" where
  "commits evs \<longleftrightarrow> list_ex (\<lambda>ev. case ev of EvWriteHeader _ \<Rightarrow> True | EvWrite _ \<Rightarrow> True | _ \<Rightarrow> False) evs"

lemma committed_run: "rr_committed rr \<Longrightarrow> rr_committed (rr_run rr evs)"
  by (induction evs arbitrary: rr) (auto simp: rr_step_committed)

lemma commits_run: "commits evs \<Longrightarrow> rr_Committed (rr_run rr evs)"
proof (induction evs arbitrary: rr)
  case (Cons ev evs)
  have "rr_committed (rr_step rr ev)"
    if "case ev of EvWriteHeader _ \<Rightarrow> True | EvWrite _ \<Rightarrow> True | _ \<Rightarrow> False"
    using that by (cases ev) (auto simp: recorder_defs Let_def split: prod.splits)
  with Cons show ?case by (auto simp: commits_def rr_Committed_def committed_run)
qed (simp add: commits_def)

section \<open>Properties\<close>

interpretation committed: invariant_machine rr_step
  "\<lambda>rr. rr_committed rr \<and> rr_status rr \<noteq> 0 \<and> rr_status rr = c" for c
  by unfold_locales (simp add: rr_step_committed rr_step_status)

text \<open>
  The first status wins. Once a recorder is committed with a status, no sequence of
  later header, status, body, flush or hijack calls changes the status it reports or makes
  it uncommitted.
\<close>

theorem first_status_is_final:
  assumes "rr_Committed rr" and "rr_status rr \<noteq> 0"
  shows "rr_Committed (rr_run rr evs) \<and> rr_Status (rr_run rr evs) = rr_Status rr"
  using committed.run_inv [of rr "rr_status rr" evs] assms
  by (simp add: rr_Committed_def rr_Status_def)

theorem first_status_is_final_witness:
  "rr_Status (rr_run (rr_WriteHeader (newResponseRecorder (fresh_writer True True)) 502)
     [EvWriteHeader 200, EvWrite ''hello'', EvHijack]) = 502"
proof -
  let ?rr = "rr_WriteHeader (newResponseRecorder (fresh_writer True True)) 502"
  have "rr_Committed ?rr" and "rr_status ?rr \<noteq> 0" and "rr_Status ?rr = 502"
    by (simp_all add: recorder_defs)
  with first_status_is_final [of ?rr "[EvWriteHeader 200, EvWrite ''hello'', EvHijack]"]
  show ?thesis by simp
qed

text \<open>
  The call that opens the response: the first one that is not a header change, where a
  flush or a hijack of a writer that cannot do it is no call at all.
\<close>

definition opens :: "ResponseWriter \<Rightarrow> writer_event \<Rightarrow> bool" where
  "opens w ev \<longleftrightarrow> (case ev of EvHeader k v \<Rightarrow> False | EvFlush \<Rightarrow> w_canFlush w | EvHijack \<Rightarrow> w_canHijack w | _ \<Rightarrow> True)"

lemma opens_header [simp]: "opens (w\<lparr>w_header := h\<rparr>) = opens w"
  by (simp add: opens_def fun_eq_iff split: writer_event.split)

lemma opens_step [simp]: "opens (rr_w (rr_step rr ev)) = opens (rr_w rr)"
  by (cases ev) (simp_all add: opens_def step_defs fun_eq_iff split: writer_event.split)

text \<open>
  What stays true of recorder and writer for good once the response is opened: by a final
  status \<open>c\<close>, by an interim one, by a flush or by a hijack. The byte count is right in
  every state.
\<close>

lemmas wire_simps = step_defs w_WriteHeader_status w_Write_status w_Flush_status

interpretation reported: invariant_machine rr_step
  "\<lambda>rr. rr_committed rr \<and> rr_status rr = c \<and> c \<noteq> 0 \<and> w_status (rr_w rr) = Some c" for c
  by (unfold_locales, rename_tac rr ev, case_tac ev) (auto simp: wire_simps)

interpretation interim: invariant_machine rr_step
  "\<lambda>rr. rr_committed rr \<and> rr_status rr = c \<and> c \<noteq> 0 \<and> w_status (rr_w rr) \<in> {None, Some 200}" for c
  by (unfold_locales, rename_tac rr ev, case_tac ev) (auto simp: wire_simps)

interpretation flushed: invariant_machine rr_step "\<lambda>rr. w_status (rr_w rr) = Some 200"
  by (unfold_locales, rename_tac rr ev, case_tac ev) (auto simp: wire_simps)

interpretation handed_over: invariant_machine rr_step
  "\<lambda>rr. rr_committed rr \<and> rr_status rr = 101 \<and> w_hijacked (rr_w rr) \<and> w_status (rr_w rr) = None"
  by (unfold_locales, rename_tac rr ev, case_tac ev) (auto simp: wire_simps)

interpretation counted_bytes: invariant_machine rr_step
  "\<lambda>rr. rr_bytes rr = word_of_nat (length (w_body (rr_w rr)))"
  by (unfold_locales, rename_tac rr ev, case_tac ev)
    (auto simp: step_defs w_Write_body min_absorb2 w_Write_count)

lemma commits_iff:
  "rr_committed (rr_run rr evs) \<longleftrightarrow> rr_committed rr \<or> list_ex (\<lambda>ev. ev \<noteq> EvFlush \<and> opens (rr_w rr) ev) evs"
proof (induction evs arbitrary: rr)
  case (Cons ev evs)
  have "rr_committed (rr_step rr ev) \<longleftrightarrow> rr_committed rr \<or> ev \<noteq> EvFlush \<and> opens (rr_w rr) ev"
    by (cases ev) (simp_all add: opens_def step_defs)
  with Cons show ?case by auto
qed simp

text \<open>How the call that opens a response decides about status and commitment.\<close>

definition opened_by :: "responseRecorder \<Rightarrow> writer_event option \<Rightarrow> bool" where
  "opened_by rr opening \<longleftrightarrow>
     (case opening of
        None \<Rightarrow> \<not> rr_Committed rr \<and> w_status (rr_w rr) = None \<and> \<not> w_hijacked (rr_w rr)
      | Some (EvWriteHeader code) \<Rightarrow> rr_Committed rr \<and> rr_Status rr = code \<and>
          (if informational code then w_status (rr_w rr) \<in> {None, Some 200} else w_status (rr_w rr) = Some code)
      | Some (EvWrite b) \<Rightarrow> rr_Committed rr \<and> rr_Status rr = 200 \<and> w_status (rr_w rr) = Some 200
      | Some EvFlush \<Rightarrow> w_status (rr_w rr) = Some 200
      | Some EvHijack \<Rightarrow> rr_Committed rr \<and> rr_Status rr = 101 \<and> w_hijacked (rr_w rr) \<and> w_status (rr_w rr) = None
      | Some (EvHeader k v) \<Rightarrow> False)"

lemma opened_by_first:
  assumes "\<not> rr_committed rr" "rr_status rr = 0" "w_status (rr_w rr) = None" "\<not> w_hijacked (rr_w rr)"
    and "opens (rr_w rr) ev" "nonzero_code ev"
  shows "opened_by (rr_run (rr_step rr ev) evs) (Some ev)"
proof (cases ev)
  case (EvWriteHeader code)
  with assms reported.run_inv [of "rr_step rr ev" code evs] interim.run_inv [of "rr_step rr ev" code evs]
  show ?thesis
    by (auto simp: opened_by_def nonzero_code_def rr_Committed_def rr_Status_def rr_WriteHeader_def w_WriteHeader_status)
next
  case (EvWrite b)
  with assms reported.run_inv [of "rr_step rr ev" 200 evs] show ?thesis
    by (simp add: opened_by_def rr_Committed_def wire_simps)
next
  case EvFlush
  with assms flushed.run_inv [of "rr_step rr ev" evs] show ?thesis
    by (simp add: opened_by_def opens_def wire_simps)
next
  case EvHijack
  with assms handed_over.run_inv [of "rr_step rr ev" evs] show ?thesis
    by (simp add: opened_by_def opens_def rr_Committed_def wire_simps)
qed (use assms in \<open>simp add: opens_def\<close>)

lemma idle_step:
  assumes "\<not> opens (rr_w rr) ev"
  shows "rr_committed (rr_step rr ev) = rr_committed rr" "rr_status (rr_step rr ev) = rr_status rr"
    "w_status (rr_w (rr_step rr ev)) = w_status (rr_w rr)" "w_hijacked (rr_w (rr_step rr ev)) = w_hijacked (rr_w rr)"
  using assms by (cases ev; simp add: opens_def wire_simps)+

lemma opened_by_run:
  assumes "\<not> rr_committed rr" "rr_status rr = 0" "w_status (rr_w rr) = None" "\<not> w_hijacked (rr_w rr)"
    and "list_all nonzero_code evs"
  shows "opened_by (rr_run rr evs) (find (opens (rr_w rr)) evs)"
  using assms
proof (induction evs arbitrary: rr)
  case (Cons ev evs)
  show ?case
  proof (cases "opens (rr_w rr) ev")
    case True
    with Cons.prems opened_by_first [of rr ev evs] show ?thesis by simp
  next
    case False
    with Cons.prems Cons.IH [of "rr_step rr ev"] show ?thesis
      by (simp add: idle_step)
  qed
qed (simp add: opened_by_def rr_Committed_def)

text \<open>
  C39: what the recorder reports, compared with what reaches the client, for every sequence
  of calls with codes that net/http accepts on a writer on which nothing was sent. The call
  that opens the response decides. With no such call nothing is committed and nothing sent,
  so a retry is safe; opened by a final status or by a write, the reported status is the one
  on the wire; opened by a hijack, 101 is reported for the connection handed over. In the two
  remaining cases the wrapper is wrong: opened by an interim status it reports that code and
  the client gets 200, and opened by a flush the wire has 200 while the recorder stays
  uncommitted until one of the other calls is made. The byte count is the length of
  the body sent, modulo the counter's width.
\<close>

theorem recorder_reports_the_wire:
  assumes "fresh w" and "list_all nonzero_code evs"
  shows "let rr = rr_run (newResponseRecorder w) evs; out = rr_Unwrap rr in
    (case find (opens w) evs of
       None \<Rightarrow> \<not> rr_Committed rr \<and> w_status out = None \<and> \<not> w_hijacked out
     | Some (EvWriteHeader code) \<Rightarrow> rr_Committed rr \<and> rr_Status rr = code \<and>
         (if informational code then w_status out \<in> {None, Some 200} else w_status out = Some code)
     | Some (EvWrite b) \<Rightarrow> rr_Committed rr \<and> rr_Status rr = 200 \<and> w_status out = Some 200
     | Some EvFlush \<Rightarrow> w_status out = Some 200
     | Some EvHijack \<Rightarrow> rr_Committed rr \<and> rr_Status rr = 101 \<and> w_hijacked out \<and> w_status out = None
     | Some (EvHeader k v) \<Rightarrow> False) \<and>
    (rr_Committed rr \<longleftrightarrow> list_ex (\<lambda>ev. ev \<noteq> EvFlush \<and> opens w ev) evs) \<and>
    rr_BytesWritten rr = word_of_nat (length (w_body out))"
proof -
  let ?rr = "newResponseRecorder w"
  have "opened_by (rr_run ?rr evs) (find (opens w) evs)"
    using opened_by_run [of ?rr evs] assms by (simp add: newResponseRecorder_def fresh_def)
  moreover have "rr_bytes (rr_run ?rr evs) = word_of_nat (length (w_body (rr_w (rr_run ?rr evs))))"
    using assms(1) by (intro counted_bytes.run_inv) (simp add: newResponseRecorder_def fresh_def)
  moreover have "rr_committed (rr_run ?rr evs) \<longleftrightarrow> list_ex (\<lambda>ev. ev \<noteq> EvFlush \<and> opens w ev) evs"
    by (simp add: commits_iff) (simp add: newResponseRecorder_def)
  ultimately show ?thesis
    by (simp add: opened_by_def rr_Committed_def rr_Unwrap_def rr_BytesWritten_def Let_def)
qed

theorem recorder_reports_the_wire_witness:
  "w_status (rr_Unwrap (rr_run (newResponseRecorder (fresh_writer True True))
     [EvHeader ''Server'' ''x'', EvWriteHeader 404, EvWrite ''gone'', EvFlush])) = Some 404"
proof -
  let ?evs = "[EvHeader ''Server'' ''x'', EvWriteHeader 404, EvWrite ''gone'', EvFlush]"
  have f: "fresh (fresh_writer True True)" by (simp add: fresh_def fresh_writer_def)
  have r: "list_all nonzero_code ?evs" by (simp add: nonzero_code_def)
  have "find (opens (fresh_writer True True)) ?evs = Some (EvWriteHeader 404)" by (simp add: opens_def)
  with recorder_reports_the_wire [OF f r] show ?thesis
    by (simp add: Let_def informational_def del: rr_step.simps foldl.simps)
qed

text \<open>
  An interim response makes the wrapper lose the final status. When a handler forwards
  an informational status (such as 103) and then the final status and a body, the wrapper
  treats the interim status as the commitment: it drops the final status, the client gets
  200, and the recorder reports the interim code.
\<close>

theorem interim_status_hides_final_status:
  assumes "fresh w" and "informational i" and "b \<noteq> []"
  shows "let rr = rr_run (newResponseRecorder w) [EvWriteHeader i, EvWriteHeader code, EvWrite b] in
    w_info (rr_w rr) = w_info w @ [i] \<and> w_status (rr_w rr) = Some 200 \<and> rr_Status rr = i"
proof -
  have "i \<noteq> 0" using assms(2) by (auto simp: informational_def)
  then show ?thesis
    using assms
    by (simp add: fresh_def newResponseRecorder_def wire_simps w_WriteHeader_def)
qed

theorem interim_status_hides_final_status_witness:
  "w_status (rr_w (rr_run (newResponseRecorder (fresh_writer True True))
     [EvWriteHeader 103, EvWriteHeader 500, EvWrite ''boom''])) = Some 200"
  using interim_status_hides_final_status [of "fresh_writer True True" 103 "''boom''" 500]
  by (simp add: fresh_def fresh_writer_def informational_def Let_def)

end
