(* ===== verification/Gateway.thy ===== *)
theory Gateway
  imports Collectors Load_Balancing Router Edge_Protection Circuit_Breaker Auth Cache Recorder
begin

text \<open>
  \<open>main.go\<close>, the gateway: its construction from the configuration and the handler
  \<open>ServeHTTP\<close>, from the first check to the last retry. Everything outside the process is
  a parameter of the handler (record \<open>Env\<close>): clock readings, the token bucket, JWT and
  Redis libraries, SHA-256, the metrics library's test of labels, and what the reverse proxy
  does in each attempt. The log and tracing calls are the subject of \<open>Request_Trace\<close>.
\<close>

section \<open>State\<close>

text \<open>
  The Prometheus collectors and dashboard counters the handler changes: the label triples
  with which \<open>requestsTotal\<close> was incremented and the pairs under which \<open>requestDuration\<close>
  observed a latency, the gauge of active connections (the dashboard's copy moves with it),
  and the counters of requests, blocks, trips and cache hits.
\<close>

record Metrics =
  mt_requests :: "(string \<times> string \<times> string) list"
  mt_durations :: "(string \<times> string) list"
  mt_active :: int64
  mt_total :: int64
  mt_blocked :: nat
  mt_trips :: nat
  mt_cacheHits :: nat

record ('r, 'l) Gateway =
  gw_router :: ServiceRouter
  gw_rateLimiter :: "('r, 'l) IPRateLimiter"
  gw_ddosProtection :: DDoSProtection
  gw_circuitBreaker :: CircuitBreaker
  gw_cacheManager :: CacheManager
  gw_cfg :: Config
  gw_metrics :: Metrics

definition no_metrics :: Metrics where
  "no_metrics = \<lparr>mt_requests = [], mt_durations = [], mt_active = 0, mt_total = 0, mt_blocked = 0, mt_trips = 0,
     mt_cacheHits = 0\<rparr>"

text \<open>\<open>rateLimit\<close> is the conversion \<open>rate.Limit(n)\<close>; \<open>pingOk\<close> the answer of Redis.\<close>

definition NewGateway :: "url_lib \<Rightarrow> (goint \<Rightarrow> 'r) \<Rightarrow> bool \<Rightarrow> Config \<Rightarrow> ('r, 'l) Gateway" where
  "NewGateway urls rateLimit pingOk cfg =
     \<lparr>gw_router = foldl (AddRoute urls (cf_LoadBalancingAlgo cfg) cfg) NewServiceRouter (cf_ServiceRoutes cfg),
      gw_rateLimiter = NewIPRateLimiter (rateLimit (cf_MaxRequestsPerSecond cfg)) (cf_MaxBurstSize cfg),
      gw_ddosProtection = NewDDoSProtection (cf_DDoSThreshold cfg) (cf_BlockDuration cfg),
      gw_circuitBreaker = NewCircuitBreaker (cf_CircuitBreakerMax cfg) (cf_CircuitBreakerTimeout cfg),
      gw_cacheManager = NewCacheManager pingOk (cf_CacheTTL cfg) (cf_EnableCaching cfg),
      gw_cfg = cfg, gw_metrics = no_metrics\<rparr>"

text \<open>
  The environment of one request. The functions of \<open>nat\<close> are indexed by the attempt;
  \<open>en_proxy\<close> is \<open>ReverseProxy.ServeHTTP\<close> with the error that its \<open>ErrorHandler\<close>
  puts into the sink: the calls on the response writer and the outcome. \<open>en_labels\<close> tells
  which label values the metrics library accepts for a collector; \<open>WithLabelValues\<close> panics
  on the others.
\<close>

record ('r, 'l, 'f) Env =
  en_rate :: "('r, 'l, 'f) rate_lib"
  en_jwt :: jwt_parse
  en_digest :: "string \<Rightarrow> 8 word list"
  en_redis :: "string \<Rightarrow> redis_reply"
  en_nowBlock :: instant
  en_nowRecord :: instant
  en_nowAllow :: instant
  en_nowUnix :: int64
  en_admit :: "nat \<Rightarrow> instant"
  en_settle :: "nat \<Rightarrow> instant"
  en_failed :: "nat \<Rightarrow> instant"
  en_stamp :: "nat \<Rightarrow> string"
  en_labels :: "Collector \<Rightarrow> string list \<Rightarrow> bool"
  en_proxy :: "nat \<Rightarrow> ReverseProxy \<Rightarrow> duration \<Rightarrow> Request \<Rightarrow> writer_event list \<times> string outcome"

section \<open>One proxied attempt\<close>

text \<open>
  What an attempt can change: the pool of the matched route, the recorder, the request (the
  copy made by \<open>WithContext\<close> shares its header map) and the gauge of active connections.
\<close>

record Flight =
  fl_pool :: ServicePool
  fl_rec :: responseRecorder
  fl_req :: Request
  fl_active :: int64

definition forward_headers :: "string \<Rightarrow> string \<Rightarrow> header \<Rightarrow> header" where
  "forward_headers ip stamp h =
     (let prior = Header_Get h ''X-Forwarded-For'';
          h1 = (if prior \<noteq> [] \<and> prior \<noteq> ip then Header_Set h ''X-Forwarded-For'' (prior @ '', '' @ ip)
                else Header_Set h ''X-Forwarded-For'' ip);
          h2 = Header_Set h1 ''X-Real-IP'' ip
      in Header_Set h2 ''X-Gateway-Time'' stamp)"

text \<open>The function passed to the breaker; the deferred calls run on a panic as well.\<close>

definition proxy_attempt ::
  "('r, 'l, 'f) Env \<Rightarrow> nat \<Rightarrow> duration \<Rightarrow> string \<Rightarrow> nat \<Rightarrow> Flight \<Rightarrow> Flight \<times> string outcome" where
  "proxy_attempt env attempt timeout ip backend fl =
     (let pool1 = upd_backend IncConnections backend (fl_pool fl);
          active1 = fl_active fl + 1;
          req1 = (fl_req fl)\<lparr>req_Header := forward_headers ip (en_stamp env attempt) (req_Header (fl_req fl))\<rparr>;
          (evs, out) = en_proxy env attempt (be_ReverseProxy (sp_backends pool1 ! backend)) timeout req1;
          rec1 = rr_run (fl_rec fl) evs;
          active2 = active1 - 1;
          pool2 = upd_backend DecConnections backend pool1
      in (\<lparr>fl_pool = pool2, fl_rec = rec1, fl_req = req1, fl_active = active2\<rparr>, out))"

section \<open>Retry and failover\<close>

datatype loop_end =
    Completed nat
  | MidResponse
  | Exhausted string
  | Aborted

definition backoff :: "nat \<Rightarrow> duration" where
  "backoff attempt = push_bit attempt 1 * 100 * millisecond"

text \<open>
  The loop over the attempts. It returns the breaker, the flight, the trips of the breaker,
  the sleeps between attempts and how it ended; \<open>Completed\<close> names the backend that served.
  This is the loop of one request: nothing else changes pool and breaker while it sleeps or
  is between two calls. \<open>Concurrent_Requests\<close> has the loop with other requests and health
  checks interleaved, and what is claimed there holds with them. The end \<open>Inl\<close>, a panic of
  \<open>NextPeer\<close>, carries no state.
\<close>

fun attempt_loop ::
  "('r, 'l, 'f) Env \<Rightarrow> duration \<Rightarrow> string \<Rightarrow> nat list \<Rightarrow> nat \<Rightarrow> string \<Rightarrow> CircuitBreaker \<Rightarrow> Flight \<Rightarrow>
   go_panic + CircuitBreaker \<times> Flight \<times> nat \<times> duration list \<times> loop_end" where
  "attempt_loop env timeout ip [] backend lastErr cb fl = Inr (cb, fl, 0, [], Exhausted lastErr)"
| "attempt_loop env timeout ip (attempt # rest) backend lastErr cb fl =
     (case Call (en_admit env attempt) (en_settle env attempt)
             (proxy_attempt env attempt timeout ip backend) cb fl of
        ((cb1, fl1), out, tripped) \<Rightarrow>
          (let trips = (if tripped then 1 else 0) in
           case out of
             Success \<Rightarrow> Inr (cb1, fl1, trips, [], Completed backend)
           | Panicked \<Rightarrow> Inr (cb1, fl1, trips, [], Aborted)
           | Failure err \<Rightarrow>
               let fl2 = fl1\<lparr>fl_pool := upd_backend (RecordFailure (en_failed env attempt)) backend (fl_pool fl1)\<rparr>
               in if rr_Committed (fl_rec fl2) then Inr (cb1, fl2, trips, [], MidResponse)
                  else if attempt < 2 then
                    (case NextPeer (en_digest env) (fl_pool fl2) ip of
                       Inl p \<Rightarrow> Inl p
                     | Inr (pool, peer) \<Rightarrow>
                         map_sum id (\<lambda>(cb', fl', n, sleeps, e). (cb', fl', trips + n, backoff attempt # sleeps, e))
                           (attempt_loop env timeout ip rest
                              (case peer of None \<Rightarrow> backend | Some nxt \<Rightarrow> nxt) err cb1
                              (fl2\<lparr>fl_pool := pool\<rparr>)))
                  else
                    map_sum id (\<lambda>(cb', fl', n, sleeps, e). (cb', fl', trips + n, sleeps, e))
                      (attempt_loop env timeout ip rest backend err cb1 fl2)))"

section \<open>The handler\<close>

datatype serve_end = Finished | AbortedHandler

type_synonym ('r, 'l) served = "go_panic + ('r, 'l) Gateway \<times> ResponseWriter \<times> serve_end"

definition count_request :: "Request \<Rightarrow> int \<Rightarrow> Metrics \<Rightarrow> Metrics" where
  "count_request r status mt =
     mt\<lparr>mt_requests := mt_requests mt @ [(req_Method r, req_Path r, Itoa status)]\<rparr>"

abbreviation upd_metrics :: "(Metrics \<Rightarrow> Metrics) \<Rightarrow> ('r, 'l) Gateway \<Rightarrow> ('r, 'l) Gateway" where
  "upd_metrics f gw \<equiv> gw\<lparr>gw_metrics := f (gw_metrics gw)\<rparr>"

text \<open>
  A return from the handler: the request is counted, and then the deferred function observes
  the latency. Either step panics if the library refuses the labels; the counter is not
  changed then, but the deferred function still runs.
\<close>

definition counted ::
  "('r, 'l, 'f) Env \<Rightarrow> Request \<Rightarrow> int \<Rightarrow> ('r, 'l) Gateway \<Rightarrow> ('r, 'l) Gateway \<times> serve_end" where
  "counted env r status gw =
     (if en_labels env requestsTotal [req_Method r, req_Path r, Itoa status]
      then (upd_metrics (count_request r status) gw, Finished) else (gw, AbortedHandler))"

definition observed ::
  "('r, 'l, 'f) Env \<Rightarrow> Request \<Rightarrow> ('r, 'l) Gateway \<times> serve_end \<Rightarrow> ('r, 'l) Gateway \<times> serve_end" where
  "observed env r res =
     (case res of (gw, e) \<Rightarrow>
        if en_labels env requestDuration [req_Method r, req_Path r]
        then (upd_metrics (\<lambda>mt. mt\<lparr>mt_durations := mt_durations mt @ [(req_Method r, req_Path r)]\<rparr>) gw, e)
        else (gw, AbortedHandler))"

definition leave ::
  "('r, 'l, 'f) Env \<Rightarrow> Request \<Rightarrow> ResponseWriter \<Rightarrow> ('r, 'l) Gateway \<times> serve_end \<Rightarrow> ('r, 'l) served" where
  "leave env r w res = (case observed env r res of (gw, e) \<Rightarrow> Inr (gw, w, e))"

definition reject ::
  "('r, 'l, 'f) Env \<Rightarrow> ('r, 'l) Gateway \<Rightarrow> ResponseWriter \<Rightarrow> Request \<Rightarrow> string \<Rightarrow> int \<Rightarrow> ('r, 'l) served" where
  "reject env gw w r msg code = leave env r (http_Error w msg code) (counted env r code gw)"

text \<open>Whether the request carries valid credentials, and the user id for the trace.\<close>

definition authenticate :: "('r, 'l, 'f) Env \<Rightarrow> Config \<Rightarrow> Request \<Rightarrow> bool \<times> string" where
  "authenticate env cfg r =
     (let authHeader = Header_Get (req_Header r) ''Authorization'';
          apiKey = Header_Get (req_Header r) ''X-API-Key''
      in if HasPrefix authHeader ''Bearer '' then
           (case validateJWT (en_jwt env) (en_nowUnix env) (TrimPrefix authHeader ''Bearer '') cfg of
              Inl err \<Rightarrow> (False, [])
            | Inr cs \<Rightarrow> (True, case cs ''sub'' of Some (ClaimString sub) \<Rightarrow> sub | _ \<Rightarrow> []))
         else if apiKey \<noteq> [] \<and> validateAPIKey (en_digest env) apiKey then (True, ''api-key-user'')
         else (False, []))"

definition set_pool :: "nat \<Rightarrow> ServicePool \<Rightarrow> ('r, 'l) Gateway \<Rightarrow> ('r, 'l) Gateway" where
  "set_pool i pool gw =
     gw\<lparr>gw_router := (gw_router gw)\<lparr>sr_pools := (sr_pools (gw_router gw))[i := pool]\<rparr>\<rparr>"

text \<open>From the choice of a backend to the end of the request.\<close>

definition finish ::
  "('r, 'l, 'f) Env \<Rightarrow> ('r, 'l) Gateway \<Rightarrow> CircuitBreaker \<times> Flight \<times> nat \<times> duration list \<times> loop_end \<Rightarrow>
   ('r, 'l) served" where
  "finish env gw res =
     (case res of (cb, fl, trips, sleeps, e) \<Rightarrow>
        (let gw1 = upd_metrics (\<lambda>mt. mt\<lparr>mt_active := fl_active fl, mt_trips := mt_trips mt + trips\<rparr>)
                     (gw\<lparr>gw_circuitBreaker := cb\<rparr>);
             rr = fl_rec fl;
             r = fl_req fl
         in case e of
              Completed b \<Rightarrow> leave env r (rr_w rr) (counted env r (rr_Status rr) gw1)
            | MidResponse \<Rightarrow> leave env r (rr_w rr) (counted env r (rr_Status rr) gw1)
            | Exhausted err \<Rightarrow>
                leave env r (rr_w (rr_Error rr (''Service temporarily unavailable: '' @ err) 503))
                  (counted env r 503 gw1)
            | Aborted \<Rightarrow> leave env r (rr_w rr) (gw1, AbortedHandler)))"

definition route_deadline :: "Config \<Rightarrow> MatchedRoute \<Rightarrow> duration" where
  "route_deadline cfg m = (if go_le (mr_Timeout m) 0 then cf_ConnectionTimeout cfg else mr_Timeout m)"

text \<open>
  The choice of a backend and the retry loop, for a request that runs alone. A panic of
  \<open>NextPeer\<close>, here or before a retry, is the value \<open>Inl\<close>, with no state.
\<close>

definition dispatch ::
  "('r, 'l, 'f) Env \<Rightarrow> ('r, 'l) Gateway \<Rightarrow> ResponseWriter \<Rightarrow> Request \<Rightarrow> string \<Rightarrow> MatchedRoute \<Rightarrow>
   ('r, 'l) served" where
  "dispatch env gw w r ip m =
     (case NextPeer (en_digest env) (sr_pools (gw_router gw) ! mr_Pool m) ip of
        Inl p \<Rightarrow> Inl p
      | Inr (pool, None) \<Rightarrow> reject env (set_pool (mr_Pool m) pool gw) w r ''No healthy backends available'' 503
      | Inr (pool, Some backend) \<Rightarrow>
          (let r1 = (if mr_BackendPath m \<noteq> req_Path r
                     then r\<lparr>req_Path := mr_BackendPath m, req_RawPath := mr_BackendPath m\<rparr> else r);
               fl = \<lparr>fl_pool = pool, fl_rec = newResponseRecorder w, fl_req = r1,
                     fl_active = mt_active (gw_metrics gw)\<rparr>
           in case attempt_loop env (route_deadline (gw_cfg gw) m) ip [0, 1, 2] backend []
                     (gw_circuitBreaker gw) fl of
                Inl p \<Rightarrow> Inl p
              | Inr (cb, fl', trips, sleeps, e) \<Rightarrow>
                  finish env (set_pool (mr_Pool m) (fl_pool fl') gw) (cb, fl', trips, sleeps, e)))"

text \<open>The cache lookup for GET requests, then dispatch.\<close>

definition serve_cached ::
  "('r, 'l, 'f) Env \<Rightarrow> ('r, 'l) Gateway \<Rightarrow> ResponseWriter \<Rightarrow> Request \<Rightarrow> string \<Rightarrow> MatchedRoute \<Rightarrow>
   ('r, 'l) served" where
  "serve_cached env gw w r ip m =
     (if req_Method r = ''GET'' \<and> cf_EnableCaching (gw_cfg gw) then
        (case cache_Get (en_redis env) (gw_cacheManager gw) (GenerateKey r) of
           Some cached \<Rightarrow>
             (let w1 = w_WriteHeader (set_header ''X-Cache'' ''HIT'' w) 200;
                  w2 = fst (w_Write w1 cached)
              in leave env r w2
                   (counted env r 200 (upd_metrics (\<lambda>mt. mt\<lparr>mt_cacheHits := mt_cacheHits mt + 1\<rparr>) gw)))
         | None \<Rightarrow> dispatch env gw (set_header ''X-Cache'' ''MISS'' w) r ip m)
      else dispatch env gw w r ip m)"

definition authorize ::
  "('r, 'l, 'f) Env \<Rightarrow> ('r, 'l) Gateway \<Rightarrow> ResponseWriter \<Rightarrow> Request \<Rightarrow> string \<Rightarrow> MatchedRoute \<Rightarrow>
   ('r, 'l) served" where
  "authorize env gw w r ip m =
     (if mr_RequireAuth m \<and> \<not> isPublicEndpoint (req_Path r) \<and> \<not> fst (authenticate env (gw_cfg gw) r)
      then reject env gw w r ''Unauthorized'' 401
      else serve_cached env gw w r ip m)"

definition ServeHTTP ::
  "('r, 'l, 'f) Env \<Rightarrow> ('r, 'l) Gateway \<Rightarrow> ResponseWriter \<Rightarrow> Request \<Rightarrow> ('r, 'l) served" where
  "ServeHTTP env gw0 w r =
     (let gw = upd_metrics (\<lambda>mt. mt\<lparr>mt_total := mt_total mt + 1\<rparr>) gw0;
          ip = getClientIP r;
          (d1, blocked) = IsBlocked (en_nowBlock env) (gw_ddosProtection gw) ip;
          gw1 = gw\<lparr>gw_ddosProtection := d1\<rparr>
      in if blocked then reject env gw1 w r ''Too many requests - IP blocked'' 429
         else
           (let (d2, justBlocked) = RecordRequest (en_nowRecord env) d1 ip;
                gw2 = gw1\<lparr>gw_ddosProtection := d2\<rparr>
            in if justBlocked
               then reject env (upd_metrics (\<lambda>mt. mt\<lparr>mt_blocked := mt_blocked mt + 1\<rparr>) gw2) w r
                      ''DDoS protection triggered'' 429
               else
                 (let (lim, allowed) = limiter_allow (en_rate env) (en_nowAllow env) (gw_rateLimiter gw2) ip;
                      gw3 = gw2\<lparr>gw_rateLimiter := lim\<rparr>
                  in if \<not> allowed then reject env gw3 w r ''Rate limit exceeded'' 429
                     else
                       (case Route (gw_router gw3) (req_Host r) (req_Path r) of
                          None \<Rightarrow> reject env gw3 w r ''No route matched'' 404
                        | Some m \<Rightarrow> authorize env gw3 w r ip m))))"

section \<open>What an attempt leaves alone\<close>

definition pool_conns :: "ServicePool \<Rightarrow> int64 list" where
  "pool_conns s = map GetConnections (sp_backends s)"

definition steady :: "Flight \<Rightarrow> Flight \<Rightarrow> bool" where
  "steady fl fl' \<longleftrightarrow> pool_conns (fl_pool fl') = pool_conns (fl_pool fl) \<and> fl_active fl' = fl_active fl \<and>
     req_Method (fl_req fl') = req_Method (fl_req fl) \<and> req_Path (fl_req fl') = req_Path (fl_req fl)"

lemma steady_refl [simp]: "steady fl fl"
  by (simp add: steady_def)

lemma steady_trans: "steady a b \<Longrightarrow> steady b c \<Longrightarrow> steady a c"
  by (simp add: steady_def)

lemma Dec_Inc_pool [simp]: "upd_backend DecConnections i (upd_backend IncConnections i s) = s"
  by (cases "i < length (sp_backends s)") (simp_all add: upd_backend_def list_update_beyond)

lemma steady_proxy_attempt: "steady fl (fst (proxy_attempt env k timeout ip b fl))"
  by (simp add: steady_def proxy_attempt_def Let_def split: prod.split)

lemma steady_RecordFailure:
  "steady fl (fl\<lparr>fl_pool := upd_backend (RecordFailure t) b (fl_pool fl)\<rparr>)"
  unfolding steady_def pool_conns_def upd_backend_def
  by (simp add: map_update_same RecordFailure_def GetConnections_def)

lemma steady_NextPeer:
  "NextPeer digest (fl_pool fl) ip = Inr (pool, peer) \<Longrightarrow> steady fl (fl\<lparr>fl_pool := pool\<rparr>)"
  using np.frame [of digest "fl_pool fl" ip pool peer] by (simp add: steady_def pool_conns_def)

lemma Call_attempt:
  assumes "Call t0 t1 fn cb fl = ((cb1, fl1), out, tripped)"
  obtains (rejected) "cb1 = cb" "fl1 = fl" "out = Failure breaker_open_error" "\<not> tripped"
  | (ran) "fn fl = (fl1, out)"
  using assms by (auto simp: Call_def Let_def split: option.splits prod.splits)

text \<open>One round of the loop, as a rule: how the first attempt of a run goes on.\<close>

lemma attempt_loop_cases:
  assumes "attempt_loop env timeout ip (k # ks) b lastErr cb fl = Inr (cb', fl', n, sleeps, e)"
  obtains (ended) cb1 fl1 out tripped where
    "Call (en_admit env k) (en_settle env k) (proxy_attempt env k timeout ip b) cb fl = ((cb1, fl1), out, tripped)"
    "(out = Success \<and> e = Completed b \<or> out = Panicked \<and> e = Aborted) \<and> fl' = fl1 \<or>
     (\<exists>err. out = Failure err \<and> e = MidResponse \<and> rr_Committed (fl_rec fl1) \<and>
        fl' = fl1\<lparr>fl_pool := upd_backend (RecordFailure (en_failed env k)) b (fl_pool fl1)\<rparr>)"
  | (retried) cb1 fl1 err tripped fl2 b' n' sleeps' where
    "Call (en_admit env k) (en_settle env k) (proxy_attempt env k timeout ip b) cb fl =
       ((cb1, fl1), Failure err, tripped)"
    "\<not> rr_Committed (fl_rec fl1)" "steady fl1 fl2" "fl_rec fl2 = fl_rec fl1"
    "attempt_loop env timeout ip ks b' err cb1 fl2 = Inr (cb', fl', n', sleeps', e)"
proof -
  obtain cb1 fl1 out tripped where c:
    "Call (en_admit env k) (en_settle env k) (proxy_attempt env k timeout ip b) cb fl = ((cb1, fl1), out, tripped)"
    by (metis prod.collapse)
  let ?fl = "fl1\<lparr>fl_pool := upd_backend (RecordFailure (en_failed env k)) b (fl_pool fl1)\<rparr>"
  show ?thesis
  proof (cases out)
    case (Failure err)
    consider (mid) "rr_Committed (fl_rec fl1)" | (again) "\<not> rr_Committed (fl_rec fl1)" "k < 2"
      | (last) "\<not> rr_Committed (fl_rec fl1)" "\<not> k < 2" by blast
    then show ?thesis
    proof cases
      case mid
      with assms c Failure ended show ?thesis by auto
    next
      case again
      with assms c Failure obtain pool peer where np: "NextPeer (en_digest env) (fl_pool ?fl) ip = Inr (pool, peer)"
        by (auto simp: Let_def split: sum.splits)
      have "steady fl1 (?fl\<lparr>fl_pool := pool\<rparr>)"
        using steady_trans [OF steady_RecordFailure steady_NextPeer [OF np]] .
      moreover from assms c Failure again np obtain n' sleeps' where
        "attempt_loop env timeout ip ks (case peer of None \<Rightarrow> b | Some nxt \<Rightarrow> nxt) err cb1 (?fl\<lparr>fl_pool := pool\<rparr>) =
         Inr (cb', fl', n', sleeps', e)"
        by (auto simp: Let_def map_sum_Inr_iff)
      ultimately show ?thesis using c Failure again by (intro retried) simp_all
    next
      case last
      with assms c Failure obtain n' sleeps' where
        "attempt_loop env timeout ip ks b err cb1 ?fl = Inr (cb', fl', n', sleeps', e)"
        by (auto simp: Let_def map_sum_Inr_iff)
      then show ?thesis using c Failure last steady_RecordFailure by (intro retried) simp_all
    qed
  qed (use assms c ended in auto)
qed

lemma Call_steady:
  "Call t0 t1 (proxy_attempt env k timeout ip b) cb fl = ((cb1, fl1), out, tripped) \<Longrightarrow> steady fl fl1"
  using steady_proxy_attempt [of fl env k timeout ip b] by (auto elim!: Call_attempt)

lemma attempt_loop_steady:
  "attempt_loop env timeout ip ks b lastErr cb fl = Inr (cb', fl', n, sleeps, e) \<Longrightarrow> steady fl fl'"
proof (induction ks arbitrary: b lastErr cb fl cb' fl' n sleeps e)
  case (Cons k ks)
  from Cons.prems show ?case
  proof (cases rule: attempt_loop_cases)
    case (ended cb1 fl1 out tripped)
    from Call_steady [OF ended(1)] ended(2) show ?thesis
      using steady_RecordFailure [of fl1] by (auto intro: steady_trans)
  next
    case (retried cb1 fl1 err tripped fl2 b' n' sleeps')
    from Call_steady [OF retried(1)] retried(3) Cons.IH [OF retried(5)] show ?thesis
      by (blast intro: steady_trans)
  qed
qed simp

section \<open>The recorder through the loop\<close>

text \<open>
  What is relied on of \<open>ReverseProxy.ServeHTTP\<close>: it sends codes that net/http accepts, and it
  flushes only after it has sent a status. Interim statuses may come first, as the proxy
  forwards those of the upstream.
\<close>

definition proxy_faithful :: "('r, 'l, 'f) Env \<Rightarrow> bool" where
  "proxy_faithful env \<longleftrightarrow>
     (\<forall>k px d q rr. \<not> rr_Committed rr \<longrightarrow> faithful_run rr (fst (en_proxy env k px d q)))"

lemma proxy_attempt_rec:
  "\<exists>px q. fl_rec (fst (proxy_attempt env k timeout ip b fl)) = rr_run (fl_rec fl) (fst (en_proxy env k px timeout q))"
  by (simp add: proxy_attempt_def Let_def split: prod.split) (metis fst_conv)

lemma Call_agrees:
  assumes "Call t0 t1 (proxy_attempt env k timeout ip b) cb fl = ((cb1, fl1), out, tripped)"
    and "agrees (fl_rec fl)" and "\<not> rr_Committed (fl_rec fl)" and "proxy_faithful env"
  shows "agrees (fl_rec fl1)"
  using assms(1)
proof (cases rule: Call_attempt)
  case ran
  obtain px q where "fl_rec fl1 = rr_run (fl_rec fl) (fst (en_proxy env k px timeout q))"
    using ran proxy_attempt_rec [of env k timeout ip b fl] by auto
  with assms(2-4) agrees_run show ?thesis by (auto simp: proxy_faithful_def)
qed (use assms in simp)

lemma attempt_loop_agrees:
  assumes "attempt_loop env timeout ip ks b lastErr cb fl = Inr (cb', fl', n, sleeps, e)"
    and "agrees (fl_rec fl)" and "\<not> rr_Committed (fl_rec fl)" and "proxy_faithful env"
  shows "agrees (fl_rec fl') \<and> (\<forall>err. e = Exhausted err \<longrightarrow> \<not> rr_Committed (fl_rec fl'))"
  using assms(1-3)
proof (induction ks arbitrary: b lastErr cb fl cb' fl' n sleeps e)
  case (Cons k ks)
  from Cons.prems(1) show ?case
  proof (cases rule: attempt_loop_cases)
    case (ended cb1 fl1 out tripped)
    from Call_agrees [OF ended(1) Cons.prems(2,3) assms(4)] ended(2) show ?thesis by auto
  next
    case (retried cb1 fl1 err tripped fl2 b' n' sleeps')
    from Call_agrees [OF retried(1) Cons.prems(2,3) assms(4)] retried(2,4) Cons.IH [OF retried(5)]
    show ?thesis by simp
  qed
qed simp

section \<open>The stages before dispatch\<close>

text \<open>The stages before dispatch leave routing, breaker, cache and the request count alone.\<close>

definition same_core :: "('r, 'l) Gateway \<Rightarrow> ('r, 'l) Gateway \<Rightarrow> bool" where
  "same_core gw gw' \<longleftrightarrow>
     gw_router gw' = gw_router gw \<and> gw_circuitBreaker gw' = gw_circuitBreaker gw \<and>
     gw_cacheManager gw' = gw_cacheManager gw \<and> gw_cfg gw' = gw_cfg gw \<and>
     mt_requests (gw_metrics gw') = mt_requests (gw_metrics gw) \<and>
     mt_durations (gw_metrics gw') = mt_durations (gw_metrics gw) \<and>
     mt_active (gw_metrics gw') = mt_active (gw_metrics gw)"

text \<open>
  What a return keeps, whether or not the labels are accepted. Both facts about the labels
  the metrics accept are collected in \<open>labels_accepted\<close>.
\<close>

definition labels_accepted :: "('r, 'l, 'f) Env \<Rightarrow> string \<Rightarrow> string \<Rightarrow> bool" where
  "labels_accepted env method path \<longleftrightarrow>
     en_labels env requestDuration [method, path] \<and>
     (\<forall>status. en_labels env requestsTotal [method, path, Itoa status])"

lemma leave_total: "\<exists>gw' e. leave env r w (counted env r status gw) = Inr (gw', w, e)"
  by (simp add: leave_def split: prod.split)

lemma leave_frame:
  assumes "leave env r w (counted env r status gw) = Inr (gw', w', d)"
  shows "w' = w \<and> gw_router gw' = gw_router gw \<and> gw_circuitBreaker gw' = gw_circuitBreaker gw \<and>
    mt_active (gw_metrics gw') = mt_active (gw_metrics gw) \<and>
    (d = Finished \<longrightarrow>
       mt_requests (gw_metrics gw') = mt_requests (gw_metrics gw) @ [(req_Method r, req_Path r, Itoa status)]) \<and>
    (labels_accepted env (req_Method r) (req_Path r) \<longrightarrow> d = Finished)"
  using assms
  by (auto simp: leave_def observed_def counted_def count_request_def labels_accepted_def split: if_splits)

lemma leave_aborted:
  assumes "leave env r w (gw, AbortedHandler) = Inr (gw', w', d)"
  shows "w' = w \<and> gw_router gw' = gw_router gw \<and> gw_circuitBreaker gw' = gw_circuitBreaker gw \<and>
    mt_active (gw_metrics gw') = mt_active (gw_metrics gw) \<and>
    mt_requests (gw_metrics gw') = mt_requests (gw_metrics gw) \<and> d = AbortedHandler"
  using assms by (auto simp: leave_def observed_def split: if_splits)

lemma ServeHTTP_cases:
  obtains (refused) gw1 msg code where "ServeHTTP env gw w r = reject env gw1 w r msg code"
    "same_core gw gw1" "code = 429 \<or> code = 404 \<and> Route (gw_router gw) (req_Host r) (req_Path r) = None"
  | (matched) gw1 m where "ServeHTTP env gw w r = authorize env gw1 w r (getClientIP r) m"
    "same_core gw gw1" "Route (gw_router gw) (req_Host r) (req_Path r) = Some m"
proof -
  let ?ip = "getClientIP r"
  obtain d1 blocked where 1: "IsBlocked (en_nowBlock env) (gw_ddosProtection gw) ?ip = (d1, blocked)"
    by fastforce
  obtain d2 just where 2: "RecordRequest (en_nowRecord env) d1 ?ip = (d2, just)" by fastforce
  obtain lim ok where 3: "limiter_allow (en_rate env) (en_nowAllow env) (gw_rateLimiter gw) ?ip = (lim, ok)"
    by fastforce
  let ?g = "gw\<lparr>gw_metrics := (gw_metrics gw)\<lparr>mt_total := mt_total (gw_metrics gw) + 1\<rparr>\<rparr>"
  let ?g1 = "?g\<lparr>gw_ddosProtection := d1\<rparr>" and ?g2 = "?g\<lparr>gw_ddosProtection := d2\<rparr>"
  let ?g2' = "upd_metrics (\<lambda>mt. mt\<lparr>mt_blocked := mt_blocked mt + 1\<rparr>) ?g2"
  let ?g3 = "?g\<lparr>gw_ddosProtection := d2, gw_rateLimiter := lim\<rparr>"
  have core: "same_core gw ?g1" "same_core gw ?g2'" "same_core gw ?g3" by (simp_all add: same_core_def)
  have "ServeHTTP env gw w r =
     (if blocked then reject env ?g1 w r ''Too many requests - IP blocked'' 429
      else if just then reject env ?g2' w r ''DDoS protection triggered'' 429
      else if \<not> ok then reject env ?g3 w r ''Rate limit exceeded'' 429
      else case Route (gw_router gw) (req_Host r) (req_Path r) of
          None \<Rightarrow> reject env ?g3 w r ''No route matched'' 404
        | Some m \<Rightarrow> authorize env ?g3 w r ?ip m)"
    using 1 2 3 by (simp add: ServeHTTP_def Let_def)
  then show ?thesis
    using refused [OF _ core(1)] refused [OF _ core(2)] refused [OF _ core(3)] matched [OF _ core(3)]
    by (cases "Route (gw_router gw) (req_Host r) (req_Path r)") (auto split: if_splits)
qed

lemma authorize_cases:
  obtains (unauthorized) "authorize env gw w r ip m = reject env gw w r ''Unauthorized'' 401"
    "mr_RequireAuth m" "\<not> isPublicEndpoint (req_Path r)" "\<not> fst (authenticate env (gw_cfg gw) r)"
  | (hit) v where "authorize env gw w r ip m =
      leave env r (fst (w_Write (w_WriteHeader (set_header ''X-Cache'' ''HIT'' w) 200) v))
        (counted env r 200 (upd_metrics (\<lambda>mt. mt\<lparr>mt_cacheHits := mt_cacheHits mt + 1\<rparr>) gw))"
  | (proxied) w1 where "authorize env gw w r ip m = dispatch env gw w1 r ip m"
      "w1 = w \<or> w1 = set_header ''X-Cache'' ''MISS'' w"
proof (cases "mr_RequireAuth m \<and> \<not> isPublicEndpoint (req_Path r) \<and> \<not> fst (authenticate env (gw_cfg gw) r)")
  case True
  with unauthorized show ?thesis by (simp add: authorize_def)
next
  case False
  then have a: "authorize env gw w r ip m = serve_cached env gw w r ip m" by (auto simp: authorize_def)
  show ?thesis
  proof (cases "req_Method r = ''GET'' \<and> cf_EnableCaching (gw_cfg gw)")
    case get: True
    show ?thesis
    proof (cases "cache_Get (en_redis env) (gw_cacheManager gw) (GenerateKey r)")
      case None
      with a get proxied [of "set_header ''X-Cache'' ''MISS'' w"] show ?thesis
        by (simp add: serve_cached_def)
    next
      case (Some v)
      with a get hit [of v] show ?thesis by (simp add: serve_cached_def Let_def)
    qed
  next
    case no_get: False
    with a have "authorize env gw w r ip m = dispatch env gw w r ip m" by (auto simp: serve_cached_def)
    with proxied show ?thesis by blast
  qed
qed

section \<open>Dispatch\<close>

lemma dispatch_cases:
  assumes "dispatch env gw w r ip m = Inr res"
  obtains (down) pool where "NextPeer (en_digest env) (sr_pools (gw_router gw) ! mr_Pool m) ip = Inr (pool, None)"
    "Inr res = reject env (set_pool (mr_Pool m) pool gw) w r ''No healthy backends available'' 503"
  | (tried) pool b r1 cb fl n sleeps e where
    "NextPeer (en_digest env) (sr_pools (gw_router gw) ! mr_Pool m) ip = Inr (pool, Some b)"
    "req_Method r1 = req_Method r" "req_Path r1 = mr_BackendPath m"
    "attempt_loop env (route_deadline (gw_cfg gw) m) ip [0, 1, 2] b [] (gw_circuitBreaker gw)
       \<lparr>fl_pool = pool, fl_rec = newResponseRecorder w, fl_req = r1, fl_active = mt_active (gw_metrics gw)\<rparr> =
     Inr (cb, fl, n, sleeps, e)"
    "Inr res = finish env (set_pool (mr_Pool m) (fl_pool fl) gw) (cb, fl, n, sleeps, e)"
proof -
  let ?r1 = "if mr_BackendPath m \<noteq> req_Path r
    then r\<lparr>req_Path := mr_BackendPath m, req_RawPath := mr_BackendPath m\<rparr> else r"
  from assms obtain pool peer where np:
    "NextPeer (en_digest env) (sr_pools (gw_router gw) ! mr_Pool m) ip = Inr (pool, peer)"
    by (auto simp: dispatch_def split: sum.splits)
  show ?thesis
  proof (cases peer)
    case None
    with assms np down show ?thesis by (simp add: dispatch_def)
  next
    case (Some b)
    let ?fl = "\<lparr>fl_pool = pool, fl_rec = newResponseRecorder w, fl_req = ?r1,
      fl_active = mt_active (gw_metrics gw)\<rparr>"
    from assms np Some obtain cb fl n sleeps e where
      "attempt_loop env (route_deadline (gw_cfg gw) m) ip [0, 1, 2] b [] (gw_circuitBreaker gw) ?fl =
       Inr (cb, fl, n, sleeps, e)"
      by (auto simp: dispatch_def Let_def simp del: attempt_loop.simps split: sum.splits)
    with assms np Some tried [of pool b ?r1 cb fl n sleeps e] show ?thesis
      by (simp add: dispatch_def Let_def del: attempt_loop.simps split: if_splits)
  qed
qed

text \<open>Connections by pool and backend.\<close>

definition all_conns :: "('r, 'l) Gateway \<Rightarrow> int64 list list" where
  "all_conns gw = map pool_conns (sr_pools (gw_router gw))"

lemma all_conns_set_pool:
  "pool_conns pool = pool_conns (sr_pools (gw_router gw) ! i) \<Longrightarrow> all_conns (set_pool i pool gw) = all_conns gw"
  by (simp add: all_conns_def set_pool_def map_update_same)

lemma finish_frame:
  "finish env gw (cb, fl, n, sleeps, e) = Inr (gw', w', d) \<Longrightarrow>
   gw_router gw' = gw_router gw \<and> mt_active (gw_metrics gw') = fl_active fl"
  by (cases e) (auto simp: finish_def Let_def dest!: leave_frame leave_aborted)

lemma finish_completed:
  assumes "labels_accepted env (req_Method (fl_req fl)) (req_Path (fl_req fl))"
  shows "\<exists>gw'. finish env gw (cb, fl, n, sleeps, Completed b) = Inr (gw', rr_w (fl_rec fl), Finished) \<and>
    gw_circuitBreaker gw' = cb"
  using assms
  by (simp add: finish_def Let_def leave_def observed_def counted_def labels_accepted_def)

lemma dispatch_conns:
  assumes "dispatch env gw w r ip m = Inr (gw', w', d)"
  shows "all_conns gw' = all_conns gw \<and> mt_active (gw_metrics gw') = mt_active (gw_metrics gw)"
  using assms
proof (cases rule: dispatch_cases)
  case (down pool)
  then have "pool_conns pool = pool_conns (sr_pools (gw_router gw) ! mr_Pool m)"
    by (metis np.frame pool_conns_def)
  from all_conns_set_pool [OF this] down(2) [symmetric] show ?thesis
    by (auto simp: reject_def set_pool_def all_conns_def dest: leave_frame)
next
  case (tried pool b r1 cb fl n sleeps e)
  have "pool_conns pool = pool_conns (sr_pools (gw_router gw) ! mr_Pool m)"
    using tried(1) by (metis np.frame pool_conns_def)
  with attempt_loop_steady [OF tried(4)]
  have "pool_conns (fl_pool fl) = pool_conns (sr_pools (gw_router gw) ! mr_Pool m)"
    and act: "fl_active fl = mt_active (gw_metrics gw)" by (simp_all add: steady_def)
  from all_conns_set_pool [OF this(1)] finish_frame [OF tried(5) [symmetric]] act show ?thesis
    by (simp add: all_conns_def)
qed

lemma authorize_conns:
  assumes "authorize env gw w r ip m = Inr (gw', w', d)"
  shows "all_conns gw' = all_conns gw \<and> mt_active (gw_metrics gw') = mt_active (gw_metrics gw)"
proof (cases rule: authorize_cases [of env gw w r ip m])
  case unauthorized
  with assms show ?thesis by (auto simp: reject_def all_conns_def dest: leave_frame)
next
  case (hit v)
  with assms show ?thesis by (auto simp: all_conns_def dest: leave_frame)
next
  case (proxied w1)
  with assms dispatch_conns show ?thesis by metis
qed

section \<open>Accounting\<close>

text \<open>The status the client sees when the handler has returned: 200 if none was sent.\<close>

definition client_status :: "ResponseWriter \<Rightarrow> int" where
  "client_status w = (case w_status w of None \<Rightarrow> 200 | Some s \<Rightarrow> s)"

text \<open>
  A status is told to the client if it is the one on the wire, or 101 for a connection that
  was handed over; an interim status that the recorder took for the final one leaves 200.
\<close>

definition told :: "int \<Rightarrow> ResponseWriter \<Rightarrow> bool" where
  "told s w \<longleftrightarrow> s = client_status w \<or> w_hijacked w \<and> w_status w = None \<and> s = 101 \<or>
     informational s \<and> client_status w = 200"

definition accounted :: "('r, 'l) Gateway \<Rightarrow> Request \<Rightarrow> ('r, 'l) Gateway \<times> ResponseWriter \<times> serve_end \<Rightarrow> bool" where
  "accounted gw r res \<longleftrightarrow> (case res of (gw', w', d) \<Rightarrow>
     d = Finished \<longrightarrow>
     (\<exists>path s. mt_requests (gw_metrics gw') = mt_requests (gw_metrics gw) @ [(req_Method r, path, Itoa s)] \<and>
        told s w'))"

lemma fresh_set_header [simp]: "fresh (set_header k v w) \<longleftrightarrow> fresh w"
  by (simp add: fresh_def set_header_def)

lemma accounted_leave:
  assumes "leave env q v (counted env q status gw1) = Inr res" and "req_Method q = req_Method r"
    and "mt_requests (gw_metrics gw1) = mt_requests (gw_metrics gw)"
    and "told status v"
  shows "accounted gw r res"
proof -
  obtain gw' w' d where "res = (gw', w', d)" by (rule prod_cases3)
  with leave_frame [of env q v status gw1 gw' w' d] assms show ?thesis by (auto simp: accounted_def)
qed

lemma accounted_reject:
  assumes "reject env gw1 w r msg code = Inr res" and "fresh w" and "\<not> informational code"
    and "mt_requests (gw_metrics gw1) = mt_requests (gw_metrics gw)"
  shows "accounted gw r res"
  using assms(1,4) http_Error_status [of w code msg] assms(2,3) unfolding reject_def
  by (elim accounted_leave) (simp_all add: told_def client_status_def fresh_def)

lemma reject_result:
  assumes "fresh w" and "\<not> informational code"
  shows "\<exists>gw' w' e. reject env gw w r msg code = Inr (gw', w', e) \<and> client_status w' = code \<and>
    gw_router gw' = gw_router gw \<and> gw_circuitBreaker gw' = gw_circuitBreaker gw \<and>
    (labels_accepted env (req_Method r) (req_Path r) \<longrightarrow> e = Finished)"
proof -
  obtain gw' e where l: "leave env r (http_Error w msg code) (counted env r code gw) = Inr (gw', http_Error w msg code, e)"
    using leave_total by blast
  from leave_frame [OF l] http_Error_status [of w code msg] assms l show ?thesis
    by (auto simp: reject_def fresh_def client_status_def)
qed

lemma agrees_client_status:
  "agrees rr \<Longrightarrow> told (rr_Status rr) (rr_w rr)"
  by (auto simp: agrees_def told_def client_status_def rr_Status_def split: if_splits)

lemma rr_Error_status:
  assumes "agrees rr" and "\<not> rr_Committed rr" and "code \<noteq> 0" and "\<not> informational code"
  shows "client_status (rr_w (rr_Error rr msg code)) = code"
proof -
  let ?h = "Header_Set (Header_Set (Header_Del (w_header (rr_w rr)) ''Content-Length'')
                ''Content-Type'' ''text/plain; charset=utf-8'') ''X-Content-Type-Options'' ''nosniff''"
  let ?rr = "rr_WriteHeader (rr\<lparr>rr_w := (rr_w rr)\<lparr>w_header := ?h\<rparr>\<rparr>) code"
  have "w_status (rr_w ?rr) = Some code" "\<not> w_hijacked (rr_w ?rr)" "rr_committed ?rr"
    using assms by (auto simp: agrees_def rr_Committed_def rr_WriteHeader_def w_WriteHeader_status)
  then have "w_status (fst (w_Write (rr_w ?rr) (msg @ [CHR 0x0A]))) = Some code"
    by (simp add: w_Write_status)
  moreover obtain w2 n ok where "w_Write (rr_w ?rr) (msg @ [CHR 0x0A]) = (w2, n, ok)"
    by (metis prod_cases3)
  ultimately show ?thesis
    using \<open>rr_committed ?rr\<close> by (simp add: rr_Error_def rr_Write_def Let_def client_status_def)
qed

lemma accounted_finish:
  assumes "agrees (fl_rec fl)" and "\<forall>err. e = Exhausted err \<longrightarrow> \<not> rr_Committed (fl_rec fl)"
    and "req_Method (fl_req fl) = req_Method r"
    and "mt_requests (gw_metrics gw1) = mt_requests (gw_metrics gw)"
    and "finish env gw1 (cb, fl, n, sleeps, e) = Inr res"
  shows "accounted gw r res"
proof (cases e)
  case (Exhausted err)
  with assms(2) rr_Error_status [OF assms(1), of 503] have "told 503 (rr_w (rr_Error (fl_rec fl) msg 503))" for msg
    by (simp add: told_def informational_def)
  with assms(5) Exhausted show ?thesis
    by (auto simp: finish_def Let_def assms(3,4) intro: accounted_leave)
next
  case Aborted
  obtain gw' w' d where "res = (gw', w', d)" by (rule prod_cases3)
  with assms(5) Aborted show ?thesis by (auto simp: finish_def Let_def accounted_def dest: leave_aborted)
qed (use assms(3-5) agrees_client_status [OF assms(1)] in
  \<open>auto simp: finish_def Let_def intro: accounted_leave\<close>)

lemma accounted_dispatch:
  assumes "dispatch env gw1 w r ip m = Inr res" and "fresh w" and "proxy_faithful env"
    and "mt_requests (gw_metrics gw1) = mt_requests (gw_metrics gw)"
  shows "accounted gw r res"
  using assms(1)
proof (cases rule: dispatch_cases)
  case (down pool)
  from accounted_reject [OF down(2) [symmetric] assms(2)] assms(4) show ?thesis
    by (simp add: informational_def set_pool_def)
next
  case (tried pool b r1 cb fl n sleeps e)
  let ?fl0 = "\<lparr>fl_pool = pool, fl_rec = newResponseRecorder w, fl_req = r1, fl_active = mt_active (gw_metrics gw1)\<rparr>"
  have "agrees (fl_rec ?fl0)" "\<not> rr_Committed (fl_rec ?fl0)"
    using agrees_new [OF assms(2)] by (simp_all add: rr_Committed_def newResponseRecorder_def)
  from attempt_loop_agrees [OF tried(4) this assms(3)] attempt_loop_steady [OF tried(4)] tried(2) assms(4)
  show ?thesis by (intro accounted_finish [OF _ _ _ _ tried(5) [symmetric]]) (simp_all add: steady_def set_pool_def)
qed

lemma accounted_authorize:
  assumes "authorize env gw1 w r ip m = Inr res" and "fresh w" and "proxy_faithful env"
    and "mt_requests (gw_metrics gw1) = mt_requests (gw_metrics gw)"
  shows "accounted gw r res"
proof (cases rule: authorize_cases [of env gw1 w r ip m])
  case unauthorized
  with accounted_reject [OF _ assms(2), of env gw1 r _ 401 res gw] assms show ?thesis
    by (simp add: informational_def)
next
  case (hit v)
  let ?w = "w_WriteHeader (set_header ''X-Cache'' ''HIT'' w) 200"
  have "w_status ?w = Some 200" "\<not> w_hijacked ?w"
    using assms(2) by (auto simp: fresh_def set_header_def w_WriteHeader_status informational_def)
  then have "told 200 (fst (w_Write ?w v))" by (simp add: told_def client_status_def w_Write_status)
  with assms(4) show ?thesis
    using accounted_leave [of env r "fst (w_Write ?w v)" 200 _ res r gw, OF trans [OF hit [symmetric] assms(1)]]
    by simp
next
  case (proxied w1)
  with assms accounted_dispatch [of env gw1 w1 r ip m res gw] show ?thesis by auto
qed

section \<open>The proxy as a parameter\<close>

text \<open>Only \<open>proxy_attempt\<close> looks at the proxy.\<close>

lemma leave_proxy [simp]: "leave (env\<lparr>en_proxy := P\<rparr>) = leave env" "counted (env\<lparr>en_proxy := P\<rparr>) = counted env"
  by (simp_all add: leave_def observed_def counted_def fun_eq_iff split: prod.split)

lemma reject_proxy [simp]: "reject (env\<lparr>en_proxy := P\<rparr>) = reject env" "finish (env\<lparr>en_proxy := P\<rparr>) = finish env"
  by (simp_all add: reject_def finish_def Let_def fun_eq_iff)

lemma authenticate_proxy [simp]: "authenticate (env\<lparr>en_proxy := P\<rparr>) cfg r = authenticate env cfg r"
  by (simp add: authenticate_def Let_def)

section \<open>Labels that are not text\<close>

text \<open>
  An end of the handler on a path that is \<open>ok\<close> or not, with a proxy that is \<open>calm\<close> (never
  panics) or not.
\<close>

definition gated ::
  "('r, 'l) Gateway \<Rightarrow> bool \<Rightarrow> bool \<Rightarrow> ('r, 'l) Gateway \<times> ResponseWriter \<times> serve_end \<Rightarrow> bool" where
  "gated gw ok calm res \<longleftrightarrow> (case res of (gw', w', e) \<Rightarrow>
     (e = Finished \<longrightarrow> ok) \<and> (ok \<and> calm \<longrightarrow> e = Finished) \<and>
     (\<not> ok \<longrightarrow> mt_requests (gw_metrics gw') = mt_requests (gw_metrics gw) \<and>
        mt_durations (gw_metrics gw') = mt_durations (gw_metrics gw)))"

lemma gated_leave:
  assumes "leave env q v (counted env q status gw1) = Inr res" and "label_contract (en_labels env)"
    and "valid_utf8 (req_Method q)" and "mt_requests (gw_metrics gw1) = mt_requests (gw_metrics gw)"
    and "mt_durations (gw_metrics gw1) = mt_durations (gw_metrics gw)"
  shows "gated gw (valid_utf8 (req_Path q)) calm res"
  using assms ascii_valid [OF ascii_Itoa]
  by (auto simp: leave_def observed_def counted_def label_contract_def requestsTotal_def
      requestDuration_def gated_def count_request_def
      split: if_splits)

lemma gated_aborted:
  assumes "leave env q v (gw1, AbortedHandler) = Inr res" and "label_contract (en_labels env)"
    and "valid_utf8 (req_Method q)" and "mt_requests (gw_metrics gw1) = mt_requests (gw_metrics gw)"
    and "mt_durations (gw_metrics gw1) = mt_durations (gw_metrics gw)"
  shows "gated gw (valid_utf8 (req_Path q)) False res"
  using assms by (auto simp: leave_def observed_def label_contract_def requestDuration_def gated_def split: if_splits)

lemma attempt_loop_not_aborted:
  assumes "attempt_loop env timeout ip ks b lastErr cb fl = Inr (cb', fl', n, sleeps, e)"
    and "\<forall>k px d q. snd (en_proxy env k px d q) \<noteq> Panicked"
  shows "e \<noteq> Aborted"
  using assms(1)
proof (induction ks arbitrary: b lastErr cb fl n sleeps)
  case (Cons k ks)
  from Cons.prems show ?case
  proof (cases rule: attempt_loop_cases)
    case (ended cb1 fl1 out tripped)
    have "out \<noteq> Panicked"
      using ended(1)
    proof (cases rule: Call_attempt)
      case ran
      then have "out = snd (proxy_attempt env k timeout ip b fl)" by simp
      with assms(2) show ?thesis by (simp add: proxy_attempt_def Let_def split: prod.splits) (metis snd_conv)
    qed simp
    with ended(2) show ?thesis by auto
  next
    case retried
    from Cons.IH [OF retried(5)] show ?thesis .
  qed
qed auto

lemma finish_counted:
  assumes "e \<noteq> Aborted"
  shows "\<exists>v status. finish env gw (cb, fl, n, sleeps, e) = leave env (fl_req fl) v
    (counted env (fl_req fl) status
      (upd_metrics (\<lambda>mt. mt\<lparr>mt_active := fl_active fl, mt_trips := mt_trips mt + n\<rparr>) (gw\<lparr>gw_circuitBreaker := cb\<rparr>)))"
  using assms by (cases e) (auto simp: finish_def Let_def)

lemma gated_dispatch:
  assumes "dispatch env gw1 w r ip m = Inr res" and "label_contract (en_labels env)" and "valid_utf8 (req_Method r)"
    and "mt_requests (gw_metrics gw1) = mt_requests (gw_metrics gw)"
    and "mt_durations (gw_metrics gw1) = mt_durations (gw_metrics gw)"
    and "valid_utf8 (mr_BackendPath m) \<longleftrightarrow> valid_utf8 (req_Path r)"
  shows "gated gw (valid_utf8 (req_Path r)) (\<forall>k px d q. snd (en_proxy env k px d q) \<noteq> Panicked) res"
  using assms(1)
proof (cases rule: dispatch_cases)
  case (down pool)
  then show ?thesis
    using gated_leave [OF _ assms(2,3), of _ 503 "set_pool (mr_Pool m) pool gw1" res gw] assms(4,5)
    by (simp add: reject_def set_pool_def)
next
  case (tried pool b r1 cb fl n sleeps e)
  let ?gw = "upd_metrics (\<lambda>mt. mt\<lparr>mt_active := fl_active fl, mt_trips := mt_trips mt + n\<rparr>)
    ((set_pool (mr_Pool m) (fl_pool fl) gw1)\<lparr>gw_circuitBreaker := cb\<rparr>)"
  have r: "req_Method (fl_req fl) = req_Method r" "req_Path (fl_req fl) = mr_BackendPath m"
    using attempt_loop_steady [OF tried(4)] tried(2,3) by (simp_all add: steady_def)
  show ?thesis
  proof (cases "e = Aborted")
    case True
    then have loud: "(\<forall>k px d q. snd (en_proxy env k px d q) \<noteq> Panicked) = False"
      using attempt_loop_not_aborted [OF tried(4)] by blast
    have "leave env (fl_req fl) (rr_w (fl_rec fl)) (?gw, AbortedHandler) = Inr res"
      using tried(5) True by (simp add: finish_def Let_def)
    from gated_aborted [OF this assms(2), of gw] r assms(3-6) show ?thesis unfolding loud by (simp add: set_pool_def)
  next
    case False
    from finish_counted [OF False] tried(5) obtain v status where
      "leave env (fl_req fl) v (counted env (fl_req fl) status ?gw) = Inr res"
      by metis
    from gated_leave [OF this assms(2), of gw] r assms(3-6) show ?thesis by (simp add: set_pool_def)
  qed
qed

lemma valid_backend_path:
  assumes "Route sr h path = Some m" and "list_all (\<lambda>e. valid_utf8 (re_Prefix e)) (sr_routes sr)"
  shows "valid_utf8 (mr_BackendPath m) \<longleftrightarrow> valid_utf8 path"
proof -
  from assms(1) obtain e where e: "e \<in> set (sr_routes sr)" "m = matched path e"
    by (auto simp: Route_def Route_loop_find dest: find_SomeD)
  have slash: "valid_utf8 (CHR ''/'' # p) \<longleftrightarrow> valid_utf8 p" for p
    using valid_utf8_append_iff [of "''/''" p] ascii_valid [of "''/''"] by simp
  have "valid_utf8 (TrimPrefix path (re_Prefix e)) \<longleftrightarrow> valid_utf8 path"
    using assms(2) e(1) valid_utf8_append_iff [of "re_Prefix e"]
    by (cases "HasPrefix path (re_Prefix e)") (auto simp: HasPrefix_iff TrimPrefix_def list_all_iff)
  with e(2) slash show ?thesis by (simp add: matched_def backend_path_def Let_def)
qed

section \<open>A configuration to run\<close>

text \<open>
  A gateway with one least-connections route to two backends that requires authentication,
  and an environment whose proxy fails for the first \<open>n\<close> attempts and then answers.
\<close>

definition example_gateway :: "bool \<Rightarrow> string \<Rightarrow> (unit, int \<times> int \<times> instant) Gateway" where
  "example_gateway login algo = NewGateway example_urls (\<lambda>_. ()) True
     (example_config\<lparr>cf_LoadBalancingAlgo := algo, cf_ServiceRoutes :=
        [(example_route [] ''/api'' ''a:1'')\<lparr>ro_Targets := [''b:1''], ro_RequireAuth := login\<rparr>]\<rparr>)"

definition example_env :: "nat \<Rightarrow> (unit, int \<times> int \<times> instant, int) Env" where
  "example_env n = \<lparr>en_rate = example_bucket, en_jwt = example_jwt, en_digest = (\<lambda>_. replicate 32 0),
     en_redis = (\<lambda>_. ReplyNil), en_nowBlock = 0, en_nowRecord = 0, en_nowAllow = 0, en_nowUnix = 0,
     en_admit = (\<lambda>k. 1000), en_settle = (\<lambda>k. 1000), en_failed = (\<lambda>k. 1000),
     en_stamp = (\<lambda>k. ''now''), en_labels = (\<lambda>c. list_all (list_all (\<lambda>c. \<not> digit7 c))),
     en_proxy = (\<lambda>k px d q. if k < n then ([], Failure ''refused'')
       else ([EvWriteHeader 201, EvWrite ''ok''], Success))\<rparr>"

lemma example_proxy_faithful: "proxy_faithful (example_env n)"
  by (auto simp: proxy_faithful_def example_env_def faithful_event_def)

lemma example_run:
  "map_sum id (\<lambda>(gw', w', e). (mt_requests (gw_metrics gw'), w_status w', w_body w', e))
     (ServeHTTP (example_env 2) (example_gateway False ''least-conn'') (fresh_writer True True)
        (example_request ''GET'' ''ex.com'' ''/api/x'')) =
   Inr ([(''GET'', ''/x'', ''201'')], Some 201, ''ok'', Finished)"
  by code_simp

section \<open>Properties\<close>

text \<open>
  C2: no connection is leaked. However a request ends, rejected, answered from the cache,
  proxied, failed after retries or aborted by a panic of the proxy, the connection count of
  every backend of every pool and the gauge of active connections are what they were before.
\<close>

theorem no_connection_leak:
  assumes "ServeHTTP env gw w r = Inr (gw', w', e)"
  shows "map (\<lambda>s. map GetConnections (sp_backends s)) (sr_pools (gw_router gw')) =
      map (\<lambda>s. map GetConnections (sp_backends s)) (sr_pools (gw_router gw)) \<and>
    mt_active (gw_metrics gw') = mt_active (gw_metrics gw)"
proof -
  have "all_conns gw' = all_conns gw \<and> mt_active (gw_metrics gw') = mt_active (gw_metrics gw)"
  proof (cases rule: ServeHTTP_cases [of env gw w r])
    case (refused gw1 msg code)
    with assms show ?thesis by (auto simp: reject_def all_conns_def same_core_def dest: leave_frame)
  next
    case (matched gw1 m)
    with assms authorize_conns [of env gw1 w r "getClientIP r" m gw' w' e] show ?thesis
      by (simp add: all_conns_def same_core_def)
  qed
  then show ?thesis by (simp add: all_conns_def pool_conns_def [abs_def])
qed

theorem no_connection_leak_witness:
  "\<exists>gw' w' e. ServeHTTP (example_env 3) (example_gateway False ''round-robin'') (fresh_writer True True)
      (example_request ''GET'' ''ex.com'' ''/api/x'') = Inr (gw', w', e) \<and>
    mt_active (gw_metrics gw') = mt_active (gw_metrics (example_gateway False ''round-robin''))"
proof -
  have "\<not> isl (ServeHTTP (example_env 3) (example_gateway False ''round-robin'') (fresh_writer True True)
      (example_request ''GET'' ''ex.com'' ''/api/x''))"
    by code_simp
  then obtain gw' w' e where "ServeHTTP (example_env 3) (example_gateway False ''round-robin'')
      (fresh_writer True True) (example_request ''GET'' ''ex.com'' ''/api/x'') = Inr (gw', w', e)"
    by (metis isl_def prod_cases3 sum.exhaust)
  with no_connection_leak [OF this] show ?thesis by blast
qed

text \<open>
  C3: every finished request is counted once. If the proxy flushes only after it has sent a
  status, the handler adds exactly one entry to the request counter, under the request's
  method and the status the client got (101 for a connection that was handed over). The one
  exception is an upstream that sends an interim status first: the entry then carries that
  interim code, and the client gets 200.
\<close>

theorem requests_accounted:
  assumes "ServeHTTP env gw w r = Inr (gw', w', Finished)" and "fresh w" and "proxy_faithful env"
  shows "\<exists>path s. mt_requests (gw_metrics gw') =
      mt_requests (gw_metrics gw) @ [(req_Method r, path, Itoa s)] \<and>
    (s = client_status w' \<or>
     w_hijacked w' \<and> w_status w' = None \<and> s = 101 \<or>
     informational s \<and> client_status w' = 200)"
proof -
  have "accounted gw r (gw', w', Finished)"
  proof (cases rule: ServeHTTP_cases [of env gw w r])
    case (refused gw1 msg code)
    have "\<not> informational code" using refused(3) by (auto simp: informational_def)
    moreover have "reject env gw1 w r msg code = Inr (gw', w', Finished)" using refused(1) assms(1) by simp
    moreover have "mt_requests (gw_metrics gw1) = mt_requests (gw_metrics gw)"
      using refused(2) by (simp add: same_core_def)
    ultimately show ?thesis using assms(2) by (blast intro: accounted_reject)
  next
    case (matched gw1 m)
    with accounted_authorize [OF _ assms(2,3)] assms(1) show ?thesis by (simp add: same_core_def)
  qed
  then show ?thesis by (simp add: accounted_def told_def)
qed

theorem requests_accounted_witness:
  "\<exists>gw' w'. ServeHTTP (example_env 2) (example_gateway False ''least-conn'') (fresh_writer True True)
      (example_request ''GET'' ''ex.com'' ''/api/x'') = Inr (gw', w', Finished) \<and>
    (\<exists>path s. mt_requests (gw_metrics gw') =
       mt_requests (gw_metrics (example_gateway False ''least-conn'')) @ [(''GET'', path, Itoa s)])"
proof -
  obtain gw' w' where run: "ServeHTTP (example_env 2) (example_gateway False ''least-conn'') (fresh_writer True True)
      (example_request ''GET'' ''ex.com'' ''/api/x'') = Inr (gw', w', Finished)"
    using example_run by (auto simp: map_sum_Inr_iff)
  have "fresh (fresh_writer True True)" by (simp add: fresh_def fresh_writer_def)
  from requests_accounted [OF run this example_proxy_faithful] run show ?thesis
    by (auto simp: example_request_def)
qed

text \<open>
  C4: a route that requires authentication is not reachable without it. An unauthenticated
  request to such a route, on a path that is not public, is answered with 401 (or 429 before
  that), whatever the proxy would do, and no backend, pool or breaker is touched. The handler
  returns normally if the metrics library accepts the method and path as labels.
\<close>

theorem protected_route_guarded:
  assumes "Route (gw_router gw) (req_Host r) (req_Path r) = Some m" and "mr_RequireAuth m"
    and "\<not> isPublicEndpoint (req_Path r)" and "\<not> fst (authenticate env (gw_cfg gw) r)" and "fresh w"
  shows "\<exists>gw' w' e. ServeHTTP (env\<lparr>en_proxy := P\<rparr>) gw w r = Inr (gw', w', e) \<and>
    client_status w' \<in> {401, 429} \<and> gw_router gw' = gw_router gw \<and>
    gw_circuitBreaker gw' = gw_circuitBreaker gw \<and>
    (labels_accepted env (req_Method r) (req_Path r) \<longrightarrow> e = Finished)"
proof -
  let ?env = "env\<lparr>en_proxy := P\<rparr>"
  show ?thesis
  proof (cases rule: ServeHTTP_cases [of ?env gw w r])
    case (refused gw1 msg code)
    have "code = 429" using refused(3) assms(1) by simp
    with reject_result [OF assms(5), of code env gw1 r msg] refused show ?thesis
      by (auto simp: same_core_def informational_def)
  next
    case (matched gw1 m')
    have "fst (authenticate ?env (gw_cfg gw1) r) = fst (authenticate env (gw_cfg gw) r)"
      using matched(2) by (simp add: same_core_def)
    with matched assms(1-4) have "ServeHTTP ?env gw w r = reject env gw1 w r ''Unauthorized'' 401"
      by (simp add: authorize_def)
    with matched(2) reject_result [OF assms(5), of 401 env gw1 r "''Unauthorized''"] show ?thesis
      by (auto simp: same_core_def informational_def)
  qed
qed

theorem protected_route_guarded_witness:
  "\<exists>gw' w' e. ServeHTTP (example_env 0) (example_gateway True ''least-conn'') (fresh_writer True True)
      (example_request ''GET'' ''ex.com'' ''/api/x'') = Inr (gw', w', e) \<and>
    client_status w' \<in> {401, 429}"
proof -
  let ?gw = "example_gateway True ''least-conn''" and ?r = "example_request ''GET'' ''ex.com'' ''/api/x''"
  have m: "Route (gw_router ?gw) (req_Host ?r) (req_Path ?r) =
      Some \<lparr>mr_Name = [], mr_Pool = 0, mr_BackendPath = ''/x'', mr_RequireAuth = True, mr_Timeout = hour\<rparr>"
    by code_simp
  have "\<not> isPublicEndpoint (req_Path ?r)" by code_simp
  moreover have "\<not> fst (authenticate (example_env 0) (gw_cfg ?gw) ?r)" by code_simp
  moreover have "fresh (fresh_writer True True)" by (simp add: fresh_def fresh_writer_def)
  moreover have "example_env 0 = (example_env 0)\<lparr>en_proxy := en_proxy (example_env 0)\<rparr>" by simp
  ultimately show ?thesis
    using protected_route_guarded [OF m, of "example_env 0" "fresh_writer True True" "en_proxy (example_env 0)"]
    by (metis MatchedRoute.select_convs(4))
qed

text \<open>
  C14: a request whose path is not valid UTF-8 never returns normally from the handler.
  For a metrics library that accepts exactly UTF-8 label values (as client_golang does), a
  valid method and routes with valid prefixes: on such a path the handler ends in a panic,
  at the latest when it labels its metrics after the response has been produced, and neither
  counter nor histogram records the request. On a valid path the handler returns normally
  unless the reverse proxy panics (as it does to abort a response it cannot finish) or the
  choice of a backend panics (the end \<open>Inl\<close>, which has no state).
\<close>

theorem handler_aborts_on_invalid_path:
  assumes "ServeHTTP env gw w r = Inr (gw', w', e)" and "label_contract (en_labels env)"
    and "valid_utf8 (req_Method r)"
    and "list_all (\<lambda>x. valid_utf8 (re_Prefix x)) (sr_routes (gw_router gw))"
  shows "(\<not> valid_utf8 (req_Path r) \<longrightarrow> e = AbortedHandler \<and>
       mt_requests (gw_metrics gw') = mt_requests (gw_metrics gw) \<and>
       mt_durations (gw_metrics gw') = mt_durations (gw_metrics gw)) \<and>
    (valid_utf8 (req_Path r) \<and> (\<forall>k px d q. snd (en_proxy env k px d q) \<noteq> Panicked) \<longrightarrow> e = Finished)"
proof -
  let ?calm = "\<forall>k px d q. snd (en_proxy env k px d q) \<noteq> Panicked"
  have "gated gw (valid_utf8 (req_Path r)) ?calm (gw', w', e)"
  proof (cases rule: ServeHTTP_cases [of env gw w r])
    case (refused gw1 msg code)
    with assms(1) gated_leave [OF _ assms(2,3), of _ code gw1 "(gw', w', e)" gw] show ?thesis
      by (simp add: reject_def same_core_def)
  next
    case (matched gw1 m)
    have path: "valid_utf8 (mr_BackendPath m) \<longleftrightarrow> valid_utf8 (req_Path r)"
      by (rule valid_backend_path [OF matched(3) assms(4)])
    show ?thesis
    proof (cases rule: authorize_cases [of env gw1 w r "getClientIP r" m])
      case unauthorized
      with assms(1) matched gated_leave [OF _ assms(2,3), of _ 401 gw1 "(gw', w', e)" gw] show ?thesis
        by (simp add: reject_def same_core_def)
    next
      case (hit v)
      with assms(1) matched gated_leave [OF _ assms(2,3), of _ 200 _ "(gw', w', e)" gw] show ?thesis
        by (fastforce simp: same_core_def)
    next
      case (proxied w1)
      with assms(1) matched gated_dispatch [OF _ assms(2,3) _ _ path, of gw1 w1 "getClientIP r" _ gw]
      show ?thesis by (simp add: same_core_def)
    qed
  qed
  then show ?thesis by (cases e) (auto simp: gated_def)
qed

theorem handler_aborts_on_invalid_path_witness:
  "\<exists>gw' w'. ServeHTTP ((example_env 0)\<lparr>en_labels := text_labels\<rparr>)
      (example_gateway False ''least-conn'') (fresh_writer True True)
      (example_request ''GET'' ''ex.com'' [CHR ''/'', CHR 0xFF]) = Inr (gw', w', AbortedHandler)"
proof -
  let ?env = "(example_env 0)\<lparr>en_labels := text_labels\<rparr>" and ?gw = "example_gateway False ''least-conn''"
  let ?w = "fresh_writer True True" and ?r = "example_request ''GET'' ''ex.com'' [CHR ''/'', CHR 0xFF]"
  have none: "Route (gw_router ?gw) (req_Host ?r) (req_Path ?r) = None" by code_simp
  have "\<exists>gw' w' e. ServeHTTP ?env ?gw ?w ?r = Inr (gw', w', e)"
  proof (cases rule: ServeHTTP_cases [of ?env ?gw ?w ?r])
    case (refused gw1 msg code)
    then show ?thesis using leave_total [of ?env ?r _ code gw1] by (metis reject_def)
  qed (simp add: none)
  then obtain gw' w' e where run: "ServeHTTP ?env ?gw ?w ?r = Inr (gw', w', e)" by blast
  have contract: "label_contract (en_labels ?env)" by (simp add: text_labels_contract)
  have verb: "valid_utf8 (req_Method ?r)" by (intro ascii_valid) (simp add: example_request_def)
  have "list_all (\<lambda>x. list_all (\<lambda>c. \<not> digit7 c) (re_Prefix x)) (sr_routes (gw_router ?gw))" by code_simp
  then have prefixes: "list_all (\<lambda>x. valid_utf8 (re_Prefix x)) (sr_routes (gw_router ?gw))"
    by (auto simp: list_all_iff intro!: ascii_valid iffD2 [OF ascii_bits])
  have "\<not> valid_utf8 [CHR ''/'', CHR 0xFF]" by (simp add: valid_utf8_def decodeRune_def encodeRune_def RuneError_def)
  with handler_aborts_on_invalid_path [OF run contract verb prefixes] have "e = AbortedHandler"
    by (simp add: example_request_def)
  with run show ?thesis by auto
qed

end
