(* ===== verification/Go_Float.thy ===== *)
theory Go_Float
  imports Complex_Main "HOL-Library.Log_Nat" Go_Text
begin

text \<open>
  Go's \<open>float64\<close>: a value is not a number, an infinity or a rational; every operation
  computes the exact rational result and rounds it to 53 significant bits, ties to even,
  with gradual underflow below \<open>2\<^sup>-\<^sup>1\<^sup>0\<^sup>2\<^sup>2\<close> and overflow to an infinity. The two
  zeros of the format are one value here; the sources never look at the sign of a zero.
\<close>

section \<open>Rounding\<close>

definition round_even :: "rat \<Rightarrow> int" where
  "round_even q =
     (let f = \<lfloor>q\<rfloor>; d = q - of_int f
      in if d < 1 / 2 then f else if 1 / 2 < d then f + 1 else if even f then f else f + 1)"

text \<open>The exponent of the leading bit of a positive rational.\<close>

definition bits :: "int \<Rightarrow> int" where
  "bits a = int (floorlog 2 (nat a))"

definition rat_exp :: "rat \<Rightarrow> int" where
  "rat_exp q =
     (case quotient_of q of (a, b) \<Rightarrow>
        (let k = bits a - bits b in if 2 powi k \<le> q then k else k - 1))"

definition ulp_exp :: "rat \<Rightarrow> int" where
  "ulp_exp q = max (rat_exp \<bar>q\<bar> - 52) (- 1074)"

definition rnd :: "rat \<Rightarrow> rat" where
  "rnd q = (if q = 0 then 0 else of_int (round_even (q / 2 powi ulp_exp q)) * 2 powi ulp_exp q)"

section \<open>Values and operations\<close>

datatype float64 = NaN | PosInf | NegInf | Fin rat

definition to_float :: "rat \<Rightarrow> float64" where
  "to_float q =
     (if 2 ^ 1024 \<le> rnd q then PosInf else if rnd q \<le> - (2 ^ 1024) then NegInf else Fin (rnd q))"

definition of_go_int :: "int64 \<Rightarrow> float64" where
  "of_go_int n = to_float (of_int (sint n))"

definition of_go_uint :: "uint64 \<Rightarrow> float64" where
  "of_go_uint n = to_float (of_int (uint n))"

definition inf_of_sign :: "rat \<Rightarrow> float64" where
  "inf_of_sign q = (if q = 0 then NaN else if 0 < q then PosInf else NegInf)"

fun sign_of :: "float64 \<Rightarrow> rat" where
  "sign_of NaN = 0"
| "sign_of PosInf = 1"
| "sign_of NegInf = - 1"
| "sign_of (Fin q) = sgn q"

fun fadd :: "float64 \<Rightarrow> float64 \<Rightarrow> float64" where
  "fadd (Fin a) (Fin b) = to_float (a + b)"
| "fadd NaN y = NaN"
| "fadd x NaN = NaN"
| "fadd PosInf NegInf = NaN"
| "fadd NegInf PosInf = NaN"
| "fadd PosInf y = PosInf"
| "fadd NegInf y = NegInf"
| "fadd x PosInf = PosInf"
| "fadd x NegInf = NegInf"

fun fmul :: "float64 \<Rightarrow> float64 \<Rightarrow> float64" where
  "fmul (Fin a) (Fin b) = to_float (a * b)"
| "fmul NaN y = NaN"
| "fmul x NaN = NaN"
| "fmul x y = inf_of_sign (sign_of x * sign_of y)"

text \<open>The sources divide by non-zero numbers only, so the sign of a zero divisor is not needed.\<close>

fun fdiv :: "float64 \<Rightarrow> float64 \<Rightarrow> float64" where
  "fdiv (Fin a) (Fin b) = (if b = 0 then inf_of_sign a else to_float (a / b))"
| "fdiv NaN y = NaN"
| "fdiv x NaN = NaN"
| "fdiv (Fin a) y = Fin 0"
| "fdiv x (Fin b) = inf_of_sign (sign_of x * (if b = 0 then 1 else sgn b))"
| "fdiv x y = NaN"

fun flt :: "float64 \<Rightarrow> float64 \<Rightarrow> bool" where
  "flt (Fin a) (Fin b) \<longleftrightarrow> a < b"
| "flt NaN y \<longleftrightarrow> False"
| "flt x NaN \<longleftrightarrow> False"
| "flt NegInf y \<longleftrightarrow> y \<noteq> NegInf"
| "flt PosInf y \<longleftrightarrow> False"
| "flt x PosInf \<longleftrightarrow> True"
| "flt x NegInf \<longleftrightarrow> False"

text \<open>\<open>math.Round\<close> takes halves away from zero; an integer of that size is always representable.\<close>

fun math_Round :: "float64 \<Rightarrow> float64" where
  "math_Round (Fin q) = Fin (sgn q * of_int \<lfloor>\<bar>q\<bar> + 1 / 2\<rfloor>)"
| "math_Round x = x"

text \<open>
  The conversion \<open>int(f)\<close> drops the fraction. Out of range the language leaves the result
  to the implementation; on amd64 it is the smallest \<open>int64\<close>.
\<close>

definition truncate :: "rat \<Rightarrow> int" where
  "truncate q = (if 0 \<le> q then \<lfloor>q\<rfloor> else \<lceil>q\<rceil>)"

fun to_go_int :: "float64 \<Rightarrow> int64" where
  "to_go_int (Fin q) =
     (if - (2 ^ 63) \<le> truncate q \<and> truncate q < 2 ^ 63 then word_of_int (truncate q)
      else word_of_int (- (2 ^ 63)))"
| "to_go_int x = word_of_int (- (2 ^ 63))"

text \<open>\<open>%.kf\<close>: the exact value rounded to \<open>k\<close> decimals, ties to even.\<close>

definition fixed_digits :: "nat \<Rightarrow> nat \<Rightarrow> string" where
  "fixed_digits k n = Itoa_nat (n div 10 ^ k) @ (if k = 0 then [] else ''.'' @ zero_pad k (int (n mod 10 ^ k)))"

fun fmt_f :: "nat \<Rightarrow> float64 \<Rightarrow> string" where
  "fmt_f k (Fin q) = (if q < 0 then ''-'' else []) @ fixed_digits k (nat (round_even (\<bar>q\<bar> * 10 ^ k)))"
| "fmt_f k NaN = ''NaN''"
| "fmt_f k PosInf = ''+Inf''"
| "fmt_f k NegInf = ''-Inf''"

section \<open>Rounding to an integer\<close>

lemma round_even_of_int [simp]: "round_even (of_int n) = n"
  by (simp add: round_even_def)

lemma round_even_bounds: "of_int (round_even q) \<le> q + 1 / 2" "q - 1 / 2 \<le> of_int (round_even q)"
  unfolding round_even_def Let_def by (auto split: if_splits simp: field_simps) linarith+

lemma round_even_cases: "round_even q = \<lfloor>q\<rfloor> \<or> round_even q = \<lfloor>q\<rfloor> + 1"
  by (simp add: round_even_def Let_def)

lemma round_even_mono: "p \<le> q \<Longrightarrow> round_even p \<le> round_even q"
proof -
  assume pq: "p \<le> q"
  then have le: "\<lfloor>p\<rfloor> \<le> \<lfloor>q\<rfloor>" by (rule floor_mono)
  show ?thesis
  proof (cases "\<lfloor>p\<rfloor> = \<lfloor>q\<rfloor>")
    case True
    with pq show ?thesis by (auto simp: round_even_def Let_def)
  next
    case False
    with le show ?thesis using round_even_cases [of p] round_even_cases [of q] by linarith
  qed
qed

section \<open>Exponents\<close>

lemma pow2_less_iff [simp]: "(2 :: rat) powi m < 2 powi n \<longleftrightarrow> m < n"
  by (metis linorder_not_less one_less_numeral_iff one_le_numeral power_int_increasing
      power_int_strict_increasing semiring_norm(76))

lemma pow2_le_iff [simp]: "(2 :: rat) powi m \<le> 2 powi n \<longleftrightarrow> m \<le> n"
  using pow2_less_iff [of n m] by linarith

lemma bits_bounds: "0 < a \<Longrightarrow> 2 powi (bits a - 1) \<le> (of_int a :: rat) \<and> of_int a < (2 powi bits a :: rat)"
proof -
  assume a: "0 < a"
  define n where "n = nat a"
  have n: "0 < n" "(of_int a :: rat) = of_nat n" using a by (simp_all add: n_def)
  have "2 ^ (floorlog 2 n - 1) \<le> n" "n < 2 ^ floorlog 2 n" "0 < floorlog 2 n"
    using n floorlog_bounds [of n 2] floorlog_eq_zero_iff [of 2 n] by auto
  then have "(2 :: rat) ^ (floorlog 2 n - 1) \<le> of_nat n" "(of_nat n :: rat) < 2 ^ floorlog 2 n" "0 < floorlog 2 n"
    by (metis of_nat_le_iff of_nat_numeral of_nat_power, metis of_nat_less_iff of_nat_numeral of_nat_power, simp)
  then show ?thesis
    unfolding n(2) bits_def n_def [symmetric] by (simp add: power_int_def nat_diff_distrib')
qed

lemma rat_exp_bounds:
  assumes "0 < q"
  shows "2 powi rat_exp q \<le> q" "q < 2 powi (rat_exp q + 1)"
proof -
  obtain a b where ab: "quotient_of q = (a, b)" by (metis surj_pair)
  have b: "0 < b" using quotient_of_denom_pos [OF ab] .
  have q: "q = of_int a / of_int b" using quotient_of_div [OF ab] .
  have a: "0 < a" using assms b unfolding q by (simp add: zero_less_divide_iff)
  note ba = bits_bounds [OF a] and bb = bits_bounds [OF b]
  define k where "k = bits a - bits b"
  have "q < 2 powi bits a / 2 powi (bits b - 1)"
    unfolding q using ba bb a b by (intro frac_less) auto
  also have "\<dots> = 2 powi (k + 1)" by (simp add: k_def power_int_diff power_int_add)
  finally have up: "q < 2 powi (k + 1)" .
  have "2 powi (k - 1) = (2 powi (bits a - 1) / 2 powi bits b :: rat)"
    by (simp add: k_def power_int_diff)
  also have "\<dots> \<le> q"
    unfolding q using ba bb a b by (intro frac_le) auto
  finally have lo: "2 powi (k - 1) \<le> q" .
  have e: "rat_exp q = (if 2 powi k \<le> q then k else k - 1)"
    by (simp add: rat_exp_def ab k_def Let_def)
  from up lo show "2 powi rat_exp q \<le> q" "q < 2 powi (rat_exp q + 1)"
    unfolding e by auto
qed

lemma rat_exp_mono: "0 < p \<Longrightarrow> p \<le> q \<Longrightarrow> rat_exp p \<le> rat_exp q"
proof -
  assume p: "0 < p" "p \<le> q"
  then have "2 powi rat_exp p < (2 :: rat) powi (rat_exp q + 1)"
    using rat_exp_bounds(1) [of p] rat_exp_bounds(2) [of q] by linarith
  then show ?thesis by simp
qed

section \<open>Rounding to 53 bits\<close>

lemma pow2_integer: "j \<le> k \<Longrightarrow> of_int n * 2 powi k / 2 powi j = (of_int (n * 2 ^ nat (k - j)) :: rat)"
proof -
  assume "j \<le> k"
  then have "(2 :: rat) powi k = 2 ^ nat (k - j) * 2 powi j"
    using power_int_add [of "2 :: rat" "k - j" j] by (simp add: power_int_def [of _ "k - j"])
  then show ?thesis by simp
qed

lemma rnd_exact: "q / 2 powi ulp_exp q = of_int m \<Longrightarrow> rnd q = q"
proof -
  assume m: "q / 2 powi ulp_exp q = of_int m"
  then have "q = of_int m * 2 powi ulp_exp q" by (simp add: divide_eq_eq)
  then show ?thesis by (simp add: rnd_def m)
qed

lemma rnd_0 [simp]: "rnd 0 = 0"
  by (simp add: rnd_def)

text \<open>A multiple of a power of two with at most 53 bits is its own rounding.\<close>

lemma rnd_dyadic:
  assumes "0 \<le> n" "n < 2 ^ 53" "- 1074 \<le> k"
  shows "rnd (of_int n * 2 powi k) = of_int n * 2 powi k"
proof (cases "n = 0")
  case False
  let ?q = "of_int n * 2 powi k :: rat"
  have q: "0 < ?q" using assms(1) False by simp
  have "?q < 2 ^ 53 * 2 powi k"
    using assms(2) by (metis mult_less_cancel_right_pos of_int_less_iff of_int_numeral of_int_power
        zero_less_numeral zero_less_power_int)
  also have "\<dots> = 2 powi (k + 53)" by (simp add: power_int_add)
  finally have "2 powi rat_exp ?q < (2 :: rat) powi (k + 53)"
    using rat_exp_bounds(1) [OF q] by linarith
  then have "ulp_exp ?q \<le> k" using assms(3) q by (simp add: ulp_exp_def)
  from rnd_exact [OF pow2_integer [OF this, of n]] show ?thesis .
qed simp

lemma rnd_of_int: "0 \<le> n \<Longrightarrow> n < 2 ^ 53 \<Longrightarrow> rnd (of_int n) = of_int n"
  using rnd_dyadic [of n 0] by simp

lemma rnd_pow2: "- 1074 \<le> k \<Longrightarrow> rnd (2 powi k) = 2 powi k"
  using rnd_dyadic [of 1 k] by simp

text \<open>A multiple of the unit in the last place bounds the rounding of what it bounds.\<close>

lemma rnd_upper:
  assumes "0 < q" "q \<le> of_int n * 2 powi k" "ulp_exp q \<le> k"
  shows "rnd q \<le> of_int n * 2 powi k"
proof -
  let ?u = "2 powi ulp_exp q :: rat"
  have "q / ?u \<le> of_int (n * 2 ^ nat (k - ulp_exp q))"
    using assms(2) unfolding pow2_integer [OF assms(3), symmetric] by (simp add: divide_right_mono)
  then have "round_even (q / ?u) \<le> n * 2 ^ nat (k - ulp_exp q)"
    using round_even_mono round_even_of_int by metis
  then have "of_int (round_even (q / ?u)) \<le> of_int n * 2 powi k / ?u"
    unfolding pow2_integer [OF assms(3)] by (simp only: of_int_le_iff)
  then show ?thesis using assms(1) by (simp add: rnd_def pos_le_divide_eq)
qed

lemma rnd_lower:
  assumes "0 < q" "of_int n * 2 powi k \<le> q" "ulp_exp q \<le> k"
  shows "of_int n * 2 powi k \<le> rnd q"
proof -
  let ?u = "2 powi ulp_exp q :: rat"
  have "of_int (n * 2 ^ nat (k - ulp_exp q)) \<le> q / ?u"
    using assms(2) unfolding pow2_integer [OF assms(3), symmetric] by (simp add: divide_right_mono)
  then have "n * 2 ^ nat (k - ulp_exp q) \<le> round_even (q / ?u)"
    using round_even_mono round_even_of_int by metis
  then have "of_int n * 2 powi k / ?u \<le> of_int (round_even (q / ?u))"
    unfolding pow2_integer [OF assms(3)] by (simp only: of_int_le_iff)
  then show ?thesis using assms(1) by (simp add: rnd_def pos_divide_le_eq)
qed

lemma rnd_nonneg: "0 \<le> q \<Longrightarrow> 0 \<le> rnd q"
  using rnd_lower [of q 0 "ulp_exp q"] by (cases "q = 0") auto

lemma rnd_mono:
  assumes "0 \<le> p" "p \<le> q"
  shows "rnd p \<le> rnd q"
proof (cases "p = 0")
  case False
  with assms have pos: "0 < p" "0 < q" by auto
  have le: "rat_exp p \<le> rat_exp q" using rat_exp_mono pos(1) assms(2) .
  show ?thesis
  proof (cases "ulp_exp p = ulp_exp q")
    case True
    have "p / 2 powi ulp_exp q \<le> q / 2 powi ulp_exp q" using assms(2) by (simp add: divide_right_mono)
    then show ?thesis using pos True by (simp add: rnd_def round_even_mono)
  next
    case False
    with le pos have lt: "rat_exp p + 1 \<le> rat_exp q" "ulp_exp p \<le> rat_exp q" "ulp_exp q \<le> rat_exp q"
      by (auto simp: ulp_exp_def)
    from lt(1) have "p \<le> 2 powi rat_exp q"
      using rat_exp_bounds(2) [OF pos(1)] pow2_le_iff [of "rat_exp p + 1" "rat_exp q"] by linarith
    with lt have "rnd p \<le> 2 powi rat_exp q" using rnd_upper [OF pos(1), of 1] by simp
    also have "\<dots> \<le> rnd q" using rnd_lower [OF pos(2), of 1] rat_exp_bounds(1) [OF pos(2)] lt by simp
    finally show ?thesis .
  qed
qed (use assms rnd_nonneg in auto)

lemma rnd_le_dyadic: "0 \<le> q \<Longrightarrow> q \<le> of_int n * 2 powi k \<Longrightarrow> 0 \<le> n \<Longrightarrow> n < 2 ^ 53 \<Longrightarrow> - 1074 \<le> k \<Longrightarrow>
   rnd q \<le> of_int n * 2 powi k"
  using rnd_mono [of q] rnd_dyadic [of n k] by metis

lemma rnd_ge_int: "of_int n \<le> q \<Longrightarrow> 0 \<le> n \<Longrightarrow> n < 2 ^ 53 \<Longrightarrow> of_int n \<le> rnd q"
  using rnd_mono [of "of_int n" q] rnd_of_int [of n] by simp

lemma rnd_le_int: "0 \<le> q \<Longrightarrow> q \<le> of_int n \<Longrightarrow> n < 2 ^ 53 \<Longrightarrow> rnd q \<le> of_int n"
  using rnd_mono [of q "of_int n"] rnd_of_int [of n] by (metis of_int_0_le_iff order_trans)

text \<open>Non-negative numbers up to \<open>2\<^sup>1\<^sup>0\<^sup>0\<close> do not overflow.\<close>

lemma to_float_Fin: "0 \<le> q \<Longrightarrow> q \<le> 2 ^ 100 \<Longrightarrow> to_float q = Fin (rnd q)"
proof -
  assume q: "0 \<le> q" "q \<le> 2 ^ 100"
  have "rnd q \<le> 2 ^ 100" using rnd_mono [OF q] rnd_pow2 [of 100] by (simp add: power_int_def)
  moreover have "(2 :: rat) ^ 100 < 2 ^ 1024" by (rule power_strict_increasing) auto
  ultimately have "rnd q < 2 ^ 1024" by linarith
  moreover have "- (2 ^ 1024) < rnd q" using rnd_nonneg [OF q(1)]
    by (meson less_le_trans neg_less_0_iff_less zero_less_numeral zero_less_power)
  ultimately show ?thesis by (simp add: to_float_def)
qed

lemma sint_to_go_int: "0 \<le> q \<Longrightarrow> q < 2 ^ 63 \<Longrightarrow> sint (to_go_int (Fin q)) = \<lfloor>q\<rfloor>"
proof -
  assume q: "0 \<le> q" "q < 2 ^ 63"
  then have "0 \<le> \<lfloor>q\<rfloor>" "\<lfloor>q\<rfloor> < 2 ^ 63" by (simp_all add: floor_less_iff)
  then show ?thesis using q by (simp add: truncate_def sint_word_of_int64)
qed

text \<open>The rounding error is at most half a unit in the last place.\<close>

lemma rnd_close:
  assumes "0 \<le> q" "q \<le> 2 powi k" "- 1022 \<le> k"
  shows "\<bar>rnd q - q\<bar> \<le> 2 powi (k - 53)"
proof (cases "q = 0")
  case False
  with assms(1) have q: "0 < q" by simp
  let ?u = "2 powi ulp_exp q :: rat"
  have "2 powi rat_exp q \<le> (2 :: rat) powi k" using rat_exp_bounds(1) [OF q] assms(2) by linarith
  then have "ulp_exp q \<le> k - 52" using assms(3) q by (simp add: ulp_exp_def)
  then have "?u \<le> 2 powi (k - 52)" by simp
  also have "\<dots> = 2 powi (k - 53) * 2" using power_int_add [of "2 :: rat" "k - 53" 1] by simp
  finally have u: "?u / 2 \<le> 2 powi (k - 53)" by simp
  have "\<bar>of_int (round_even (q / ?u)) - q / ?u\<bar> \<le> 1 / 2"
    using round_even_bounds [of "q / ?u"] by linarith
  then have "\<bar>of_int (round_even (q / ?u)) - q / ?u\<bar> * ?u \<le> 1 / 2 * ?u"
    by (rule mult_right_mono) simp
  moreover have "\<bar>of_int (round_even (q / ?u)) - q / ?u\<bar> * ?u = \<bar>rnd q - q\<bar>"
  proof -
    have "(of_int (round_even (q / ?u)) - q / ?u) * ?u = rnd q - q"
      using q by (simp add: rnd_def left_diff_distrib)
    moreover have "\<bar>?u\<bar> = ?u" by simp
    ultimately show ?thesis by (metis abs_mult)
  qed
  ultimately show ?thesis using u by linarith
qed simp

end
