(* ===== verification/Go_Json.thy ===== *)
theory Go_Json
  imports Go_Float Auth
begin

text \<open>
  The documents the handlers encode, and \<open>json.NewEncoder(w).Encode\<close>. The text of a
  document is a parameter; what the encoder refuses is not: a float that is not finite
  makes \<open>Encode\<close> return an error, which the handlers ignore, with nothing written.
\<close>

datatype json =
    JString string
  | JBool bool
  | JInt int
  | JFloat float64
  | JTime int
  | JNull
  | JArray "json list"
  | JObject "(string \<times> json) list"

text \<open>A nil slice encodes as \<open>null\<close>.\<close>

definition json_slice :: "json list \<Rightarrow> json" where
  "json_slice xs = (if xs = [] then JNull else JArray xs)"

fun encodable :: "json \<Rightarrow> bool" where
  "encodable (JFloat f) \<longleftrightarrow> (case f of Fin q \<Rightarrow> True | _ \<Rightarrow> False)"
| "encodable (JArray xs) \<longleftrightarrow> list_all encodable xs"
| "encodable (JObject kvs) \<longleftrightarrow> list_all (\<lambda>(k, v). encodable v) kvs"
| "encodable x \<longleftrightarrow> True"

definition json_Encode :: "(json \<Rightarrow> string) \<Rightarrow> json \<Rightarrow> ResponseWriter \<Rightarrow> ResponseWriter" where
  "json_Encode encode doc w = (if encodable doc then fst (w_Write w (encode doc @ [CHR 0x0A])) else w)"

definition write_json :: "(json \<Rightarrow> string) \<Rightarrow> json \<Rightarrow> ResponseWriter \<Rightarrow> ResponseWriter" where
  "write_json encode doc w =
     json_Encode encode doc (w_WriteHeader (set_header ''Content-Type'' ''application/json'' w) 200)"

end
