(* ===== verification/Admin.thy ===== *)
theory Admin
  imports Gateway Go_Json
begin

text \<open>
  \<open>handlers.go\<close> and \<open>main.go\<close>: the health, statistics, whitelist, blacklist and login
  handlers, and the tick of the health-check scheduler. The JSON encoder and the formatted
  time are parameters.
\<close>

section \<open>Handlers\<close>

definition backend_json :: "url_lib \<Rightarrow> Backend \<Rightarrow> json" where
  "backend_json urls b = JObject
     [(''url'', JString (ul_String urls (be_URL b))), (''alive'', JBool (IsAlive b)),
      (''connections'', JInt (sint (GetConnections b))), (''weight'', JInt (sint (be_Weight b)))]"

definition route_json :: "url_lib \<Rightarrow> ServiceRouter \<Rightarrow> RouteEntry \<Rightarrow> json" where
  "route_json urls sr entry = JObject
     [(''prefix'', JString (re_Prefix entry)), (''require_auth'', JBool (re_RequireAuth entry)),
      (''strip_prefix'', JBool (re_StripPrefix entry)),
      (''backends'', json_slice (map (backend_json urls) (Backends (sr_pools sr ! re_Pool entry))))]"

definition health_json :: "url_lib \<Rightarrow> string \<Rightarrow> ('r, 'l) Gateway \<Rightarrow> json" where
  "health_json urls timestamp gw = (let sr = gw_router gw in JObject
     [(''status'', JString ''healthy''), (''timestamp'', JString timestamp),
      (''version'', JString ''2.0.0''),
      (''circuit_breaker'', JString (GetState (gw_circuitBreaker gw))),
      (''routes'', json_slice (map (route_json urls sr) (Routes sr))),
      (''backends'', json_slice (concat (map (\<lambda>entry.
          map (backend_json urls) (Backends (sr_pools sr ! re_Pool entry))) (Routes sr))))])"

text \<open>
  The handler from the moment it has read the state of the breaker. \<open>GetState\<close> takes the
  breaker's mutex, which \<open>Call\<close> holds while a request is proxied, so the handler waits until
  then: see \<open>GetState_step\<close>, and the property of the health endpoint, which has both.
\<close>

definition healthHandler ::
  "(json \<Rightarrow> string) \<Rightarrow> url_lib \<Rightarrow> string \<Rightarrow> ('r, 'l) Gateway handler" where
  "healthHandler encode urls timestamp gw w r = (gw, write_json encode (health_json urls timestamp gw) w)"

definition whitelistHandler :: "(json \<Rightarrow> string) \<Rightarrow> ('r, 'l) Gateway handler" where
  "whitelistHandler encode gw w r =
     (if req_Method r \<noteq> ''POST'' then (gw, http_Error w ''Method not allowed'' 405)
      else let ip = Query_Get r ''ip''
           in if ip = [] then (gw, http_Error w ''IP parameter required'' 400)
              else (gw\<lparr>gw_ddosProtection := AddToWhitelist ip (gw_ddosProtection gw)\<rparr>,
                    write_json encode (JObject [(''status'', JString ''whitelisted''), (''ip'', JString ip)]) w))"

definition blacklistHandler :: "(json \<Rightarrow> string) \<Rightarrow> ('r, 'l) Gateway handler" where
  "blacklistHandler encode gw w r =
     (if req_Method r \<noteq> ''POST'' then (gw, http_Error w ''Method not allowed'' 405)
      else let ip = Query_Get r ''ip''
           in if ip = [] then (gw, http_Error w ''IP parameter required'' 400)
              else (gw\<lparr>gw_ddosProtection := AddToBlacklist ip (gw_ddosProtection gw)\<rparr>,
                    write_json encode (JObject [(''status'', JString ''blacklisted''), (''ip'', JString ip)]) w))"

definition statsHandler :: "(json \<Rightarrow> string) \<Rightarrow> ('r, 'l) Gateway handler" where
  "statsHandler encode gw w r =
     (gw, write_json encode (JObject
        [(''circuit_breaker_state'', JString (GetState (gw_circuitBreaker gw))),
         (''load_balancing_algo'', JString (cf_LoadBalancingAlgo (gw_cfg gw))),
         (''caching_enabled'', JBool (cf_EnableCaching (gw_cfg gw))),
         (''compression_enabled'', JBool (cf_EnableCompression (gw_cfg gw))),
         (''routes_count'', JInt (int (length (Routes (gw_router gw)))))]) w)"

definition loginHandler :: "('r, 'l) Gateway handler" where
  "loginHandler gw w r =
     (gw, fst (w_Write (w_WriteHeader (set_header ''Content-Type'' ''application/json'' w) 200)
        ''{\"message\":\"login endpoint - implement OAuth2/OIDC flow\"}''))"

section \<open>The scheduler\<close>

text \<open>The tick of the scheduler: a health round, then the gauge value of every backend.\<close>

definition health_tick :: "url_lib \<Rightarrow> NetEnv \<Rightarrow> ('r, 'l) Gateway \<Rightarrow> ('r, 'l) Gateway \<times> (string \<times> int) list" where
  "health_tick urls net gw =
     (let sr = HealthCheckAll net (gw_router gw)
      in (gw\<lparr>gw_router := sr\<rparr>,
          concat (map (\<lambda>entry. map (\<lambda>b. (ul_String urls (be_URL b), if IsAlive b then 1 else 0))
            (Backends (sr_pools sr ! re_Pool entry))) (Routes sr))))"

section \<open>Properties\<close>

lemma fresh_error_status: "fresh w \<Longrightarrow> \<not> informational code \<Longrightarrow> client_status (http_Error w msg code) = code"
  using http_Error_status [of w code msg] by (simp add: fresh_def client_status_def)

lemma write_json_status: "fresh w \<Longrightarrow> client_status (write_json encode doc w) = 200"
  by (simp add: write_json_def client_status_def fresh_def set_header_def w_Write_status w_WriteHeader_status
      json_Encode_def)

text \<open>
  C32: the admin endpoint whitelists for good, without asking who is calling. A POST with an
  \<open>ip\<close> parameter, whatever its headers, is answered with 200 and from then on, through any
  sequence of requests, listings and clean-up passes, that IP is neither refused nor
  counted; any other request is answered with 405 or 400 and changes nothing.
\<close>

theorem whitelist_endpoint_effect:
  assumes "fresh w"
  shows "let ip = Query_Get r ''ip''; (gw', w') = whitelistHandler encode gw w r in
    if req_Method r = ''POST'' \<and> ip \<noteq> [] then
      client_status w' = 200 \<and>
      (\<forall>evs t. \<not> snd (IsBlocked t (foldl ddos_tick (gw_ddosProtection gw') evs) ip) \<and>
         \<not> snd (RecordRequest t (foldl ddos_tick (gw_ddosProtection gw') evs) ip))
    else client_status w' = (if req_Method r = ''POST'' then 400 else 405) \<and> gw' = gw"
proof -
  let ?ip = "Query_Get r ''ip''"
  have "?ip \<in> dd_whitelist (AddToWhitelist ?ip (gw_ddosProtection gw))" by (simp add: AddToWhitelist_def)
  then have "?ip \<in> dd_whitelist (foldl ddos_tick (AddToWhitelist ?ip (gw_ddosProtection gw)) evs)" for evs
    by (rule whitelisted.run_inv)
  with assms show ?thesis
    by (auto simp: whitelistHandler_def Let_def fresh_error_status write_json_status informational_def
        IsBlocked_def RecordRequest_def)
qed

theorem whitelist_endpoint_effect_witness:
  "\<not> snd (IsBlocked 9 (foldl ddos_tick (gw_ddosProtection (fst (whitelistHandler (\<lambda>_. [])
      (example_gateway False ''least-conn'') (fresh_writer True True)
      ((example_request ''POST'' ''ex.com'' ''/admin/whitelist'')\<lparr>req_Query := [''ip'' \<mapsto> [''6.6.6.6'']]\<rparr>))))
      [(5, Some (OpBlacklist ''6.6.6.6''))]) ''6.6.6.6'')"
proof -
  let ?r = "(example_request ''POST'' ''ex.com'' ''/admin/whitelist'')\<lparr>req_Query := [''ip'' \<mapsto> [''6.6.6.6'']]\<rparr>"
  have "fresh (fresh_writer True True)" by (simp add: fresh_def fresh_writer_def)
  from whitelist_endpoint_effect [OF this, of ?r "\<lambda>_. []" "example_gateway False ''least-conn''"]
  show ?thesis
    by (cases "whitelistHandler (\<lambda>_. []) (example_gateway False ''least-conn'') (fresh_writer True True) ?r")
      (simp add: Let_def Query_Get_def example_request_def del: foldl_Cons)
qed

end
