(* ===== verification/Ansi.thy ===== *)
theory Ansi
  imports Go_Text
begin

text \<open>
  The escape sequences of \<open>logger.go\<close> and \<open>dashboard.go\<close> and \<open>stripANSI\<close>, which
  removes them again. The lemmas say how stripping walks over a concatenation of plain
  text and colour codes.
\<close>

section \<open>Palette\<close>

abbreviation ESC :: char where "ESC \<equiv> CHR 0x1B"

definition sgr :: "string \<Rightarrow> string" where
  "sgr params = ESC # CHR ''['' # params @ ''m''"

definition clReset :: string where "clReset = sgr ''0''"
definition clBold :: string where "clBold = sgr ''1''"
definition clDim :: string where "clDim = sgr ''2''"
definition clCyan :: string where "clCyan = sgr ''36''"
definition clGreen :: string where "clGreen = sgr ''32''"
definition clYellow :: string where "clYellow = sgr ''33''"
definition clRed :: string where "clRed = sgr ''31''"
definition clMagenta :: string where "clMagenta = sgr ''35''"
definition clBlue :: string where "clBlue = sgr ''34''"
definition clWhite :: string where "clWhite = sgr ''97''"
definition clGray :: string where "clGray = sgr ''90''"

text \<open>Clear screen, hide cursor and show cursor do not end in \<open>m\<close>.\<close>

definition clClear :: string where "clClear = ESC # ''[2J'' @ ESC # ''[H''"
definition clHide :: string where "clHide = ESC # ''[?25l''"
definition clShow :: string where "clShow = ESC # ''[?25h''"

lemmas cl_defs = clReset_def clBold_def clDim_def clCyan_def clGreen_def clYellow_def clRed_def
  clMagenta_def clBlue_def clWhite_def clGray_def

section \<open>Stripping\<close>

fun strip_loop :: "bool \<Rightarrow> rune list \<Rightarrow> string" where
  "strip_loop inEsc [] = []"
| "strip_loop inEsc (c # rs) =
     (if c = 27 then strip_loop True rs
      else if inEsc then strip_loop (c \<noteq> 109) rs
      else encodeRune c @ strip_loop False rs)"

definition stripANSI :: "string \<Rightarrow> string" where
  "stripANSI s = strip_loop False (runes s)"

text \<open>Text that shows as it is.\<close>

definition plain :: "string \<Rightarrow> bool" where
  "plain s \<longleftrightarrow> valid_utf8 s \<and> 27 \<notin> set (runes s)"

lemma strip_loop_plain: "27 \<notin> set rs \<Longrightarrow> strip_loop False (rs @ rs') = utf8 rs @ strip_loop False rs'"
  by (induction rs) auto

lemma strip_Nil [simp]: "stripANSI [] = []"
  by (simp add: stripANSI_def)

lemma strip_append_plain: "plain s \<Longrightarrow> stripANSI (s @ t) = s @ stripANSI t"
  by (auto simp: plain_def stripANSI_def runes_append strip_loop_plain valid_utf8_def)

lemma strip_plain: "plain s \<Longrightarrow> stripANSI s = s"
  using strip_append_plain [of s "[]"] by simp

lemma strip_loop_esc: "27 \<notin> set rs \<Longrightarrow> 109 \<notin> set rs \<Longrightarrow> strip_loop True (rs @ 109 # rs') = strip_loop False rs'"
  by (induction rs) auto

definition sgr_params :: "string \<Rightarrow> bool" where
  "sgr_params p \<longleftrightarrow> ascii p \<and> CHR ''m'' \<notin> set p \<and> ESC \<notin> set p"

lemma of_char_codes [simp]: "of_char x = (27 :: nat) \<longleftrightarrow> x = ESC" "of_char x = (109 :: nat) \<longleftrightarrow> x = CHR ''m''"
  using of_char_eq_iff [of x ESC, where 'a = nat] of_char_eq_iff [of x "CHR ''m''", where 'a = nat] by simp_all

lemma strip_sgr: "sgr_params p \<Longrightarrow> stripANSI (sgr p @ t) = stripANSI t"
proof -
  assume p: "sgr_params p"
  then have a: "ascii (sgr p)" by (simp add: sgr_params_def sgr_def)
  have "(27 :: nat) \<notin> set (91 # map of_char p)" "(109 :: nat) \<notin> set (91 # map of_char p)"
    using p by (auto simp: sgr_params_def eq_commute [of _ "of_char _"])
  from strip_loop_esc [OF this] have "strip_loop False (map of_char (sgr p) @ runes t) = stripANSI t"
    by (simp add: sgr_def stripANSI_def)
  then show ?thesis
    by (simp only: stripANSI_def runes_append [OF ascii_valid [OF a]] runes_ascii [OF a])
qed

lemma strip_colour [simp]:
  "stripANSI (clReset @ t) = stripANSI t" "stripANSI (clBold @ t) = stripANSI t"
  "stripANSI (clDim @ t) = stripANSI t" "stripANSI (clCyan @ t) = stripANSI t"
  "stripANSI (clGreen @ t) = stripANSI t" "stripANSI (clYellow @ t) = stripANSI t"
  "stripANSI (clRed @ t) = stripANSI t" "stripANSI (clMagenta @ t) = stripANSI t"
  "stripANSI (clBlue @ t) = stripANSI t" "stripANSI (clWhite @ t) = stripANSI t"
  "stripANSI (clGray @ t) = stripANSI t"
  unfolding cl_defs by (rule strip_sgr, simp add: sgr_params_def)+

lemma strip_colour_end [simp]:
  "stripANSI clReset = []"
  using strip_colour(1) [of "[]"] by simp

lemma plain_Nil [simp]: "plain []"
  by (simp add: plain_def)

lemma plain_append [intro]: "plain s \<Longrightarrow> plain t \<Longrightarrow> plain (s @ t)"
  by (auto simp: plain_def valid_utf8_append runes_append)

lemma plain_ascii: "ascii s \<Longrightarrow> ESC \<notin> set s \<Longrightarrow> plain s"
  by (auto simp: plain_def ascii_valid runes_ascii eq_commute [of _ "of_char _"])

lemma strip_char [simp]: "of_char c < (0x80 :: nat) \<Longrightarrow> c \<noteq> ESC \<Longrightarrow> stripANSI (c # t) = c # stripANSI t"
  using strip_append_plain [OF plain_ascii [of "[c]"], of t] by simp

lemma plain_spaces [simp]: "plain (spaces n)"
  by (rule plain_ascii) auto

lemma plain_utf8: "(\<forall>r \<in> set rs. valid_rune r \<and> r \<noteq> 27) \<Longrightarrow> plain (utf8 rs)"
  by (auto simp: plain_def valid_utf8_utf8 runes_utf8)

lemma plain_rune: "valid_rune r \<Longrightarrow> r \<noteq> 27 \<Longrightarrow> plain (encodeRune r)"
  using plain_utf8 [of "[r]"] by simp

lemma plain_repeated: "plain s \<Longrightarrow> plain (repeated n s)"
  by (induction n) auto

text \<open>What is left is free of escapes, so stripping twice is stripping once.\<close>

lemma strip_loop_plain_result: "(\<forall>r \<in> set rs. valid_rune r) \<Longrightarrow> plain (strip_loop b rs)"
  by (induction rs arbitrary: b) (auto simp: plain_rune)

lemma plain_stripANSI: "plain (stripANSI s)"
  by (simp add: stripANSI_def strip_loop_plain_result runes_valid)

lemma stripANSI_idem: "stripANSI (stripANSI s) = stripANSI s"
  by (simp add: strip_plain plain_stripANSI)

section \<open>Coloured text\<close>

text \<open>Text that is valid UTF-8 and does not end inside an escape sequence.\<close>

fun esc_state :: "bool \<Rightarrow> rune list \<Rightarrow> bool" where
  "esc_state inEsc [] = inEsc"
| "esc_state inEsc (c # rs) = esc_state (c = 27 \<or> inEsc \<and> c \<noteq> 109) rs"

definition well_coloured :: "string \<Rightarrow> bool" where
  "well_coloured s \<longleftrightarrow> valid_utf8 s \<and> \<not> esc_state False (runes s)"

lemma esc_state_append [simp]: "esc_state b (rs @ rs') = esc_state (esc_state b rs) rs'"
  by (induction rs arbitrary: b) auto

lemma strip_loop_append: "strip_loop b (rs @ rs') = strip_loop b rs @ strip_loop (esc_state b rs) rs'"
  by (induction rs arbitrary: b) auto

lemma strip_append: "well_coloured s \<Longrightarrow> stripANSI (s @ t) = stripANSI s @ stripANSI t"
  by (simp add: well_coloured_def stripANSI_def runes_append strip_loop_append)

lemma well_coloured_append: "well_coloured s \<Longrightarrow> well_coloured t \<Longrightarrow> well_coloured (s @ t)"
  by (simp add: well_coloured_def valid_utf8_append runes_append)

lemma esc_state_plain: "27 \<notin> set rs \<Longrightarrow> \<not> esc_state False rs"
  by (induction rs) auto

lemma esc_state_sgr: "27 \<notin> set rs \<Longrightarrow> \<not> esc_state b (rs @ [109])"
  by (induction rs arbitrary: b) auto

lemma well_coloured_plain: "plain s \<Longrightarrow> well_coloured s"
  by (simp add: plain_def well_coloured_def esc_state_plain)

lemma well_coloured_sgr: "sgr_params p \<Longrightarrow> well_coloured (sgr p)"
proof -
  assume p: "sgr_params p"
  then have a: "ascii (sgr p)" by (simp add: sgr_params_def sgr_def)
  have "27 \<notin> set (91 # map of_char p :: nat list)"
    using p by (auto simp: sgr_params_def eq_commute [of _ "of_char _"])
  from esc_state_sgr [OF this, of True] show ?thesis
    using a by (simp add: well_coloured_def ascii_valid runes_ascii [OF a]) (simp add: sgr_def)
qed

lemma well_coloured_palette [simp]:
  "well_coloured clReset" "well_coloured clBold" "well_coloured clDim" "well_coloured clCyan" "well_coloured clGreen"
  "well_coloured clYellow" "well_coloured clRed" "well_coloured clMagenta" "well_coloured clBlue"
  "well_coloured clWhite" "well_coloured clGray"
  unfolding cl_defs by (rule well_coloured_sgr, simp add: sgr_params_def)+

text \<open>The columns a line takes on a terminal.\<close>

definition columns :: "string \<Rightarrow> nat" where
  "columns s = RuneCount (stripANSI s)"

lemma columns_append: "well_coloured s \<Longrightarrow> columns (s @ t) = columns s + columns t"
  using plain_stripANSI [of s] by (simp add: columns_def strip_append RuneCount_append plain_def)

lemma columns_plain: "plain s \<Longrightarrow> columns (s @ t) = RuneCount s + columns t"
  by (simp add: columns_def strip_append_plain RuneCount_append plain_def)

lemma columns_colour [simp]:
  "columns (clReset @ t) = columns t" "columns (clBold @ t) = columns t" "columns (clCyan @ t) = columns t"
  "columns (clGreen @ t) = columns t" "columns (clYellow @ t) = columns t" "columns (clWhite @ t) = columns t"
  "columns (clGray @ t) = columns t" "columns clReset = 0" "columns [] = 0"
  by (simp_all add: columns_def) (simp_all add: RuneCount_def)

lemma columns_char [simp]: "of_char c < (0x80 :: nat) \<Longrightarrow> c \<noteq> ESC \<Longrightarrow> columns (c # t) = Suc (columns t)"
  using columns_plain [OF plain_ascii [of "[c]"], of t] by (simp add: RuneCount_ascii)

lemma columns_rune [simp]:
  "valid_rune r \<Longrightarrow> r \<noteq> 27 \<Longrightarrow> columns (encodeRune r @ t) = Suc (columns t)"
  using runes_encodeRune [of r "[]"] by (simp add: columns_plain plain_rune) (simp add: RuneCount_def)

lemma columns_spaces [simp]: "columns (spaces n @ t) = n + columns t"
  by (simp add: columns_plain)

end
