(* ===== verification/Logger.thy ===== *)
theory Logger
  imports Ansi
begin

text \<open>
  \<open>logger.go\<close>: levels, the environment variables that choose level and colour, the
  construction of a log line and the banner. A logger's writer receives whole strings;
  every function here returns the list of writes it makes, in order. The clock enters as
  the formatted timestamp. The mutex only orders concurrent writes.
\<close>

section \<open>Levels\<close>

type_synonym LogLevel = goint

definition LevelDebug :: LogLevel where "LevelDebug = 0"
definition LevelInfo :: LogLevel where "LevelInfo = 1"
definition LevelWarn :: LogLevel where "LevelWarn = 2"
definition LevelError :: LogLevel where "LevelError = 3"

lemmas level_defs = LevelDebug_def LevelInfo_def LevelWarn_def LevelError_def

definition LogLevel_String :: "LogLevel \<Rightarrow> string" where
  "LogLevel_String l =
     (if l = LevelDebug then ''DEBUG'' else if l = LevelInfo then ''INFO''
      else if l = LevelWarn then ''WARN'' else if l = LevelError then ''ERROR'' else ''?'')"

definition parseLogLevel :: "string \<Rightarrow> LogLevel" where
  "parseLogLevel s =
     (let u = ToUpper (TrimSpace s)
      in if u = ''DEBUG'' then LevelDebug
         else if u = ''INFO'' \<or> u = [] then LevelInfo
         else if u = ''WARN'' \<or> u = ''WARNING'' then LevelWarn
         else if u = ''ERROR'' then LevelError
         else LevelInfo)"

text \<open>\<open>getenv\<close> is \<open>os.Getenv\<close>, which answers the empty string for an unset variable.\<close>

definition useColorEnv :: "(string \<Rightarrow> string) \<Rightarrow> string \<Rightarrow> bool" where
  "useColorEnv getenv goos =
     (if getenv ''NO_COLOR'' \<noteq> [] then False
      else if getenv ''FORCE_COLOR'' \<noteq> [] then True
      else if goos = ''windows'' then
        (let trm = ToLower (getenv ''TERM''); colorTerm = getenv ''COLORTERM''
         in Contains trm ''color'' \<or> Contains trm ''256'' \<or> colorTerm = ''truecolor'' \<or>
            colorTerm = ''24bit'' \<or> colorTerm \<noteq> [])
      else True)"

section \<open>Loggers\<close>

record Logger =
  lg_level :: LogLevel
  lg_useColor :: bool
  lg_component :: string

record requestLogger =
  rl_Logger :: Logger
  rl_requestID :: string

definition defaultLogger :: "(string \<Rightarrow> string) \<Rightarrow> string \<Rightarrow> Logger" where
  "defaultLogger getenv goos =
     \<lparr>lg_level = parseLogLevel (getenv ''LOG_LEVEL''), lg_useColor = useColorEnv getenv goos, lg_component = []\<rparr>"

definition WithComponent :: "Logger \<Rightarrow> string \<Rightarrow> Logger" where
  "WithComponent l component = \<lparr>lg_level = lg_level l, lg_useColor = lg_useColor l, lg_component = component\<rparr>"

definition WithRequestID :: "Logger \<Rightarrow> string \<Rightarrow> requestLogger" where
  "WithRequestID l requestID = \<lparr>rl_Logger = l, rl_requestID = requestID\<rparr>"

section \<open>Values\<close>

text \<open>
  The dynamic types the program logs, and \<open>fmt.Sprint\<close> of one operand. An error is
  printed through its \<open>Error\<close> method, a nil interface as \<open><nil>\<close>.
\<close>

datatype log_value =
    VString string
  | VInt int
  | VBool bool
  | VError "string option"
  | VDuration duration

text \<open>\<open>Duration.String\<close>: the fraction without trailing zeros, then the units from the largest.\<close>

definition frac_text :: "nat \<Rightarrow> nat \<Rightarrow> string" where
  "frac_text prec v =
     (let f = v mod 10 ^ prec
      in if f = 0 then [] else ''.'' @ rev (dropWhile (\<lambda>c. c = CHR ''0'') (rev (zero_pad prec (int f)))))"

definition Duration_String :: "duration \<Rightarrow> string" where
  "Duration_String d =
     (let u = nat \<bar>sint d\<bar>; sgn = (if sint d < 0 then ''-'' else []) in
      if u = 0 then ''0s''
      else if u < 10 ^ 3 then sgn @ Itoa_nat u @ ''ns''
      else if u < 10 ^ 6 then sgn @ Itoa_nat (u div 10 ^ 3) @ frac_text 3 u @ encodeRune 0xB5 @ ''s''
      else if u < 10 ^ 9 then sgn @ Itoa_nat (u div 10 ^ 6) @ frac_text 6 u @ ''ms''
      else let secs = u div 10 ^ 9; mins = secs div 60; hrs = mins div 60 in
        sgn @ (if 0 < hrs then Itoa_nat hrs @ ''h'' else [])
            @ (if 0 < mins then Itoa_nat (mins mod 60) @ ''m'' else [])
            @ Itoa_nat (secs mod 60) @ frac_text 9 u @ ''s'')"

fun Sprint :: "log_value \<Rightarrow> string" where
  "Sprint (VString s) = s"
| "Sprint (VInt i) = Itoa i"
| "Sprint (VBool b) = (if b then ''true'' else ''false'')"
| "Sprint (VError (Some e)) = e"
| "Sprint (VError None) = ''<nil>''"
| "Sprint (VDuration d) = Duration_String d"

section \<open>A log line\<close>

abbreviation only_if :: "bool \<Rightarrow> string \<Rightarrow> string" where
  "only_if b s \<equiv> (if b then s else [])"

definition level_color :: "LogLevel \<Rightarrow> string" where
  "level_color level =
     (if level = LevelDebug then clCyan else if level = LevelInfo then clGreen
      else if level = LevelWarn then clYellow else if level = LevelError then clRed else [])"

text \<open>
  The loop over the key-value pairs, by index as in the source: it stops when no whole pair
  is left, and a last value without partner is printed alone.
\<close>

function kv_loop :: "bool \<Rightarrow> log_value list \<Rightarrow> nat \<Rightarrow> string" where
  "kv_loop col kvs i =
     (if i + 1 < length kvs then
        '' '' @ only_if col clDim @ Sprint (kvs ! i) @ ''='' @ only_if col clReset @ Sprint (kvs ! (i + 1)) @
        kv_loop col kvs (i + 2)
      else [])"
  by pat_completeness auto
termination by (relation "measure (\<lambda>(col, kvs, i). length kvs - i)") auto

declare kv_loop.simps [simp del]

definition kv_text :: "bool \<Rightarrow> log_value list \<Rightarrow> string" where
  "kv_text col kvs =
     kv_loop col kvs 0 @
     only_if (length kvs mod 2 = 1) ('' '' @ Sprint (kvs ! (length kvs - 1)))"

abbreviation newline :: string where "newline \<equiv> [CHR 0x0A]"

definition log_line :: "Logger \<Rightarrow> string \<Rightarrow> LogLevel \<Rightarrow> string \<Rightarrow> string \<Rightarrow> log_value list \<Rightarrow> string" where
  "log_line l ts level requestID msg kvs =
     (let col = lg_useColor l;
          comp = (if lg_component l = [] then ''gateway'' else lg_component l)
      in only_if col clGray @ ''['' @ ts @ '']'' @
         only_if col (clReset @ '' '' @ level_color level) @
         pad_right 5 (LogLevel_String level) @
         only_if col (clReset @ '' '' @ clBlue) @
         ''['' @ comp @ '']'' @
         only_if col clReset @
         only_if (requestID \<noteq> []) (only_if col clDim @ '' req='' @ requestID @ only_if col clReset) @
         '' '' @ msg @ kv_text col kvs @ newline)"

definition lg_log :: "Logger \<Rightarrow> string \<Rightarrow> LogLevel \<Rightarrow> string \<Rightarrow> string \<Rightarrow> log_value list \<Rightarrow> string list" where
  "lg_log l ts level requestID msg kvs =
     (if go_lt level (lg_level l) then [] else [log_line l ts level requestID msg kvs])"

definition lg_Log :: "Logger \<Rightarrow> string \<Rightarrow> LogLevel \<Rightarrow> string \<Rightarrow> string \<Rightarrow> log_value list \<Rightarrow> string list" where
  "lg_Log l ts level requestID msg kvs = lg_log l ts level requestID msg kvs"

definition lg_Debug where "lg_Debug l ts msg kvs = lg_log l ts LevelDebug [] msg kvs"
definition lg_Info where "lg_Info l ts msg kvs = lg_log l ts LevelInfo [] msg kvs"
definition lg_Warn where "lg_Warn l ts msg kvs = lg_log l ts LevelWarn [] msg kvs"
definition lg_Error where "lg_Error l ts msg kvs = lg_log l ts LevelError [] msg kvs"

definition rl_Debug where "rl_Debug r ts msg kvs = lg_Log (rl_Logger r) ts LevelDebug (rl_requestID r) msg kvs"
definition rl_Info where "rl_Info r ts msg kvs = lg_Log (rl_Logger r) ts LevelInfo (rl_requestID r) msg kvs"
definition rl_Warn where "rl_Warn r ts msg kvs = lg_Log (rl_Logger r) ts LevelWarn (rl_requestID r) msg kvs"
definition rl_Error where "rl_Error r ts msg kvs = lg_Log (rl_Logger r) ts LevelError (rl_requestID r) msg kvs"

text \<open>The loggers of the components.\<close>

definition logGateway where "logGateway getenv goos = WithComponent (defaultLogger getenv goos) ''gateway''"
definition logCache where "logCache getenv goos = WithComponent (defaultLogger getenv goos) ''cache''"
definition logRouter where "logRouter getenv goos = WithComponent (defaultLogger getenv goos) ''router''"
definition logAuth where "logAuth getenv goos = WithComponent (defaultLogger getenv goos) ''auth''"
definition logCircuit where "logCircuit getenv goos = WithComponent (defaultLogger getenv goos) ''circuit''"
definition logDDoS where "logDDoS getenv goos = WithComponent (defaultLogger getenv goos) ''ddos''"
definition logConfig where "logConfig getenv goos = WithComponent (defaultLogger getenv goos) ''config''"
definition logAdmin where "logAdmin getenv goos = WithComponent (defaultLogger getenv goos) ''admin''"
definition logHealth where "logHealth getenv goos = WithComponent (defaultLogger getenv goos) ''health''"
definition logTracer where "logTracer getenv goos = WithComponent (defaultLogger getenv goos) ''tracer''"
definition logProxy where "logProxy getenv goos = WithComponent (defaultLogger getenv goos) ''proxy''"

section \<open>Banner\<close>

definition banner_sep :: string where
  "banner_sep = replicate 60 CHR ''-''"

definition PrintBanner :: "Logger \<Rightarrow> string list \<Rightarrow> string list" where
  "PrintBanner l lines =
     (if lg_useColor l then
        [newline @ clCyan @ banner_sep @ clReset @ newline] @
        map (\<lambda>(i, line). ''  '' @ (if i = 0 then clBold else clDim) @ line @ clReset @ newline)
          (zip [0..<length lines] lines) @
        [clCyan @ banner_sep @ clReset @ newline @ newline]
      else
        [newline @ banner_sep @ newline] @ map (\<lambda>line. ''  '' @ line @ newline) lines @
        [banner_sep @ newline @ newline])"

definition Banner :: "(string \<Rightarrow> string) \<Rightarrow> string \<Rightarrow> string list \<Rightarrow> string list" where
  "Banner getenv goos lines = PrintBanner (defaultLogger getenv goos) lines"

section \<open>Properties\<close>

text \<open>The pairs as a recursion on the list.\<close>

fun kv_spec :: "bool \<Rightarrow> log_value list \<Rightarrow> string" where
  "kv_spec col (k # v # kvs) =
     '' '' @ only_if col clDim @ Sprint k @ ''='' @ only_if col clReset @ Sprint v @ kv_spec col kvs"
| "kv_spec col [v] = '' '' @ Sprint v"
| "kv_spec col [] = []"

lemma kv_loop_drop:
  "i \<le> length kvs \<Longrightarrow> even i \<Longrightarrow>
   kv_loop col kvs i @ only_if (length kvs mod 2 = 1) ('' '' @ Sprint (kvs ! (length kvs - 1))) =
   kv_spec col (drop i kvs)"
proof (induction col kvs i rule: kv_loop.induct)
  case (1 col kvs i)
  show ?case
  proof (cases "i + 1 < length kvs")
    case True
    then have "drop i kvs = kvs ! i # kvs ! (i + 1) # drop (i + 2) kvs"
      by (simp add: Cons_nth_drop_Suc)
    with 1 True show ?thesis by (simp add: kv_loop.simps [of _ _ i])
  next
    case False
    with 1(2) consider "i = length kvs" | "Suc i = length kvs" by linarith
    then show ?thesis
    proof cases
      case 2
      then have "drop i kvs = [kvs ! i]" by (metis Cons_nth_drop_Suc drop_all lessI order_refl)
      with 2 1(3) False show ?thesis by (simp add: kv_loop.simps [of _ _ i] flip: 2) presburger
    qed (use 1(3) in \<open>simp add: kv_loop.simps [of _ _ "length kvs"]\<close>)
  qed
qed

lemma kv_text_spec: "kv_text col kvs = kv_spec col kvs"
  using kv_loop_drop [of 0 kvs col] by (simp add: kv_text_def)


lemma ascii_level [simp]: "ascii (LogLevel_String level)" "ESC \<notin> set (LogLevel_String level)"
  by (simp_all add: LogLevel_String_def)

lemma strip_level [simp]: "stripANSI (pad_right 5 (LogLevel_String level) @ t) = pad_right 5 (LogLevel_String level) @ stripANSI t"
  by (rule strip_append_plain) (auto simp: pad_right_ascii intro!: plain_append plain_ascii)

lemma strip_level_color [simp]: "stripANSI (level_color level @ t) = stripANSI t"
  by (simp add: level_color_def)



text \<open>
  A logger writes exactly one newline-terminated string for a call at or above its
  level and nothing for a call below it. The level read from \<open>LOG_LEVEL\<close> is one of the
  four, it is \<open>INFO\<close> for an unknown name, and the error level is never suppressed.
\<close>

theorem log_level_filter:
  "(let out = lg_log l ts level requestID msg kvs in
      (out \<noteq> [] \<longleftrightarrow> go_le (lg_level l) level) \<and> length out \<le> 1 \<and> list_all (\<lambda>s. last s = CHR 0x0A) out) \<and>
   lg_Error (WithComponent (defaultLogger getenv goos) component) ts msg kvs \<noteq> []"
proof -
  have "sint (parseLogLevel s) \<le> 3" for s
    by (simp add: parseLogLevel_def Let_def level_defs)
  then show ?thesis
    by (auto simp: lg_log_def log_line_def lg_Error_def WithComponent_def defaultLogger_def LevelError_def Let_def
        linorder_not_less)
qed

text \<open>
  Log lines can be forged. The values of a call are written as they are, line breaks
  included, so a caller-chosen value (the decoded path of a request, say) can end the line
  it belongs to and continue with the text of any other entry: what reaches the log is
  byte for byte what two separate calls would have written.
\<close>

theorem log_forgery:
  assumes "\<not> lg_useColor l" "\<not> go_lt level (lg_level l)" "\<not> go_lt level' (lg_level l)"
  shows "\<exists>path. lg_log l ts level requestID msg [VString ''path'', VString (p @ path)] =
    [concat (lg_log l ts level requestID msg [VString ''path'', VString p] @
             lg_log l ts' level' requestID' msg' kvs')]"
proof -
  let ?fake = "log_line l ts' level' requestID' msg' kvs'"
  have "last ?fake = CHR 0x0A" "?fake \<noteq> []"
    by (auto simp: log_line_def Let_def)
  then have "?fake = butlast ?fake @ newline" by (metis append_butlast_last_id)
  with assms show ?thesis
    by (intro exI [of _ "newline @ butlast ?fake"])
      (simp add: lg_log_def kv_text_spec log_line_def Let_def)
qed

theorem log_forgery_witness:
  "\<exists>path. lg_log \<lparr>lg_level = LevelInfo, lg_useColor = False, lg_component = ''gateway''\<rparr> ''t'' LevelInfo ''r1'' ''request rejected''
       [VString ''path'', VString (''/x'' @ path)] =
     [concat (lg_log \<lparr>lg_level = LevelInfo, lg_useColor = False, lg_component = ''gateway''\<rparr> ''t'' LevelInfo ''r1''
                ''request rejected'' [VString ''path'', VString ''/x''] @
              lg_log \<lparr>lg_level = LevelInfo, lg_useColor = False, lg_component = ''gateway''\<rparr> ''t'' LevelWarn []
                ''IP blocked'' [])]"
  by (rule log_forgery) (simp_all add: level_defs)

end
