(* ===== verification/System_Monitor.thy ===== *)
theory System_Monitor
  imports Go_Json
begin

text \<open>
  \<open>system_monitor.go\<close>: collecting the metrics, the process list and the handler of
  \<open>/monitor\<close> and \<open>/api/system-metrics\<close>. The gopsutil library is a parameter: every call
  answers a value and whether its error was nil, and the calls whose answers may differ in
  time are separate fields. A nil pointer is \<open>None\<close>; dereferencing it is a panic. The
  HTML page is a constant of the program and enters as the text the template writes.
\<close>

section \<open>What gopsutil answers\<close>

record VirtualMemoryStat =
  vm_Total :: uint64
  vm_Available :: uint64
  vm_Used :: uint64
  vm_UsedPercent :: float64
  vm_Free :: uint64
  vm_Buffers :: uint64
  vm_Cached :: uint64

record SwapMemoryStat =
  sw_Total :: uint64
  sw_Used :: uint64
  sw_UsedPercent :: float64
  sw_Free :: uint64

record CpuInfo =
  ci_ModelName :: string
  ci_Mhz :: float64

record HostInfo =
  hi_Hostname :: string
  hi_OS :: string
  hi_Platform :: string
  hi_PlatformVersion :: string
  hi_Uptime :: uint64
  hi_BootTime :: uint64
  hi_Procs :: uint64

text \<open>A process and what its methods return; the errors are ignored by the caller.\<close>

record Process =
  pr_Pid :: "32 word"
  pr_Name :: string
  pr_CPUPercent :: float64
  pr_MemoryInfo :: "uint64 option"
  pr_MemoryPercent :: float64
  pr_Status :: "string list"
  pr_CreateTime :: int64
  pr_Cmdline :: string

record Probe =
  pb_Percent :: "float64 list \<times> bool"
  pb_PercentCores :: "float64 list \<times> bool"
  pb_PercentLoad :: "float64 list \<times> bool"
  pb_CpuInfo :: "CpuInfo list \<times> bool"
  pb_NumCPU :: goint
  pb_HostLoad :: "HostInfo option \<times> bool"
  pb_VirtualMemory :: "VirtualMemoryStat option \<times> bool"
  pb_SwapMemory :: "SwapMemoryStat option \<times> bool"
  pb_Processes :: "Process list \<times> bool"
  pb_HostInfo :: "HostInfo option \<times> bool"

section \<open>Metrics\<close>

record CPUMetrics =
  cm_UsagePercent :: float64
  cm_Cores :: goint
  cm_ModelName :: string
  cm_Frequency :: float64
  cm_LoadAverage :: "float64 list"
  cm_CoreUsage :: "float64 list"

record MemoryMetrics =
  mm_Total :: uint64
  mm_Available :: uint64
  mm_Used :: uint64
  mm_UsedPercent :: float64
  mm_Free :: uint64
  mm_Buffers :: uint64
  mm_Cached :: uint64

record SwapMetrics =
  sm_Total :: uint64
  sm_Used :: uint64
  sm_UsedPercent :: float64
  sm_Free :: uint64

text \<open>No code fills the GPU fields; they keep their zero values.\<close>

record GPUMetrics =
  gp_Name :: string
  gp_MemoryTotal :: uint64
  gp_MemoryUsed :: uint64
  gp_MemoryFree :: uint64
  gp_Usage :: float64
  gp_Temperature :: float64
  gp_PowerUsage :: float64

record ProcessInfo =
  pi_PID :: goint
  pi_Name :: string
  pi_CPUPercent :: float64
  pi_MemoryPercent :: float64
  pi_MemoryRSS :: uint64
  pi_Status :: string
  pi_CreateTime :: int64
  pi_Cmdline :: string
  pi_GPUMemory :: uint64

text \<open>The boot time in seconds since the Unix epoch, \<open>None\<close> for the zero time.\<close>

record SystemInfo =
  si_Hostname :: string
  si_OS :: string
  si_Platform :: string
  si_PlatformVersion :: string
  si_Uptime :: uint64
  si_BootTime :: "int64 option"
  si_Procs :: uint64

record SystemMetrics =
  ms_Timestamp :: instant
  ms_CPU :: CPUMetrics
  ms_Memory :: MemoryMetrics
  ms_Swap :: SwapMetrics
  ms_GPU :: GPUMetrics
  ms_Processes :: "ProcessInfo list"
  ms_SystemInfo :: SystemInfo

text \<open>The four gauges of the file, the first one by its label.\<close>

record Gauges =
  ga_cpu :: "string \<rightharpoonup> float64"
  ga_memory :: float64
  ga_swap :: float64
  ga_processes :: float64

definition zero_metrics :: "instant \<Rightarrow> SystemMetrics" where
  "zero_metrics now =
     \<lparr>ms_Timestamp = now,
      ms_CPU = \<lparr>cm_UsagePercent = Fin 0, cm_Cores = 0, cm_ModelName = [], cm_Frequency = Fin 0,
                cm_LoadAverage = [], cm_CoreUsage = []\<rparr>,
      ms_Memory = \<lparr>mm_Total = 0, mm_Available = 0, mm_Used = 0, mm_UsedPercent = Fin 0, mm_Free = 0,
                   mm_Buffers = 0, mm_Cached = 0\<rparr>,
      ms_Swap = \<lparr>sm_Total = 0, sm_Used = 0, sm_UsedPercent = Fin 0, sm_Free = 0\<rparr>,
      ms_GPU = \<lparr>gp_Name = [], gp_MemoryTotal = 0, gp_MemoryUsed = 0, gp_MemoryFree = 0, gp_Usage = Fin 0,
                gp_Temperature = Fin 0, gp_PowerUsage = Fin 0\<rparr>,
      ms_Processes = [],
      ms_SystemInfo = \<lparr>si_Hostname = [], si_OS = [], si_Platform = [], si_PlatformVersion = [],
                       si_Uptime = 0, si_BootTime = None, si_Procs = 0\<rparr>\<rparr>"

section \<open>Load\<close>

text \<open>
  Both branches of the operating system do the same; \<open>Inr None\<close> is the error return, and
  the host information is dereferenced when its error is nil.
\<close>

definition loadAverage :: "Probe \<Rightarrow> go_panic + float64 list option" where
  "loadAverage pb =
     (case pb_HostLoad pb of
        (info, ok) \<Rightarrow>
          if \<not> ok then Inr None
          else (case info of
              None \<Rightarrow> Inl NilDereference
            | Some hi \<Rightarrow>
                (let (cpuPercent, pok) = pb_PercentLoad pb in
                 if \<not> pok \<or> cpuPercent = [] then Inr (Some [Fin 0, Fin 0, Fin 0])
                 else let l = fdiv (hd cpuPercent) (Fin 100) in Inr (Some [l, l, l]))))"

section \<open>Processes\<close>

definition process_info :: "Process \<Rightarrow> go_panic + ProcessInfo" where
  "process_info p =
     (case pr_MemoryInfo p of
        None \<Rightarrow> Inl NilDereference
      | Some rss \<Rightarrow> Inr
          \<lparr>pi_PID = scast (pr_Pid p), pi_Name = pr_Name p, pi_CPUPercent = pr_CPUPercent p,
           pi_MemoryPercent = pr_MemoryPercent p, pi_MemoryRSS = rss,
           pi_Status = (case pr_Status p of [] \<Rightarrow> [] | st # _ \<Rightarrow> st),
           pi_CreateTime = pr_CreateTime p, pi_Cmdline = pr_Cmdline p, pi_GPUMemory = 0\<rparr>)"

fun proc_loop :: "Process list \<Rightarrow> go_panic + ProcessInfo list" where
  "proc_loop [] = Inr []"
| "proc_loop (p # ps) =
     (if 0 < sint (pr_Pid p) then
        (case process_info p of
           Inl e \<Rightarrow> Inl e
         | Inr proc \<Rightarrow> map_sum id ((#) proc) (proc_loop ps))
      else proc_loop ps)"

definition cpu_desc :: "ProcessInfo \<Rightarrow> ProcessInfo \<Rightarrow> bool" where
  "cpu_desc a b \<longleftrightarrow> flt (pi_CPUPercent b) (pi_CPUPercent a)"

text \<open>
  \<open>sort.Slice\<close> leaves the order of equal elements open, so the sort is a parameter with the
  documented contract: a permutation, sorted when the comparison is a strict weak order on
  the elements.
\<close>

type_synonym slice_sort = "(ProcessInfo \<Rightarrow> ProcessInfo \<Rightarrow> bool) \<Rightarrow> ProcessInfo list \<Rightarrow> ProcessInfo list"

definition top_processes :: "slice_sort \<Rightarrow> ProcessInfo list \<Rightarrow> ProcessInfo list" where
  "top_processes Slice procList =
     (let sorted_list = Slice cpu_desc procList
      in if 20 < length sorted_list then take 20 sorted_list else sorted_list)"

section \<open>Collecting\<close>

definition cpu_metrics :: "Probe \<Rightarrow> float64 list option \<Rightarrow> CPUMetrics" where
  "cpu_metrics pb load =
     (let (cpuPercent, ok) = pb_Percent pb; (cpuInfo, iok) = pb_CpuInfo pb;
          known = (iok \<and> cpuInfo \<noteq> [])
      in \<lparr>cm_UsagePercent = (if ok \<and> cpuPercent \<noteq> [] then hd cpuPercent else Fin 0),
          cm_Cores = pb_NumCPU pb,
          cm_ModelName = (if known then ci_ModelName (hd cpuInfo) else []),
          cm_Frequency = (if known then ci_Mhz (hd cpuInfo) else Fin 0),
          cm_LoadAverage = (case load of None \<Rightarrow> [] | Some l \<Rightarrow> l),
          cm_CoreUsage = fst (pb_PercentCores pb)\<rparr>)"

text \<open>
  The parts in which a pointer is read: the metrics and gauges after the part, or a panic.
\<close>

type_synonym collecting = "SystemMetrics \<times> Gauges"

definition collect_memory :: "Probe \<Rightarrow> collecting \<Rightarrow> go_panic + collecting" where
  "collect_memory pb st =
     (case (st, pb_VirtualMemory pb) of
        ((m, g), (info, ok)) \<Rightarrow>
          if \<not> ok then Inr (m, g)
          else (case info of
              None \<Rightarrow> Inl NilDereference
            | Some vm \<Rightarrow> Inr
                (m\<lparr>ms_Memory := \<lparr>mm_Total = vm_Total vm, mm_Available = vm_Available vm, mm_Used = vm_Used vm,
                     mm_UsedPercent = vm_UsedPercent vm, mm_Free = vm_Free vm, mm_Buffers = vm_Buffers vm,
                     mm_Cached = vm_Cached vm\<rparr>\<rparr>,
                 g\<lparr>ga_memory := vm_UsedPercent vm\<rparr>)))"

definition collect_swap :: "Probe \<Rightarrow> collecting \<Rightarrow> go_panic + collecting" where
  "collect_swap pb st =
     (case (st, pb_SwapMemory pb) of
        ((m, g), (info, ok)) \<Rightarrow>
          if \<not> ok then Inr (m, g)
          else (case info of
              None \<Rightarrow> Inl NilDereference
            | Some sw \<Rightarrow> Inr
                (m\<lparr>ms_Swap := \<lparr>sm_Total = sw_Total sw, sm_Used = sw_Used sw,
                     sm_UsedPercent = sw_UsedPercent sw, sm_Free = sw_Free sw\<rparr>\<rparr>,
                 g\<lparr>ga_swap := sw_UsedPercent sw\<rparr>)))"

definition collect_processes :: "slice_sort \<Rightarrow> Probe \<Rightarrow> collecting \<Rightarrow> go_panic + collecting" where
  "collect_processes Slice pb st =
     (case (st, pb_Processes pb) of
        ((m, g), (processes, ok)) \<Rightarrow>
          if \<not> ok then Inr (m, g)
          else map_sum id
            (\<lambda>procList. (m\<lparr>ms_Processes := top_processes Slice procList\<rparr>,
                         g\<lparr>ga_processes := of_go_int (word_of_nat (length processes))\<rparr>))
            (proc_loop processes))"

definition collect_host :: "Probe \<Rightarrow> collecting \<Rightarrow> go_panic + collecting" where
  "collect_host pb st =
     (case (st, pb_HostInfo pb) of
        ((m, g), (info, ok)) \<Rightarrow>
          if \<not> ok then Inr (m, g)
          else (case info of
              None \<Rightarrow> Inl NilDereference
            | Some hi \<Rightarrow> Inr
                (m\<lparr>ms_SystemInfo := \<lparr>si_Hostname = hi_Hostname hi, si_OS = hi_OS hi, si_Platform = hi_Platform hi,
                     si_PlatformVersion = hi_PlatformVersion hi, si_Uptime = hi_Uptime hi,
                     si_BootTime = Some (hi_BootTime hi), si_Procs = hi_Procs hi\<rparr>\<rparr>, g)))"

text \<open>The gauge of each core, by its index.\<close>

definition core_label :: "nat \<Rightarrow> string" where
  "core_label i = ''core_'' @ Itoa (int i)"

definition set_core_gauges :: "float64 list \<Rightarrow> Gauges \<Rightarrow> Gauges" where
  "set_core_gauges usage g =
     foldl (\<lambda>g' (i, u). g'\<lparr>ga_cpu := (ga_cpu g')(core_label i \<mapsto> u)\<rparr>) g (zip [0..<length usage] usage)"

text \<open>The error of the signature is the left summand of the inner result; no path takes it.\<close>

definition getSystemMetrics ::
  "slice_sort \<Rightarrow> Probe \<Rightarrow> instant \<Rightarrow> Gauges \<Rightarrow> go_panic + Gauges \<times> (string + SystemMetrics)" where
  "getSystemMetrics Slice pb now g =
     bind_sum (loadAverage pb) (\<lambda>load.
     bind_sum (collect_memory pb ((zero_metrics now)\<lparr>ms_CPU := cpu_metrics pb load\<rparr>, g)) (\<lambda>st1.
     bind_sum (collect_swap pb st1) (\<lambda>st2.
     bind_sum (collect_processes Slice pb st2) (\<lambda>st3.
     bind_sum (collect_host pb st3) (\<lambda>(m, g').
       Inr (set_core_gauges (cm_CoreUsage (ms_CPU m)) g', Inr m))))))"

section \<open>The document and the handler\<close>

text \<open>Field names are the JSON tags of the structures.\<close>

abbreviation JUint :: "uint64 \<Rightarrow> json" where "JUint w \<equiv> JInt (uint w)"

definition process_json :: "ProcessInfo \<Rightarrow> json" where
  "process_json p = JObject
     [(''pid'', JInt (sint (pi_PID p))), (''name'', JString (pi_Name p)), (''cpu_percent'', JFloat (pi_CPUPercent p)),
      (''memory_percent'', JFloat (pi_MemoryPercent p)), (''memory_rss'', JUint (pi_MemoryRSS p)),
      (''status'', JString (pi_Status p)), (''create_time'', JInt (sint (pi_CreateTime p))),
      (''cmdline'', JString (pi_Cmdline p)), (''gpu_memory_mb'', JUint (pi_GPUMemory p))]"

definition cpu_json :: "CPUMetrics \<Rightarrow> json" where
  "cpu_json c = JObject
     [(''usage_percent'', JFloat (cm_UsagePercent c)), (''cores'', JInt (sint (cm_Cores c))),
      (''model_name'', JString (cm_ModelName c)), (''frequency_mhz'', JFloat (cm_Frequency c)),
      (''load_average'', json_slice (map JFloat (cm_LoadAverage c))),
      (''core_usage'', json_slice (map JFloat (cm_CoreUsage c)))]"

definition memory_json :: "MemoryMetrics \<Rightarrow> json" where
  "memory_json mm = JObject
     [(''total_bytes'', JUint (mm_Total mm)), (''available_bytes'', JUint (mm_Available mm)),
      (''used_bytes'', JUint (mm_Used mm)), (''used_percent'', JFloat (mm_UsedPercent mm)),
      (''free_bytes'', JUint (mm_Free mm)), (''buffers'', JUint (mm_Buffers mm)), (''cached'', JUint (mm_Cached mm))]"

definition swap_json :: "SwapMetrics \<Rightarrow> json" where
  "swap_json sm = JObject
     [(''total_bytes'', JUint (sm_Total sm)), (''used_bytes'', JUint (sm_Used sm)),
      (''used_percent'', JFloat (sm_UsedPercent sm)), (''free_bytes'', JUint (sm_Free sm))]"

definition gpu_json :: "GPUMetrics \<Rightarrow> json" where
  "gpu_json gp = JObject
     [(''name'', JString (gp_Name gp)), (''memory_total_mb'', JUint (gp_MemoryTotal gp)),
      (''memory_used_mb'', JUint (gp_MemoryUsed gp)), (''memory_free_mb'', JUint (gp_MemoryFree gp)),
      (''usage_percent'', JFloat (gp_Usage gp)), (''temperature_celsius'', JFloat (gp_Temperature gp)),
      (''power_usage_watts'', JFloat (gp_PowerUsage gp))]"

definition system_json :: "SystemInfo \<Rightarrow> json" where
  "system_json si = JObject
     [(''hostname'', JString (si_Hostname si)), (''os'', JString (si_OS si)), (''platform'', JString (si_Platform si)),
      (''platform_version'', JString (si_PlatformVersion si)), (''uptime_seconds'', JUint (si_Uptime si)),
      (''boot_time'', JTime (case si_BootTime si of None \<Rightarrow> 0 | Some t \<Rightarrow> time_Unix t)),
      (''processes_running'', JUint (si_Procs si))]"

definition metrics_json :: "SystemMetrics \<Rightarrow> json" where
  "metrics_json m = JObject
     [(''timestamp'', JTime (ms_Timestamp m)), (''cpu'', cpu_json (ms_CPU m)), (''memory'', memory_json (ms_Memory m)),
      (''swap'', swap_json (ms_Swap m)), (''gpu'', gpu_json (ms_GPU m)),
      (''processes'', json_slice (map process_json (ms_Processes m))), (''system_info'', system_json (ms_SystemInfo m))]"

definition systemMonitorHandler ::
  "(json \<Rightarrow> string) \<Rightarrow> string \<Rightarrow> slice_sort \<Rightarrow> Probe \<Rightarrow> instant \<Rightarrow> Gauges \<Rightarrow> ResponseWriter \<Rightarrow> Request \<Rightarrow>
   go_panic + Gauges \<times> ResponseWriter" where
  "systemMonitorHandler encode page Slice pb now g w r =
     (if req_Path r = ''/api/system-metrics'' then
        map_sum id
          (\<lambda>(g', res). (g', case res of
               Inl err \<Rightarrow> http_Error w err 500
             | Inr m \<Rightarrow> json_Encode encode (metrics_json m) (set_header ''Content-Type'' ''application/json'' w)))
          (getSystemMetrics Slice pb now g)
      else Inr (g, fst (w_Write w page)))"

section \<open>Properties\<close>

lemma proc_loop_Inr:
  "(\<forall>p \<in> set ps. 0 < sint (pr_Pid p) \<longrightarrow> pr_MemoryInfo p \<noteq> None) \<Longrightarrow>
   proc_loop ps = Inr (map (projr \<circ> process_info) (filter (\<lambda>p. 0 < sint (pr_Pid p)) ps))"
  by (induction ps) (auto simp: process_info_def)

lemma proc_loop_Inl:
  "proc_loop ps = Inl e \<longleftrightarrow> e = NilDereference \<and> (\<exists>p \<in> set ps. 0 < sint (pr_Pid p) \<and> pr_MemoryInfo p = None)"
  by (induction ps) (auto simp: process_info_def map_sum_Inl_iff split: option.splits)

fun finite_float :: "float64 \<Rightarrow> bool" where
  "finite_float (Fin q) \<longleftrightarrow> True"
| "finite_float _ \<longleftrightarrow> False"

lemma cpu_desc_weak:
  assumes "\<forall>p \<in> A. finite_float (pi_CPUPercent p)"
  shows "weak_order_on A cpu_desc"
proof -
  have "\<forall>p \<in> A. \<exists>q. pi_CPUPercent p = Fin q" using assms by (metis finite_float.elims(2))
  then obtain v where "\<forall>p \<in> A. pi_CPUPercent p = Fin (v p)" by metis
  then show ?thesis by (auto simp: weak_order_on_def cpu_desc_def)
qed

text \<open>The documented behaviour of gopsutil: a nil error comes with a non-nil result.\<close>

definition probe_documented :: "Probe \<Rightarrow> bool" where
  "probe_documented pb \<longleftrightarrow>
     pb_HostLoad pb \<noteq> (None, True) \<and> pb_VirtualMemory pb \<noteq> (None, True) \<and>
     pb_SwapMemory pb \<noteq> (None, True) \<and> pb_HostInfo pb \<noteq> (None, True)"

definition candidates :: "Probe \<Rightarrow> ProcessInfo list" where
  "candidates pb =
     (if snd (pb_Processes pb)
      then map (projr \<circ> process_info) (filter (\<lambda>p. 0 < sint (pr_Pid p)) (fst (pb_Processes pb))) else [])"

definition vanished :: "Probe \<Rightarrow> bool" where
  "vanished pb \<longleftrightarrow> snd (pb_Processes pb) \<and>
     (\<exists>p \<in> set (fst (pb_Processes pb)). 0 < sint (pr_Pid p) \<and> pr_MemoryInfo p = None)"

lemma collect_processes_cases:
  "collect_processes Slice pb (m, g) =
     (if vanished pb then Inl NilDereference
      else if snd (pb_Processes pb)
      then Inr (m\<lparr>ms_Processes := top_processes Slice (candidates pb)\<rparr>,
                g\<lparr>ga_processes := of_go_int (word_of_nat (length (fst (pb_Processes pb))))\<rparr>)
      else Inr (m, g))"
  using proc_loop_Inl [of "fst (pb_Processes pb)" NilDereference] proc_loop_Inr [of "fst (pb_Processes pb)"]
  by (cases "pb_Processes pb") (auto simp: collect_processes_def vanished_def candidates_def)

lemma loadAverage_Inr: "pb_HostLoad pb \<noteq> (None, True) \<Longrightarrow> \<exists>l. loadAverage pb = Inr l"
  by (auto simp: loadAverage_def Let_def split: prod.split option.split)

lemma collect_memory_Inr: "pb_VirtualMemory pb \<noteq> (None, True) \<Longrightarrow>
   \<exists>m' g'. collect_memory pb (m, g) = Inr (m', g') \<and> ms_Processes m' = ms_Processes m"
  by (auto simp: collect_memory_def split: prod.split option.split)

lemma collect_swap_Inr: "pb_SwapMemory pb \<noteq> (None, True) \<Longrightarrow>
   \<exists>m' g'. collect_swap pb (m, g) = Inr (m', g') \<and> ms_Processes m' = ms_Processes m"
  by (auto simp: collect_swap_def split: prod.split option.split)

lemma collect_host_Inr: "pb_HostInfo pb \<noteq> (None, True) \<Longrightarrow>
   \<exists>m' g'. collect_host pb (m, g) = Inr (m', g') \<and> ms_Processes m' = ms_Processes m"
  by (auto simp: collect_host_def split: prod.split option.split)

lemma top_processes_Nil [simp]: "slice_sorter Slice \<Longrightarrow> top_processes Slice [] = []"
  using slice_sorter.length_Slice [of Slice cpu_desc "[]"] by (simp add: top_processes_def)

text \<open>The whole collection, given the documented behaviour.\<close>

lemma getSystemMetrics_cases:
  assumes "probe_documented pb"
  shows "if vanished pb then getSystemMetrics Slice pb now g = Inl NilDereference
    else \<exists>g' m. getSystemMetrics Slice pb now g = Inr (g', Inr m) \<and>
      (ms_Processes m = (if snd (pb_Processes pb) then top_processes Slice (candidates pb) else []))"
proof -
  obtain load where l: "loadAverage pb = Inr load"
    using loadAverage_Inr assms by (auto simp: probe_documented_def)
  obtain m1 g1 where 1: "collect_memory pb ((zero_metrics now)\<lparr>ms_CPU := cpu_metrics pb load\<rparr>, g) = Inr (m1, g1)"
    "ms_Processes m1 = []"
    using collect_memory_Inr [of pb "(zero_metrics now)\<lparr>ms_CPU := cpu_metrics pb load\<rparr>" g] assms
    by (auto simp: probe_documented_def zero_metrics_def)
  obtain m2 g2 where 2: "collect_swap pb (m1, g1) = Inr (m2, g2)" "ms_Processes m2 = []"
    using collect_swap_Inr [of pb m1 g1] assms 1 by (auto simp: probe_documented_def)
  show ?thesis
  proof (cases "vanished pb")
    case True
    with l 1 2 show ?thesis by (simp add: getSystemMetrics_def collect_processes_cases)
  next
    case False
    obtain m3 g3 where 3: "collect_processes Slice pb (m2, g2) = Inr (m3, g3)"
      "ms_Processes m3 = (if snd (pb_Processes pb) then top_processes Slice (candidates pb) else [])"
      using False 2 by (cases "snd (pb_Processes pb)") (simp_all add: collect_processes_cases)
    obtain m4 g4 where "collect_host pb (m3, g3) = Inr (m4, g4)" "ms_Processes m4 = ms_Processes m3"
      using collect_host_Inr [of pb m3 g3] assms by (auto simp: probe_documented_def)
    with l 1 2 3 False show ?thesis by (simp add: getSystemMetrics_def)
  qed
qed

lemma top_processes_take: "slice_sorter Slice \<Longrightarrow> top_processes Slice xs = take 20 (Slice cpu_desc xs)"
  by (simp add: top_processes_def Let_def)

text \<open>
  The process list is the top of the candidates. When the processes could be read, the
  document lists at most twenty of those with a positive pid, all of them if there are no
  more, by falling CPU share, and no process left out has a larger share than one listed.
  This holds for every sort that meets the contract of \<open>sort.Slice\<close>.
\<close>

theorem process_ranking:
  assumes "slice_sorter Slice" and "probe_documented pb" and "\<not> vanished pb" and "snd (pb_Processes pb)"
    and "\<forall>p \<in> set (candidates pb). finite_float (pi_CPUPercent p)"
  shows "\<exists>g' m. getSystemMetrics Slice pb now g = Inr (g', Inr m) \<and>
    (let listed = ms_Processes m; left_out = mset (candidates pb) - mset listed in
     mset listed \<subseteq># mset (candidates pb) \<and> length listed = min 20 (length (candidates pb)) \<and>
     sorted_wrt (\<lambda>a b. \<not> flt (pi_CPUPercent a) (pi_CPUPercent b)) listed \<and>
     (\<forall>y \<in> set listed. \<forall>z \<in># left_out. \<not> flt (pi_CPUPercent y) (pi_CPUPercent z)))"
proof -
  note w = cpu_desc_weak [OF assms(5)]
  let ?top = "take 20 (Slice cpu_desc (candidates pb))"
  have "\<exists>g' m. getSystemMetrics Slice pb now g = Inr (g', Inr m) \<and> ms_Processes m = ?top"
    using getSystemMetrics_cases [OF assms(2), of Slice now g] assms(3,4)
    by (simp add: top_processes_take [OF assms(1)])
  moreover have "mset ?top \<subseteq># mset (candidates pb)"
    by (rule slice_sorter.kept_subset [OF assms(1)])
  moreover have "length ?top = min 20 (length (candidates pb))"
    by (simp add: slice_sorter.length_Slice [OF assms(1)])
  moreover have "sorted_wrt (\<lambda>a b. \<not> flt (pi_CPUPercent a) (pi_CPUPercent b)) ?top"
    using slice_sorter.kept_ordered [OF assms(1) w] by (simp add: cpu_desc_def)
  moreover have "\<not> flt (pi_CPUPercent y) (pi_CPUPercent z)"
    if "y \<in> set ?top" "z \<in># mset (candidates pb) - mset ?top" for y z
    using slice_sorter.kept_before_dropped [OF assms(1) w that] by (simp add: cpu_desc_def)
  ultimately show ?thesis unfolding Let_def by metis
qed

definition example_process :: "32 word \<Rightarrow> rat \<Rightarrow> uint64 option \<Rightarrow> Process" where
  "example_process pid share rss =
     \<lparr>pr_Pid = pid, pr_Name = ''p'', pr_CPUPercent = Fin share, pr_MemoryInfo = rss, pr_MemoryPercent = Fin 1,
      pr_Status = [''S''], pr_CreateTime = 0, pr_Cmdline = ''p''\<rparr>"

definition example_probe :: "Process list \<Rightarrow> Probe" where
  "example_probe ps =
     \<lparr>pb_Percent = ([Fin 12], True), pb_PercentCores = ([Fin 10, Fin 14], True), pb_PercentLoad = ([], False),
      pb_CpuInfo = ([], False), pb_NumCPU = 2, pb_HostLoad = (None, False), pb_VirtualMemory = (None, False),
      pb_SwapMemory = (None, False), pb_Processes = (ps, True), pb_HostInfo = (None, False)\<rparr>"

lemma example_probe_documented [simp]: "probe_documented (example_probe ps)"
  by (simp add: probe_documented_def example_probe_def)

theorem process_ranking_witness:
  "\<exists>g' m. getSystemMetrics SliceStable (example_probe [example_process 7 1 (Some 5), example_process 8 9 (Some 5)]) 0
       \<lparr>ga_cpu = Map.empty, ga_memory = Fin 0, ga_swap = Fin 0, ga_processes = Fin 0\<rparr> = Inr (g', Inr m) \<and>
     length (ms_Processes m) = 2"
proof -
  let ?pb = "example_probe [example_process 7 1 (Some 5), example_process 8 9 (Some 5)]"
  have "\<not> vanished ?pb" "snd (pb_Processes ?pb)" "\<forall>p \<in> set (candidates ?pb). finite_float (pi_CPUPercent p)"
    "length (candidates ?pb) = 2"
    by (simp_all add: vanished_def example_probe_def example_process_def candidates_def process_info_def)
  then show ?thesis
    using process_ranking [OF stable_sorter.slice_sorter_axioms example_probe_documented, of _ 0
        "\<lparr>ga_cpu = Map.empty, ga_memory = Fin 0, ga_swap = Fin 0, ga_processes = Fin 0\<rparr>"]
    by (fastforce simp: Let_def)
qed

text \<open>
  C36: a process that exits at the wrong moment crashes the request. When gopsutil behaves as
  documented, collecting the metrics panics exactly if the memory information of a listed
  process could not be read (a nil pointer whose error is discarded), and in every other
  case it succeeds: the error the handler tests for is never returned.
\<close>

theorem monitor_panics_on_vanished_process:
  assumes "probe_documented pb"
  shows "(getSystemMetrics Slice pb now g = Inl NilDereference \<longleftrightarrow> vanished pb) \<and>
    (vanished pb \<or> (\<exists>g' m. getSystemMetrics Slice pb now g = Inr (g', Inr m)))"
  using getSystemMetrics_cases [OF assms, of Slice now g] by (cases "vanished pb") auto

theorem monitor_panics_on_vanished_process_witness:
  "getSystemMetrics SliceStable (example_probe [example_process 7 1 None]) 0
     \<lparr>ga_cpu = Map.empty, ga_memory = Fin 0, ga_swap = Fin 0, ga_processes = Fin 0\<rparr> = Inl NilDereference"
proof -
  have "vanished (example_probe [example_process 7 1 None])"
    by (simp add: vanished_def example_probe_def example_process_def)
  with monitor_panics_on_vanished_process [OF example_probe_documented] show ?thesis by blast
qed

end
