(* ===== verification/Dashboard.thy ===== *)
theory Dashboard
  imports Config Logger System_Monitor
begin

text \<open>
  \<open>dashboard.go\<close>: the request counters and their ring buffer, the widgets (bar, labels,
  uptime, sparkline) and the start-up banner. Every text is the list of bytes the program
  writes. A call of \<open>strings.Repeat\<close> or an index that can fail is a panic value.
\<close>

section \<open>Counters\<close>

record DashboardStats =
  ds_TotalRequests :: int64
  ds_ActiveConns :: int64
  ds_BlockedIPs :: int64
  ds_CacheHits :: int64
  ds_CircuitTrips :: int64
  ds_RequestHistory :: "int64 list"
  ds_histIdx :: goint

definition new_dashStats :: DashboardStats where
  "new_dashStats =
     \<lparr>ds_TotalRequests = 0, ds_ActiveConns = 0, ds_BlockedIPs = 0, ds_CacheHits = 0, ds_CircuitTrips = 0,
      ds_RequestHistory = replicate 48 0, ds_histIdx = 0\<rparr>"

definition dash_RecordRequest :: "DashboardStats \<Rightarrow> go_panic + DashboardStats" where
  "dash_RecordRequest d =
     bind_sum (go_rem (ds_histIdx d) 48) (\<lambda>i.
     bind_sum (go_index (ds_RequestHistory d) i) (\<lambda>v.
       Inr (d\<lparr>ds_TotalRequests := ds_TotalRequests d + 1,
              ds_RequestHistory := (ds_RequestHistory d)[nat (sint i) := v + 1],
              ds_histIdx := ds_histIdx d + 1\<rparr>)))"

section \<open>Pieces of text that can fail\<close>

fun cat :: "('e + string) list \<Rightarrow> 'e + string" where
  "cat [] = Inr []"
| "cat (Inl e # ps) = Inl e"
| "cat (Inr s # ps) = map_sum id ((@) s) (cat ps)"

lemma cat_append: "cat (ps @ qs) = bind_sum (cat ps) (\<lambda>s. map_sum id ((@) s) (cat qs))"
  by (induction ps rule: cat.induct; cases "cat qs") (auto simp: bind_sum_def split: sum.split)

lemma cat_Inr: "list_all (\<lambda>p. \<exists>s. p = Inr s) ps \<Longrightarrow> cat ps = Inr (concat (map projr ps))"
  by (induction ps rule: cat.induct) auto

section \<open>Widgets\<close>

definition colorBar :: "float64 \<Rightarrow> goint \<Rightarrow> go_panic + string" where
  "colorBar pct width =
     (let color = (if flt (Fin 80) pct then clRed else if flt (Fin 60) pct then clYellow else clGreen);
          filled = to_go_int (math_Round (fmul (fdiv pct (Fin 100)) (of_go_int width)));
          filled1 = (if go_lt filled 0 then 0 else filled);
          filled2 = (if go_lt width filled1 then width else filled1)
      in cat [Inr color, Repeat (encodeRune 0x2588) (sint filled2),
              Inr clGray, Repeat (encodeRune 0xB7) (sint (width - filled2)), Inr clReset])"

definition pctLabel :: "float64 \<Rightarrow> string" where
  "pctLabel p = pad_left 5 (fmt_f 1 p) @ ''%''"

definition gbLabel :: "uint64 \<Rightarrow> string" where
  "gbLabel b = fmt_f 1 (fdiv (of_go_uint b) (Fin 1000000000)) @ ''G''"

text \<open>\<open>Duration.Hours\<close>, \<open>Minutes\<close> and \<open>Seconds\<close>: whole units plus the rest as a fraction.\<close>

definition in_units :: "int \<Rightarrow> duration \<Rightarrow> float64" where
  "in_units unit d =
     (let n = sint d
      in fadd (to_float (of_int (sgn n * (\<bar>n\<bar> div unit))))
              (fdiv (to_float (of_int (sgn n * (\<bar>n\<bar> mod unit)))) (Fin (of_int unit))))"

definition int_rem :: "int \<Rightarrow> int \<Rightarrow> int" where
  "int_rem a b = sgn a * (\<bar>a\<bar> mod b)"

definition uptimeStr :: "duration \<Rightarrow> string" where
  "uptimeStr d =
     (let h = sint (to_go_int (in_units (sint hour) d));
          m = int_rem (sint (to_go_int (in_units (sint minute) d))) 60;
          s = int_rem (sint (to_go_int (in_units (sint second) d))) 60
      in if 24 \<le> h then Itoa (h div 24) @ ''d '' @ zero_pad 2 (h mod 24) @ ''h '' @ zero_pad 2 m @ ''m''
         else zero_pad 2 h @ ''h '' @ zero_pad 2 m @ ''m '' @ zero_pad 2 s @ ''s'')"

section \<open>Sparkline\<close>

definition sparkChars :: "string list" where
  "sparkChars = ['' '', encodeRune 0x2581, encodeRune 0x2582, encodeRune 0x2583, encodeRune 0x2584,
     encodeRune 0x2585, encodeRune 0x2586, encodeRune 0x2587, encodeRune 0x2588]"

definition spark_max :: "int64 list \<Rightarrow> int64" where
  "spark_max vals = foldl (\<lambda>mx v. if go_lt mx v then v else mx) 1 vals"

definition spark_index :: "int64 \<Rightarrow> int64 \<Rightarrow> goint" where
  "spark_index mx v =
     (let idx = to_go_int (fmul (fdiv (of_go_int v) (of_go_int mx)) (Fin 8))
      in if go_lt 8 idx then 8 else idx)"

definition spark_cell :: "int64 \<Rightarrow> int64 \<Rightarrow> go_panic + string" where
  "spark_cell mx v = map_sum id (\<lambda>c. clCyan @ c @ clReset) (go_index sparkChars (spark_index mx v))"

definition sparkline :: "int64 list \<Rightarrow> nat \<Rightarrow> go_panic + string" where
  "sparkline vals width = cat (map (\<lambda>i. spark_cell (spark_max vals) (vals ! (i mod 48))) [0..<width])"

section \<open>Start-up banner\<close>

definition boolLabel :: "bool \<Rightarrow> string" where
  "boolLabel b = (if b then clGreen @ ''enabled '' @ clReset else clGray @ ''disabled'' @ clReset)"

text \<open>Go's division truncates: a text wider than the field gets no padding.\<close>

definition centerPad :: "string \<Rightarrow> nat \<Rightarrow> string" where
  "centerPad s width =
     (let vis = int (length (stripANSI s));
          pad0 = (if int width < vis then - ((vis - int width) div 2) else (int width - vis) div 2);
          pad = (if pad0 < 0 then 0 else pad0);
          right0 = int width - vis - pad;
          right = (if right0 < 0 then 0 else right0)
      in spaces (nat pad) @ s @ spaces (nat right))"

abbreviation bar_v :: string where "bar_v \<equiv> encodeRune 0x2551"
abbreviation bar_h :: string where "bar_h \<equiv> encodeRune 0x2550"

definition banner_rule :: "rune \<Rightarrow> rune \<Rightarrow> string" where
  "banner_rule left right = clCyan @ ''  '' @ encodeRune left @ repeated 68 bar_h @ encodeRune right @ clReset"

definition banner_row :: "string \<Rightarrow> string \<Rightarrow> string" where
  "banner_row left right =
     (let inner = pad_right 22 left @ right;
          pad = 68 - int (length (stripANSI inner))
      in clCyan @ ''  '' @ bar_v @ '' '' @ clReset @ inner @ spaces (nat (if pad < 0 then 0 else pad)) @
         clCyan @ '' '' @ bar_v @ clReset)"

definition banner_blank :: string where
  "banner_blank = clCyan @ ''  '' @ bar_v @ spaces 68 @ bar_v @ clReset"

definition banner_title :: "string \<Rightarrow> string" where
  "banner_title s = clCyan @ ''  '' @ bar_v @ clReset @ centerPad s 68 @ clCyan @ bar_v @ clReset"

definition label :: "string \<Rightarrow> string" where
  "label s = clCyan @ s @ clReset"

definition config_rows :: "Config \<Rightarrow> string list" where
  "config_rows cfg =
     [banner_row (label ''Listen'') (clGreen @ ''http://0.0.0.0'' @ cf_Port cfg @ clReset),
      banner_row (label ''Load Balancing'') (clWhite @ cf_LoadBalancingAlgo cfg @ clReset),
      banner_row (label ''Rate Limit'')
        (clWhite @ Itoa (sint (cf_MaxRequestsPerSecond cfg)) @ '' rps  burst '' @ Itoa (sint (cf_MaxBurstSize cfg)) @ clReset),
      banner_row (label ''DDoS Threshold'')
        (clWhite @ Itoa (sint (cf_DDoSThreshold cfg)) @ '' req/min  block '' @ Duration_String (cf_BlockDuration cfg) @ clReset),
      banner_row (label ''Circuit Breaker'')
        (clWhite @ ''max '' @ Itoa (sint (cf_CircuitBreakerMax cfg)) @ '' failures  reset '' @
         Duration_String (cf_CircuitBreakerTimeout cfg) @ clReset),
      banner_row (label ''Caching'')
        (boolLabel (cf_EnableCaching cfg) @ '' '' @ clGray @ ''Redis '' @ cf_RedisAddr cfg @ clReset),
      banner_row (label ''Compression'') (boolLabel (cf_EnableCompression cfg)),
      banner_row (label ''Metrics'') (clGreen @ ''http://0.0.0.0'' @ cf_Port cfg @ ''/metrics'' @ clReset),
      banner_row (label ''Health'') (clGreen @ ''http://0.0.0.0'' @ cf_Port cfg @ ''/health'' @ clReset),
      banner_row (label ''Monitor'') (clGreen @ ''http://0.0.0.0'' @ cf_Port cfg @ ''/monitor'' @ clReset)]"

definition routes_header :: string where
  "routes_header =
     clCyan @ ''  '' @ bar_v @ '' '' @ clReset @ clBold @ clYellow @
     pad_right 18 ''PREFIX'' @ '' '' @ pad_right 36 ''TARGET'' @ '' '' @ pad_right 6 ''AUTH'' @ clReset @
     spaces 4 @ clCyan @ bar_v @ clReset"

definition route_row :: "ServiceRoute \<Rightarrow> string" where
  "route_row r =
     (let auth = (if ro_RequireAuth r then clGreen @ ''yes'' @ clReset else clGray @ ''no '' @ clReset);
          target = (if 34 < length (ro_TargetURL r) then take 31 (ro_TargetURL r) @ ''...'' else ro_TargetURL r);
          line = pad_right 18 (ro_Prefix r) @ '' '' @ pad_right 36 target @ '' '' @ auth;
          pad = 68 - int (length (stripANSI line)) - 2
      in clCyan @ ''  '' @ bar_v @ '' '' @ clReset @ line @ spaces (nat (if pad < 0 then 0 else pad)) @
         clCyan @ bar_v @ clReset)"

definition keys_row :: string where
  "keys_row =
     clCyan @ ''  '' @ bar_v @ '' '' @ clReset @ clGray @ ''q:quit  s:sort  +/-:speed  Ctrl+C to stop'' @ clReset @
     spaces 24 @ clCyan @ bar_v @ clReset"

text \<open>The lines of the banner; each is followed by a newline.\<close>

definition PrintStartupBanner :: "Config \<Rightarrow> string \<Rightarrow> string list" where
  "PrintStartupBanner cfg version =
     (let title = clBold @ clWhite @ ''  VA API Gateway'' @ clReset @ clGray @ ''  '' @ encodeRune 0xB7 @ ''  v'' @ version @ clReset;
          sub = clGray @ ''  High-performance reverse proxy & AI orchestration layer'' @ clReset
      in [newline @ banner_rule 0x2554 0x2557, banner_title title, banner_title sub, banner_rule 0x2560 0x2563] @
         config_rows cfg @ [banner_rule 0x2560 0x2563, routes_header] @ map route_row (cf_ServiceRoutes cfg) @
         [banner_blank, keys_row, banner_rule 0x255A 0x255D @ newline])"

section \<open>The ring buffer\<close>

text \<open>The bucket a request goes to only depends on how many came before it.\<close>

definition ring_after :: "nat \<Rightarrow> DashboardStats" where
  "ring_after n = new_dashStats
     \<lparr>ds_TotalRequests := word_of_nat n, ds_RequestHistory := map (\<lambda>i. word_of_nat ((n + 47 - i) div 48)) [0..<48],
      ds_histIdx := word_of_nat n\<rparr>"

lemma bucket_step:
  assumes "i < 48"
  shows "(48 + n - i) div 48 = (n + 47 - i) div 48 + (if i = n mod 48 then 1 else 0 :: nat)"
proof -
  define q r where "q = n div 48" and "r = n mod 48"
  have n: "n = 48 * q + r" "r < 48" by (simp_all add: q_def r_def)
  have a: "48 + n - i = 48 * q + (r + 48 - i)" "n + 47 - i = 48 * q + (r + 47 - i)"
    using assms n(1) by linarith+
  have "(r + 48 - i) div 48 = (r + 47 - i) div 48 + (if i = r then 1 else 0)"
  proof (cases "i < r")
    case True
    define j where "j = r - i"
    have "r = i + j" "0 < j" "j < 48" using True n(2) by (simp_all add: j_def)
    then show ?thesis by (simp add: div_nat_eqI)
  next
    case False
    with assms show ?thesis by (cases "r = i") simp_all
  qed
  then show ?thesis unfolding a r_def [symmetric] by simp
qed

lemma bucket_range:
  fixes n i :: nat
  assumes "i < 48"
  shows "n div 48 \<le> (n + 47 - i) div 48" "(n + 47 - i) div 48 \<le> n div 48 + 1"
proof -
  show "n div 48 \<le> (n + 47 - i) div 48" using assms by (intro div_le_mono) linarith
  have "(n + 47 - i) div 48 \<le> (n + 48) div 48" by (intro div_le_mono) linarith
  then show "(n + 47 - i) div 48 \<le> n div 48 + 1" by simp
qed

lemma ring_step:
  assumes "n < 2 ^ 63 - 1"
  shows "dash_RecordRequest (ring_after n) = Inr (ring_after (Suc n))"
proof -
  have r: "go_rem (word_of_nat n) 48 = Inr (word_of_nat (n mod 48))"
    using go_rem_nat [of n 48] assms by simp
  have s: "sint (word_of_nat (n mod 48) :: int64) = int (n mod 48)"
    by (rule sint_word_of_nat) (rule less_trans [OF mod_less_divisor], simp_all)
  have "(map (\<lambda>i. word_of_nat ((n + 47 - i) div 48)) [0..<48])
          [n mod 48 := word_of_nat ((n + 47 - n mod 48) div 48) + 1] =
        (map (\<lambda>i. word_of_nat ((Suc n + 47 - i) div 48)) [0..<48] :: int64 list)"
    by (rule nth_equalityI) (simp_all add: nth_list_update bucket_step)
  then show ?thesis
    by (simp add: dash_RecordRequest_def ring_after_def r go_index_def s new_dashStats_def)
qed

fun record_requests :: "nat \<Rightarrow> DashboardStats \<Rightarrow> go_panic + DashboardStats" where
  "record_requests 0 d = Inr d"
| "record_requests (Suc n) d = bind_sum (record_requests n d) dash_RecordRequest"

lemma ring_after_0: "ring_after 0 = new_dashStats"
  by (simp add: ring_after_def new_dashStats_def map_replicate_const)

lemma record_requests_ring: "n < 2 ^ 63 \<Longrightarrow> record_requests n new_dashStats = Inr (ring_after n)"
  by (induction n) (simp_all add: ring_after_0 ring_step)

lemma ring_history:
  assumes "n < 2 ^ 63"
  shows "\<exists>d. record_requests n new_dashStats = Inr d \<and> sint (ds_TotalRequests d) = int n \<and>
    length (ds_RequestHistory d) = 48 \<and> sum_list (map sint (ds_RequestHistory d)) = int n \<and>
    (\<forall>v \<in> set (ds_RequestHistory d). sint v = int (n div 48) \<or> sint v = int (n div 48) + 1)"
proof -
  have small: "(n + 47 - i) div 48 < 2 ^ 63" if "i < 48" for i
    using assms by (intro less_mult_imp_div_less) linarith
  have s: "sint (word_of_nat ((n + 47 - i) div 48) :: int64) = int ((n + 47 - i) div 48)" if "i < 48" for i
    by (rule sint_word_of_nat [OF small [OF that]])
  have "map sint (ds_RequestHistory (ring_after n)) = map (\<lambda>i. int ((n + 47 - i) div 48)) [0..<48]"
    by (rule nth_equalityI) (simp_all add: ring_after_def s del: upt_rec_numeral)
  then have "sum_list (map sint (ds_RequestHistory (ring_after n))) = int (\<Sum>i<48. (n + 47 - i) div 48)"
    by (simp add: sum_list_sum_nth atLeast0LessThan del: upt_rec_numeral)
  moreover have "(\<Sum>i<48. (n + 47 - i) div 48) = n"
  proof (induction n)
    case (Suc n)
    have "(\<Sum>i<48. (Suc n + 47 - i) div 48) = (\<Sum>i<48. (n + 47 - i) div 48 + (if i = n mod 48 then 1 else 0))"
      by (rule sum.cong) (simp_all add: bucket_step)
    also have "\<dots> = n + 1" by (simp add: sum.distrib Suc del: sum.lessThan_Suc)
    finally show ?case by simp
  qed simp
  moreover have "(n + 47 - i) div 48 = n div 48 \<or> (n + 47 - i) div 48 = n div 48 + 1" if "i < 48" for i
    using bucket_range [OF that, of n] by linarith
  then have "\<forall>v \<in> set (ds_RequestHistory (ring_after n)). sint v = int (n div 48) \<or> sint v = int (n div 48) + 1"
    using s by (fastforce simp: ring_after_def simp del: upt_rec_numeral)
  ultimately show ?thesis
    using record_requests_ring [OF assms] sint_word_of_nat [OF assms]
    by (intro exI [of _ "ring_after n"]) (simp_all add: ring_after_def)
qed

text \<open>
  The request history is a ring that turns once per request, not with time. From the
  start of the process and for fewer than \<open>2\<^sup>6\<^sup>3\<close> requests no call panics, the counter is the
  number of requests, the 48 buckets sum to it, and every bucket holds the same count up to
  one: which requests came when leaves no trace.
\<close>

theorem request_ring_uniform:
  assumes "n < 2 ^ 63"
  shows "\<exists>d. record_requests n new_dashStats = Inr d \<and> sint (ds_TotalRequests d) = int n \<and>
    length (ds_RequestHistory d) = 48 \<and> sum_list (map sint (ds_RequestHistory d)) = int n \<and>
    (\<forall>v \<in> set (ds_RequestHistory d). sint v = int (n div 48) \<or> sint v = int (n div 48) + 1)"
  by (rule ring_history [OF assms])

theorem request_ring_uniform_witness:
  "\<exists>d. record_requests 100 new_dashStats = Inr d \<and> sint (ds_TotalRequests d) = 100"
  using request_ring_uniform [of 100] by auto

section \<open>Widgets\<close>

declare of_int_sint [simp del]

lemma sint_diff_small:
  assumes "0 \<le> sint f" "sint f \<le> sint (w :: int64)"
  shows "sint (w - f) = sint w - sint f"
proof -
  have "word_of_int (sint w - sint f) = w - f" by (simp add: of_int_sint)
  moreover have "sint (word_of_int (sint w - sint f) :: int64) = sint w - sint f"
    using assms sint_int64_range [of w] by (intro sint_word_of_int64) linarith+
  ultimately show ?thesis by simp
qed

lemma Repeat_nat [simp]: "0 \<le> n \<Longrightarrow> Repeat s n = Inr (repeated (nat n) s)"
  by (simp add: Repeat_def)

text \<open>The clamped number of filled cells of a bar.\<close>

definition bar_cells :: "float64 \<Rightarrow> goint \<Rightarrow> nat" where
  "bar_cells pct width =
     nat (min (sint width) (max 0 (sint (to_go_int (math_Round (fmul (fdiv pct (Fin 100)) (of_go_int width)))))))"

definition bar_color :: "float64 \<Rightarrow> string" where
  "bar_color pct = (if flt (Fin 80) pct then clRed else if flt (Fin 60) pct then clYellow else clGreen)"

lemma colorBar_cells:
  assumes "0 \<le> sint width"
  shows "colorBar pct width = Inr (bar_color pct @ repeated (bar_cells pct width) (encodeRune 0x2588) @
     clGray @ repeated (nat (sint width) - bar_cells pct width) (encodeRune 0xB7) @ clReset)"
proof -
  let ?f = "to_go_int (math_Round (fmul (fdiv pct (Fin 100)) (of_go_int width)))"
  define f where "f = (if go_lt width (if go_lt ?f 0 then 0 else ?f) then width else (if go_lt ?f 0 then 0 else ?f))"
  have f: "sint f = int (bar_cells pct width)" "0 \<le> sint f" "sint f \<le> sint width"
    using assms by (auto simp: f_def bar_cells_def)
  have c: "colorBar pct width = cat [Inr (bar_color pct), Repeat (encodeRune 0x2588) (sint f), Inr clGray,
      Repeat (encodeRune 0xB7) (sint (width - f)), Inr clReset]"
    by (simp only: colorBar_def Let_def f_def bar_color_def)
  from f sint_diff_small [of f width] show ?thesis
    unfolding c by (simp add: nat_diff_distrib')
qed

lemma of_go_int_exact: "0 \<le> sint v \<Longrightarrow> sint v < 2 ^ 53 \<Longrightarrow> of_go_int v = Fin (of_int (sint v))"
  by (simp add: of_go_int_def to_float_Fin rnd_of_int)

text \<open>The filled part of a bar is the percentage of its width, to half a cell and a thousandth.\<close>

lemma bar_cells_close:
  assumes "0 \<le> q" "q \<le> 100" "0 \<le> sint width" "sint width \<le> 1000"
  shows "\<bar>of_nat (bar_cells (Fin q) width) - q * of_int (sint width) / 100\<bar> \<le> (1 / 2 + 1 / 1000 :: rat)"
proof -
  let ?w = "of_int (sint width) :: rat"
  define x where "x = rnd (q / 100)"
  define y where "y = rnd (x * ?w)"
  have w: "0 \<le> ?w" "?w \<le> 1000" using assms(3,4) by simp_all
  have x: "0 \<le> x" "x \<le> 1" unfolding x_def using assms(1,2) rnd_nonneg [of "q / 100"] rnd_le_int [of "q / 100" 1] by auto
  have xw: "0 \<le> x * ?w" "x * ?w \<le> ?w" using x w by (simp_all add: mult_left_le_one_le)
  have y: "0 \<le> y" "y \<le> ?w"
    unfolding y_def using xw rnd_nonneg rnd_le_int [of "x * ?w" "sint width"] assms(4) by auto
  have "\<bar>x - q / 100\<bar> \<le> 2 powi (0 - 53)" unfolding x_def using assms by (intro rnd_close) auto
  then have "\<bar>x - q / 100\<bar> * ?w \<le> 2 powi (0 - 53) * 1000" using w by (intro mult_mono) auto
  then have "\<bar>x * ?w - q * ?w / 100\<bar> \<le> 2 powi (0 - 53) * 1000"
  proof -
    have "x * ?w - q * ?w / 100 = (x - q / 100) * ?w" by (simp add: left_diff_distrib)
    moreover have "\<bar>?w\<bar> = ?w" using w by simp
    ultimately show ?thesis using \<open>\<bar>x - q / 100\<bar> * ?w \<le> _\<close> by (simp only: abs_mult)
  qed
  moreover have "\<bar>y - x * ?w\<bar> \<le> 2 powi (10 - 53)"
    unfolding y_def using xw w by (intro rnd_close) auto
  moreover have "2 powi (0 - 53) * 1000 \<le> (1 / 2000 :: rat)" "2 powi (10 - 53) \<le> (1 / 2000 :: rat)" by simp_all
  ultimately have "\<bar>y - q * ?w / 100\<bar> \<le> 1 / 1000" by linarith
  moreover
  have e: "fmul (fdiv (Fin q) (Fin 100)) (of_go_int width) = Fin y"
    using assms x xw w by (simp add: of_go_int_exact to_float_Fin x_def [symmetric] y_def [symmetric])
  have "sgn y * of_int \<lfloor>\<bar>y\<bar> + 1 / 2\<rfloor> = (of_int \<lfloor>y + 1 / 2\<rfloor> :: rat)" using y by (cases "y = 0") (auto simp: floor_eq_iff)
  then have m: "math_Round (Fin y) = Fin (of_int \<lfloor>y + 1 / 2\<rfloor>)" by simp
  have fl: "0 \<le> \<lfloor>y + 1 / 2\<rfloor>" "\<lfloor>y + 1 / 2\<rfloor> \<le> sint width"
    using y by (simp, simp add: floor_le_iff)
  have "of_nat (bar_cells (Fin q) width) = (of_int \<lfloor>y + 1 / 2\<rfloor> :: rat)"
  proof -
    have "sint (to_go_int (Fin (of_int \<lfloor>y + 1 / 2\<rfloor>))) = \<lfloor>y + 1 / 2\<rfloor>"
      using fl y w by (subst sint_to_go_int) auto
    then show ?thesis unfolding bar_cells_def e m using fl by (simp del: to_go_int.simps)
  qed
  moreover have "\<bar>of_int \<lfloor>y + 1 / 2\<rfloor> - y\<bar> \<le> 1 / 2" by linarith
  ultimately show ?thesis by linarith
qed

lemma plain_glyphs [simp]:
  "plain (encodeRune 0x2588)" "plain (encodeRune 0xB7)" "plain (encodeRune 0x2551)" "plain (encodeRune 0x2550)"
  by (simp_all add: plain_rune valid_rune_def)

lemma RuneCount_encodeRune: "valid_rune r \<Longrightarrow> RuneCount (encodeRune r) = 1"
  using runes_encodeRune [of r "[]"] by (simp add: RuneCount_def)

lemma plain_valid: "plain s \<Longrightarrow> valid_utf8 s"
  by (simp add: plain_def)

lemma RuneCount_repeated: "valid_rune r \<Longrightarrow> RuneCount (repeated n (encodeRune r)) = n"
proof (induction n)
  case (Suc n)
  have "valid_utf8 (encodeRune r)" using valid_utf8_utf8 [of "[r]"] Suc.prems by simp
  with Suc show ?case by (simp add: RuneCount_append RuneCount_encodeRune)
qed (simp add: RuneCount_def)

lemma strip_bar_color [simp]: "stripANSI (bar_color pct @ t) = stripANSI t"
  by (simp add: bar_color_def)

text \<open>
  A bar always fills its field. Whatever the percentage (negative, above hundred,
  infinite or not a number) drawing does not panic and shows exactly \<open>width\<close> cells, filled
  ones first; for a percentage between 0 and 100 and a field of at most 1000 cells the
  filled part is the percentage of the width, to half a cell and one thousandth.
\<close>

theorem bar_fills_field:
  assumes "0 \<le> sint width" "sint width \<le> 1000"
  shows "\<exists>s k. colorBar pct width = Inr s \<and> k \<le> nat (sint width) \<and> RuneCount (stripANSI s) = nat (sint width) \<and>
    stripANSI s = repeated k (encodeRune 0x2588) @ repeated (nat (sint width) - k) (encodeRune 0xB7) \<and>
    (case pct of Fin q \<Rightarrow> q < 0 \<or> 100 < q \<or>
         \<bar>of_nat k - q * of_int (sint width) / 100\<bar> \<le> (1 / 2 + 1 / 1000 :: rat) | _ \<Rightarrow> True)"
proof -
  let ?k = "bar_cells pct width" and ?w = "nat (sint width)"
  define s where "s = bar_color pct @ repeated ?k (encodeRune 0x2588) @ clGray @
    repeated (?w - ?k) (encodeRune 0xB7) @ clReset"
  have k: "?k \<le> ?w" by (simp add: bar_cells_def)
  have v: "stripANSI s = repeated ?k (encodeRune 0x2588) @ repeated (?w - ?k) (encodeRune 0xB7)"
    by (simp add: s_def strip_append_plain plain_repeated)
  moreover have "RuneCount (stripANSI s) = ?w"
    unfolding v using k by (simp add: RuneCount_append RuneCount_repeated valid_rune_def plain_valid plain_repeated)
  moreover have "colorBar pct width = Inr s" using colorBar_cells [OF assms(1)] by (simp add: s_def)
  moreover have "case pct of Fin q \<Rightarrow> q < 0 \<or> 100 < q \<or>
      \<bar>of_nat ?k - q * of_int (sint width) / 100\<bar> \<le> (1 / 2 + 1 / 1000 :: rat) | _ \<Rightarrow> True"
  proof (cases pct)
    case (Fin q)
    then show ?thesis using bar_cells_close [OF _ _ assms, of q] by (cases "0 \<le> q \<and> q \<le> 100") auto
  qed simp_all
  ultimately show ?thesis using k by blast
qed

theorem bar_fills_field_witness:
  "\<exists>s. colorBar NaN 32 = Inr s \<and> RuneCount (stripANSI s) = 32"
  using bar_fills_field [of 32 NaN] by auto

section \<open>Uptime\<close>

text \<open>
  Whole units plus a fraction below one: the sum stays below the next integer as long as the
  unit and the count together fit into 53 bits.
\<close>

lemma in_units_floor:
  assumes "0 \<le> sint d" "0 < U" "U \<le> 2 ^ k" "(sint d div U + 1) * 2 ^ k < 2 ^ 53" "k \<le> 1000"
  shows "sint (to_go_int (in_units U d)) = sint d div U"
proof -
  define a b where "a = sint d div U" and "b = sint d mod U"
  define p where "p = (2 :: rat) powi (- int k)"
  have p: "0 < p" "2 ^ k * p = 1" by (simp_all add: p_def power_int_minus)
  have dy: "of_int (m * 2 ^ k - 1) * 2 powi (- int k) = of_int m - p" for m
  proof -
    have "of_int (m * 2 ^ k - 1) * p = of_int m * (2 ^ k * p) - p" by (simp add: left_diff_distrib mult.assoc)
    then show ?thesis using p(2) by (simp add: p_def)
  qed
  have ab: "0 \<le> a" "0 \<le> b" "b < U" using assms by (simp_all add: a_def b_def pos_imp_zdiv_nonneg_iff)
  have a53: "a + 1 < 2 ^ 53"
  proof -
    have "a + 1 \<le> (a + 1) * 2 ^ k" using ab(1) by (simp add: mult_le_cancel_left1)
    with assms(4) show ?thesis unfolding a_def by linarith
  qed
  have U: "(0 :: rat) < of_int U" "of_int U \<le> (2 :: rat) ^ k"
    using assms(2,3) by (simp, metis of_int_le_iff of_int_numeral of_int_power)
  have "of_int b / of_int U \<le> (1 - p :: rat)"
  proof -
    have "of_int b + 1 \<le> (of_int U :: rat)" using ab(3) by (metis of_int_1 of_int_add of_int_le_iff zless_imp_add1_zle)
    moreover have "of_int U * p \<le> 1" using mult_right_mono [OF U(2), of p] p by simp
    ultimately have "of_int b \<le> (1 - p) * of_int U" by (simp add: algebra_simps)
    then show ?thesis using U(1) by (simp add: pos_divide_le_eq)
  qed
  also have "1 - p = of_int (2 ^ k - 1) * 2 powi (- int k)" using dy [of 1] by simp
  finally have bU: "of_int b / of_int U \<le> of_int (2 ^ k - 1) * (2 powi (- int k) :: rat)" .
  define x where "x = rnd (of_int b / of_int U)"
  have k53: "(2 :: int) ^ k < 2 ^ 53"
  proof -
    have "1 * 2 ^ k \<le> (a + 1) * (2 ^ k :: int)" using ab(1) by (intro mult_right_mono) auto
    from le_less_trans [OF this assms(4) [folded a_def]] show ?thesis by simp
  qed
  have x: "0 \<le> x" "x \<le> of_int (2 ^ k - 1) * 2 powi (- int k)"
    unfolding x_def using ab U k53 assms(5) rnd_le_dyadic [OF _ bU] by (auto intro!: rnd_nonneg simp del: of_int_diff)
  have xp: "x \<le> 1 - p" using x(2) dy [of 1] by simp
  define y where "y = rnd (of_int a + x)"
  have "of_int a + x \<le> of_int ((a + 1) * 2 ^ k - 1) * 2 powi (- int k)"
    using xp unfolding dy by simp
  then have "y \<le> of_int ((a + 1) * 2 ^ k - 1) * 2 powi (- int k)"
    unfolding y_def using x(1) ab(1) assms(4,5) [folded a_def]
    by (intro rnd_le_dyadic) (simp_all add: add_nonneg_nonneg int_one_le_iff_zero_less)
  also have "\<dots> = of_int (a + 1) - p" by (rule dy)
  finally have "y < of_int (a + 1)" using p by linarith
  moreover have "of_int a \<le> y" unfolding y_def using x ab a53 by (intro rnd_ge_int) auto
  moreover have big: "(of_int n :: rat) \<le> 2 ^ 53" if "n < 2 ^ 53" for n
    using that by (metis less_imp_le of_int_le_iff of_int_numeral of_int_power)
  ultimately have y: "\<lfloor>y\<rfloor> = a" "0 \<le> y" "y < 2 ^ 63"
    using ab(1) big [OF a53] by (simp_all add: floor_eq_iff)
  have w: "rnd (of_int a) = of_int a" "rnd (of_int b) = of_int b" "(of_int b :: rat) \<le> 2 ^ 53"
    "(of_int a :: rat) \<le> 2 ^ 53"
    using ab a53 big [of a] big [of b] assms(3) k53 by (auto intro!: rnd_of_int)
  have x1: "x \<le> 1" using xp p by simp
  have "in_units U d = fadd (to_float (of_int a)) (fdiv (to_float (of_int b)) (Fin (of_int U)))"
    using assms(1) by (cases "sint d = 0") (simp_all add: in_units_def Let_def a_def b_def)
  also have "\<dots> = fadd (Fin (of_int a)) (Fin x)"
  proof -
    have "to_float (of_int a) = Fin (of_int a)" "to_float (of_int b) = Fin (of_int b)"
      using w ab to_float_Fin [of "of_int a"] to_float_Fin [of "of_int b"] by auto
    moreover have "to_float (of_int b / of_int U) = Fin x"
      unfolding x_def using ab U by (intro to_float_Fin) (auto simp: pos_divide_le_eq intro: order_trans [OF w(3)])
    ultimately show ?thesis using U(1) by simp
  qed
  also have "\<dots> = Fin y"
    unfolding y_def fadd.simps using ab x x1 w(4) by (intro to_float_Fin) auto
  finally have "in_units U d = Fin y" .
  with y show ?thesis by (simp add: sint_to_go_int a_def del: to_go_int.simps)
qed

text \<open>
  The uptime shown is exact for the first 85 days. Although hours, minutes and seconds
  are taken from floating point numbers, no rounding ever carries into the next unit: the
  text is that of the whole hours, the minutes of the hour and the seconds of the minute,
  with days from 24 hours on.
\<close>

theorem uptime_exact:
  assumes "0 \<le> sint d" "sint d < 85 * 24 * 3600 * 10 ^ 9"
  shows "uptimeStr d =
    (let secs = sint d div 10 ^ 9; mins = secs div 60; hrs = mins div 60 in
     if 24 \<le> hrs then Itoa (hrs div 24) @ ''d '' @ zero_pad 2 (hrs mod 24) @ ''h '' @ zero_pad 2 (mins mod 60) @ ''m''
     else zero_pad 2 hrs @ ''h '' @ zero_pad 2 (mins mod 60) @ ''m '' @ zero_pad 2 (secs mod 60) @ ''s'')"
proof -
  let ?n = "sint d"
  have u: "sint hour = 3600 * 10 ^ 9" "sint minute = 60 * 10 ^ 9" "sint second = 10 ^ 9"
    by (simp_all add: duration_units)
  have "?n div (3600 * 10 ^ 9) < 2040" "?n div (60 * 10 ^ 9) < 122400" "?n div 10 ^ 9 < 7344000"
    using assms(2) by (simp_all add: div_less_iff_less_mult)
  then have h: "sint (to_go_int (in_units (sint hour) d)) = ?n div (3600 * 10 ^ 9)"
    and m: "sint (to_go_int (in_units (sint minute) d)) = ?n div (60 * 10 ^ 9)"
    and s: "sint (to_go_int (in_units (sint second) d)) = ?n div 10 ^ 9"
    unfolding u using assms(1)
    by (intro in_units_floor [where k = 42] in_units_floor [where k = 36] in_units_floor [where k = 30]; simp)+
  have nest: "?n div (3600 * 10 ^ 9) = ?n div 10 ^ 9 div 60 div 60" "?n div (60 * 10 ^ 9) = ?n div 10 ^ 9 div 60"
    by (simp_all add: zdiv_zmult2_eq [symmetric])
  have "int_rem (?n div 10 ^ 9 div 60) 60 = ?n div 10 ^ 9 div 60 mod 60" "int_rem (?n div 10 ^ 9) 60 = ?n div 10 ^ 9 mod 60"
    using assms(1) by (simp_all add: int_rem_def sgn_if pos_imp_zdiv_nonneg_iff)
  then show ?thesis unfolding uptimeStr_def h m s nest Let_def by simp
qed

theorem uptime_exact_witness: "uptimeStr (word_of_int (93784 * 10 ^ 9)) = ''1d 02h 03m''"
proof -
  have "sint (word_of_int (93784 * 10 ^ 9) :: int64) = 93784 * 10 ^ 9" by simp
  moreover have "Itoa 1 @ ''d '' @ zero_pad 2 2 @ ''h '' @ zero_pad 2 3 @ ''m'' = ''1d 02h 03m''" by code_simp
  ultimately show ?thesis using uptime_exact [of "word_of_int (93784 * 10 ^ 9)"] by (simp add: Let_def)
qed

section \<open>Sparkline cells\<close>

lemma foldl_max_ge:
  "sint a \<le> sint (foldl (\<lambda>mx v. if go_lt mx v then v else mx) a vals)"
  "v \<in> set vals \<Longrightarrow> sint (v :: int64) \<le> sint (foldl (\<lambda>mx v. if go_lt mx v then v else mx) a vals)"
proof (induction vals arbitrary: a)
  case (Cons x vals)
  {
    case 1
    show ?case using Cons.IH(1) [of x] Cons.IH(1) [of a] by (cases "go_lt a x") auto
  next
    case 2
    then show ?case using Cons.IH(1) [of x] Cons.IH(1) [of a] Cons.IH(2) [of x] Cons.IH(2) [of a]
      by (cases "go_lt a x") auto
  }
qed simp_all

lemma spark_max_ge: "1 \<le> sint (spark_max vals)" "v \<in> set vals \<Longrightarrow> sint v \<le> sint (spark_max vals)"
  using foldl_max_ge(1) [of 1 vals] foldl_max_ge(2) [of v vals 1] by (simp_all add: spark_max_def)

lemma foldl_max_mem:
  "foldl (\<lambda>mx v. if go_lt mx v then v else mx) a vals \<in> insert a (set (vals :: int64 list))"
  by (induction vals rule: rev_induct) auto

lemma spark_max_mem: "spark_max vals \<in> insert 1 (set vals)"
  unfolding spark_max_def by (rule foldl_max_mem)

lemma of_go_int_Fin: "0 \<le> sint v \<Longrightarrow> of_go_int v = Fin (rnd (of_int (sint v)))"
proof -
  assume v: "0 \<le> sint v"
  have "(of_int (sint v) :: rat) \<le> of_int (2 ^ 63)" using sint_int64_range [of v] unfolding of_int_le_iff by linarith
  then have "(of_int (sint v) :: rat) \<le> 2 ^ 100" by simp
  with v show ?thesis by (simp add: of_go_int_def to_float_Fin)
qed

text \<open>The three roundings on the way to an index, and what bounds them.\<close>

lemma spark_index_floor:
  assumes "0 \<le> sint v" "sint v \<le> sint mx" "1 \<le> sint mx"
  shows "\<exists>y :: rat. sint (spark_index mx v) = \<lfloor>y\<rfloor> \<and> 0 \<le> y \<and> y \<le> 8 \<and>
    (sint mx < 2 ^ 53 \<and> 7 * sint mx \<le> 8 * sint v \<longrightarrow> 7 \<le> y)"
proof -
  define a m where "a = rnd (of_int (sint v))" and "m = rnd (of_int (sint mx))"
  have am: "0 \<le> a" "a \<le> m" "1 \<le> m"
    using assms rnd_ge_int [of 1 "of_int (sint mx)"] by (auto simp: a_def m_def intro!: rnd_nonneg rnd_mono)
  then have q: "0 \<le> a / m" "a / m \<le> 1" by simp_all
  define r where "r = rnd (a / m)"
  have r: "0 \<le> r" "r \<le> 1" unfolding r_def using q rnd_nonneg rnd_le_int [of "a / m" 1] by auto
  define y where "y = rnd (r * 8)"
  have y: "0 \<le> y" "y \<le> 8" unfolding y_def using r rnd_nonneg [of "r * 8"] rnd_le_int [of "r * 8" 8] by auto
  have "fmul (fdiv (of_go_int v) (of_go_int mx)) (Fin 8) = Fin y"
  proof -
    have "fdiv (of_go_int v) (of_go_int mx) = to_float (a / m)"
      using assms am by (simp add: of_go_int_Fin flip: a_def m_def)
    also have "\<dots> = Fin r" unfolding r_def using q by (intro to_float_Fin) auto
    finally show ?thesis using r by (simp add: to_float_Fin y_def)
  qed
  then have "sint (spark_index mx v) = \<lfloor>y\<rfloor>"
    using y sint_to_go_int [of y] floor_mono [OF y(2)] by (simp add: spark_index_def Let_def del: to_go_int.simps)
  moreover have "7 \<le> y" if small: "sint mx < 2 ^ 53" "7 * sint mx \<le> 8 * sint v"
  proof -
    have e: "a = of_int (sint v)" "m = of_int (sint mx)"
      using small assms by (simp_all add: a_def m_def rnd_of_int)
    have "of_int (7 * sint mx) \<le> (of_int (8 * sint v) :: rat)" using small(2) by (simp only: of_int_le_iff)
    then have "of_int 7 * 2 powi (- 3) \<le> a / m" using am unfolding e by (simp add: field_simps)
    then have "of_int 7 * 2 powi (- 3) \<le> r"
      unfolding r_def using rnd_mono [of "of_int 7 * 2 powi (- 3)" "a / m"] rnd_dyadic [of 7 "- 3"] by simp
    then show ?thesis unfolding y_def using rnd_ge_int [of 7 "r * 8"] by simp
  qed
  ultimately show ?thesis using y by blast
qed

lemma spark_index_range:
  "0 \<le> sint v \<Longrightarrow> sint v \<le> sint mx \<Longrightarrow> 1 \<le> sint mx \<Longrightarrow> 0 \<le> sint (spark_index mx v) \<and> sint (spark_index mx v) \<le> 8"
proof -
  assume "0 \<le> sint v" "sint v \<le> sint mx" "1 \<le> sint mx"
  then obtain y :: rat where "sint (spark_index mx v) = \<lfloor>y\<rfloor>" "0 \<le> y" "y \<le> 8"
    using spark_index_floor [of v mx] by auto
  then show ?thesis by (simp add: floor_le_iff)
qed

lemma spark_index_high:
  "sint v \<le> sint mx \<Longrightarrow> 1 \<le> sint mx \<Longrightarrow> sint mx < 2 ^ 53 \<Longrightarrow> 7 * sint mx \<le> 8 * sint v \<Longrightarrow>
   sint (spark_index mx v) = 7 \<or> sint (spark_index mx v) = 8"
proof -
  assume a: "sint v \<le> sint mx" "1 \<le> sint mx" "sint mx < 2 ^ 53" "7 * sint mx \<le> 8 * sint v"
  then obtain y :: rat where "sint (spark_index mx v) = \<lfloor>y\<rfloor>" "y \<le> 8" "7 \<le> y"
    using spark_index_floor [of v mx] by auto
  moreover from this have "7 \<le> \<lfloor>y\<rfloor>" "\<lfloor>y\<rfloor> \<le> 8" by (simp_all add: le_floor_iff floor_le_iff)
  ultimately show ?thesis by linarith
qed

definition spark_glyph :: "int64 list \<Rightarrow> nat \<Rightarrow> string" where
  "spark_glyph vals i = sparkChars ! nat (sint (spark_index (spark_max vals) (vals ! (i mod 48))))"

lemma sparkline_glyphs:
  assumes "length vals = 48" "\<forall>v \<in> set vals. 0 \<le> sint v"
  shows "sparkline vals width = Inr (concat (map (\<lambda>i. clCyan @ spark_glyph vals i @ clReset) [0..<width]))"
proof -
  have "spark_cell (spark_max vals) (vals ! (i mod 48)) = Inr (clCyan @ spark_glyph vals i @ clReset)" for i
  proof -
    have "vals ! (i mod 48) \<in> set vals" using assms(1) by simp
    then show ?thesis
      using spark_index_range [of "vals ! (i mod 48)" "spark_max vals"] spark_max_ge(1) [of vals]
        spark_max_ge(2) [of "vals ! (i mod 48)" vals] assms(2)
      by (auto simp: spark_cell_def go_index_def spark_glyph_def sparkChars_def)
  qed
  then show ?thesis by (simp add: sparkline_def cat_Inr list_all_iff comp_def)
qed

lemma sparkChars_glyphs: "g \<in> set sparkChars \<Longrightarrow> plain g \<and> RuneCount g = 1"
  by (auto simp: sparkChars_def plain_rune plain_ascii RuneCount_encodeRune RuneCount_ascii valid_rune_def)

lemma strip_cells:
  "\<forall>i \<in> set is. plain (g i) \<Longrightarrow>
   stripANSI (concat (map (\<lambda>i. clCyan @ g i @ clReset) is)) = concat (map g is)"
  by (induction "is") (simp_all add: strip_append_plain)

lemma RuneCount_cells: "\<forall>i \<in> set is. plain (g i) \<and> RuneCount (g i) = 1 \<Longrightarrow> RuneCount (concat (map g is)) = length is"
  by (induction "is") (simp_all add: RuneCount_append plain_valid, simp add: RuneCount_def)

lemma spark_glyph_mem:
  assumes "length vals = 48" "\<forall>v \<in> set vals. 0 \<le> sint v"
  shows "spark_glyph vals i \<in> set sparkChars"
proof -
  have "vals ! (i mod 48) \<in> set vals" using assms(1) by simp
  then have "nat (sint (spark_index (spark_max vals) (vals ! (i mod 48)))) < 9"
    using spark_index_range [of "vals ! (i mod 48)" "spark_max vals"] spark_max_ge(1) [of vals]
      spark_max_ge(2) [of "vals ! (i mod 48)" vals] assms(2) by auto
  then show ?thesis unfolding spark_glyph_def by (intro nth_mem) (simp add: sparkChars_def)
qed

text \<open>
  A sparkline of counters never panics. Each of the three floating point roundings keeps
  the index of a glyph between 0 and 8, so for any 48 non-negative counts, up to the largest
  \<open>int64\<close>, the line has exactly the number of cells asked for.
\<close>

theorem sparkline_total:
  assumes "length vals = 48" "\<forall>v \<in> set vals. 0 \<le> sint v"
  shows "\<exists>s. sparkline vals width = Inr s \<and> RuneCount (stripANSI s) = width"
proof -
  have g: "plain (spark_glyph vals i) \<and> RuneCount (spark_glyph vals i) = 1" for i
    by (rule sparkChars_glyphs [OF spark_glyph_mem [OF assms]])
  show ?thesis
    unfolding sparkline_glyphs [OF assms] using g by (simp add: strip_cells RuneCount_cells)
qed

theorem sparkline_total_witness:
  "\<exists>s. sparkline (replicate 47 3 @ [word_of_int (2 ^ 63 - 1)]) 48 = Inr s \<and> RuneCount (stripANSI s) = 48"
  by (rule sparkline_total) (auto simp: sint_word_of_int64)

lemma runes_two_glyphs:
  "valid_rune a \<Longrightarrow> valid_rune b \<Longrightarrow> \<forall>i \<in> set is. g i = encodeRune a \<or> g i = encodeRune b \<Longrightarrow>
   set (runes (concat (map g is))) \<subseteq> {a, b}"
  by (induction "is") (auto simp: runes_encodeRune)

text \<open>
  The request history is a flat line. After 336 requests the sparkline of the
  dashboard consists of the two tallest glyphs only, whenever the requests arrived.
\<close>

theorem request_history_flat:
  assumes "336 \<le> n" "n < 2 ^ 53"
  shows "\<exists>d s. record_requests n new_dashStats = Inr d \<and> sparkline (ds_RequestHistory d) 48 = Inr s \<and>
    RuneCount (stripANSI s) = 48 \<and> set (runes (stripANSI s)) \<subseteq> {0x2587, 0x2588}"
proof -
  obtain d where d: "record_requests n new_dashStats = Inr d" "length (ds_RequestHistory d) = 48"
    "\<forall>v \<in> set (ds_RequestHistory d). sint v = int (n div 48) \<or> sint v = int (n div 48) + 1"
    using ring_history [of n] assms(2) by auto
  let ?vals = "ds_RequestHistory d"
  have pos: "\<forall>v \<in> set ?vals. 0 \<le> sint v" using d(3) by fastforce
  have k: "7 \<le> n div 48" using div_le_mono [OF assms(1), of 48] by simp
  have v: "int (n div 48) \<le> sint v" "sint v \<le> int (n div 48) + 1" if "v \<in> set ?vals" for v
    using d(3) that by force+
  have mx: "sint (spark_max ?vals) \<le> int (n div 48) + 1"
    using spark_max_mem [of ?vals] v(2) k by auto
  have "n div 48 + 1 \<le> n" using k div_times_less_eq_dividend [of n 48] by linarith
  then have "int (n div 48) + 1 < 2 ^ 53" using assms(2) by simp
  with mx have small: "sint (spark_max ?vals) < 2 ^ 53" by linarith
  have "spark_glyph ?vals i = encodeRune 0x2587 \<or> spark_glyph ?vals i = encodeRune 0x2588" for i
  proof -
    have m: "?vals ! (i mod 48) \<in> set ?vals" using d(2) by simp
    have "7 * sint (spark_max ?vals) \<le> 8 * sint (?vals ! (i mod 48))" using mx v(1) [OF m] k by linarith
    from spark_index_high [OF spark_max_ge(2) [OF m] spark_max_ge(1) small this]
    show ?thesis by (auto simp: spark_glyph_def sparkChars_def)
  qed
  then have "set (runes (concat (map (spark_glyph ?vals) [0..<48]))) \<subseteq> {0x2587, 0x2588}"
    by (intro runes_two_glyphs) (auto simp: valid_rune_def)
  moreover have g: "plain (spark_glyph ?vals i) \<and> RuneCount (spark_glyph ?vals i) = 1" for i
    by (rule sparkChars_glyphs [OF spark_glyph_mem [OF d(2) pos]])
  ultimately show ?thesis
    using d(1) sparkline_glyphs [OF d(2) pos, of 48] strip_cells [of "[0..<48]" "spark_glyph ?vals"]
      RuneCount_cells [of "[0..<48]" "spark_glyph ?vals"]
    by (intro exI [of _ d] exI) (auto simp del: upt_rec_numeral)
qed

theorem request_history_flat_witness:
  "\<exists>d s. record_requests 1000 new_dashStats = Inr d \<and> sparkline (ds_RequestHistory d) 48 = Inr s \<and>
     set (runes (stripANSI s)) \<subseteq> {0x2587, 0x2588}"
  using request_history_flat [of 1000] by auto

section \<open>The banner box\<close>

lemma columns_repeated [simp]:
  "valid_rune r \<Longrightarrow> r \<noteq> 27 \<Longrightarrow> columns (repeated n (encodeRune r) @ t) = n + columns t"
  by (induction n) simp_all

lemma valid_box [simp]:
  "valid_rune 0x2551" "valid_rune 0x2550" "valid_rune 0x2554" "valid_rune 0x2557" "valid_rune 0x2560"
  "valid_rune 0x2563" "valid_rune 0x255A" "valid_rune 0x255D"
  by (simp_all add: valid_rune_def)

lemma columns_ascii: "ascii (stripANSI s) \<Longrightarrow> columns s = length (stripANSI s)"
  by (simp add: columns_def RuneCount_ascii)

lemma label_facts:
  assumes "ascii txt" "ESC \<notin> set txt"
  shows "well_coloured (label txt)" "stripANSI (label txt) = txt" "RuneCount (label txt) = length txt + 9"
proof -
  have p: "plain txt" using assms by (rule plain_ascii)
  show "well_coloured (label txt)"
    unfolding label_def by (intro well_coloured_append well_coloured_palette well_coloured_plain p)
  show "stripANSI (label txt) = txt" using p by (simp add: label_def strip_append_plain)
  have "ascii (label txt)" using assms by (simp add: label_def cl_defs sgr_def)
  then show "RuneCount (label txt) = length txt + 9" by (simp add: RuneCount_ascii label_def cl_defs sgr_def)
qed

lemma columns_row:
  assumes "well_coloured (pad_right 22 left @ right)" "ascii (stripANSI (pad_right 22 left @ right))"
    "length (stripANSI (pad_right 22 left @ right)) \<le> 68"
  shows "columns (banner_row left right) = 74"
  using assms columns_ascii [OF assms(2)] columns_append [OF assms(1)]
  by (simp add: banner_row_def Let_def)

lemma columns_route_row:
  assumes "ascii (ro_Prefix r)" "ESC \<notin> set (ro_Prefix r)" "length (ro_Prefix r) \<le> 18"
    "ascii (ro_TargetURL r)" "ESC \<notin> set (ro_TargetURL r)"
  shows "columns (route_row r) = 71"
proof -
  define target where "target = (if 34 < length (ro_TargetURL r) then take 31 (ro_TargetURL r) @ ''...'' else ro_TargetURL r)"
  define auth where "auth = (if ro_RequireAuth r then clGreen @ ''yes'' @ clReset else clGray @ ''no '' @ clReset)"
  define line where "line = pad_right 18 (ro_Prefix r) @ '' '' @ pad_right 36 target @ '' '' @ auth"
  have t: "ascii target" "ESC \<notin> set target" "length target \<le> 34"
    using assms(4,5) by (auto simp: target_def ascii_def dest: in_set_takeD)
  have pl: "plain (pad_right 18 (ro_Prefix r))" "plain (pad_right 36 target)"
    using assms t by (auto simp: pad_right_ascii intro!: plain_append plain_ascii)
  have wc: "well_coloured auth"
  proof -
    have "plain ''yes''" "plain ''no ''" by (auto intro!: plain_ascii)
    then show ?thesis unfolding auth_def
      by (cases "ro_RequireAuth r")
        (simp only: if_True if_False, intro well_coloured_append well_coloured_palette well_coloured_plain, assumption)+
  qed
  have "stripANSI line = pad_right 18 (ro_Prefix r) @ '' '' @ pad_right 36 target @ '' '' @ stripANSI auth"
    unfolding line_def using pl by (simp add: strip_append_plain)
  moreover have "stripANSI auth = (if ro_RequireAuth r then ''yes'' else ''no '')" by (simp add: auth_def)
  ultimately have s: "ascii (stripANSI line)" "length (stripANSI line) = 59"
    using assms t by (auto simp: pad_right_ascii)
  moreover have "well_coloured line"
    unfolding line_def
    by (intro well_coloured_append well_coloured_plain [OF pl(1)] well_coloured_plain [OF pl(2)] wc)
      (simp_all add: well_coloured_plain plain_ascii)
  ultimately have "columns (line @ t) = 59 + columns t" for t
    by (simp add: columns_append columns_ascii)
  moreover have "route_row r = clCyan @ ''  '' @ bar_v @ '' '' @ clReset @ line @ spaces 7 @ clCyan @ bar_v @ clReset"
    using s(2) by (simp add: route_row_def Let_def target_def [symmetric] auth_def [symmetric] line_def)
  ultimately show ?thesis by simp
qed

text \<open>
  The box of the start-up banner does not close. Its rules and blank line are 72 columns
  wide, but every configuration row whose text fits is 74 wide and every row of the route
  table 71; and because the padding of a label counts its colour codes, a label of 13 or
  more characters runs into its value with no blank between them.
\<close>

theorem banner_box_ragged:
  assumes "ascii txt" "ESC \<notin> set txt" "well_coloured right" "ascii (stripANSI right)"
    and "max 13 (length txt) + length (stripANSI right) \<le> 68"
    and "ascii (ro_Prefix r)" "ESC \<notin> set (ro_Prefix r)" "length (ro_Prefix r) \<le> 18"
    and "ascii (ro_TargetURL r)" "ESC \<notin> set (ro_TargetURL r)"
  shows "columns (banner_rule 0x2554 0x2557) = 72 \<and> columns banner_blank = 72 \<and>
    columns (banner_row (label txt) right) = 74 \<and> columns (route_row r) = 71 \<and>
    (length txt < 13 \<or> stripANSI (pad_right 22 (label txt) @ right) = txt @ stripANSI right)"
proof -
  note l = label_facts [OF assms(1,2)]
  have p: "pad_right 22 (label txt) = label txt @ spaces (13 - length txt)"
    by (simp add: pad_right_def l)
  have wc: "well_coloured (label txt @ spaces (13 - length txt))"
    by (intro well_coloured_append l well_coloured_plain plain_spaces)
  have st: "stripANSI (label txt @ spaces (13 - length txt) @ right) = txt @ spaces (13 - length txt) @ stripANSI right"
    by (simp add: strip_append l strip_append_plain)
  have "columns (banner_row (label txt) right) = 74"
    using assms(1,4,5) well_coloured_append [OF wc assms(3)] by (intro columns_row) (simp_all add: p st)
  moreover have "columns (banner_rule 0x2554 0x2557) = 72"
    by (simp add: banner_rule_def)
  moreover have "columns banner_blank = 72" by (simp add: banner_blank_def)
  ultimately show ?thesis using columns_route_row [OF assms(6-10)] p st by auto
qed

theorem banner_box_ragged_witness:
  "columns (banner_rule 0x2554 0x2557) = 72 \<and>
   columns (banner_row (label ''Load Balancing'') (clWhite @ ''round-robin'' @ clReset)) = 74 \<and>
   stripANSI (pad_right 22 (label ''Load Balancing'') @ clWhite @ ''round-robin'' @ clReset) =
     ''Load Balancinground-robin''"
proof -
  define r :: ServiceRoute where "r = zero_route\<lparr>ro_Prefix := ''/api'', ro_TargetURL := ''http://a''\<rparr>"
  have pl: "plain ''round-robin''" by (rule plain_ascii) simp_all
  then have "well_coloured (clWhite @ ''round-robin'' @ clReset)"
    by (intro well_coloured_append well_coloured_palette well_coloured_plain)
  moreover have st: "stripANSI (clWhite @ ''round-robin'' @ clReset) = ''round-robin''" by simp
  ultimately show ?thesis
    using banner_box_ragged [of "''Load Balancing''" "clWhite @ ''round-robin'' @ clReset" r]
    by (simp add: r_def)
qed

end
