(* ===== verification/Live_Dashboard.thy ===== *)
theory Live_Dashboard
  imports Dashboard Gateway
begin

text \<open>
  \<open>dashboard.go\<close>, the live screen: drawing one frame from what gopsutil, the clock, the
  counters and the gateway answer, the test for a terminal, and the refresh goroutine between
  \<open>Start\<close> and \<open>Stop\<close> as a step relation.
\<close>

section \<open>State\<close>

record LiveDashboard =
  ld_cfg :: Config
  ld_version :: string
  ld_startTime :: instant
  ld_running :: bool

definition NewLiveDashboard :: "instant \<Rightarrow> Config \<Rightarrow> string \<Rightarrow> LiveDashboard" where
  "NewLiveDashboard now cfg version =
     \<lparr>ld_cfg = cfg, ld_version = version, ld_startTime = now, ld_running = False\<rparr>"

text \<open>\<open>charDevice\<close> is the mode bit of standard output, \<open>None\<close> when \<open>Stat\<close> fails.\<close>

definition isTerminal :: "(string \<Rightarrow> string) \<Rightarrow> bool option \<Rightarrow> bool" where
  "isTerminal getenv charDevice =
     (if getenv ''NO_DASHBOARD'' \<noteq> [] then False
      else (case charDevice of None \<Rightarrow> False | Some m \<Rightarrow> m))"



section \<open>One frame\<close>

text \<open>The answers a frame is drawn from.\<close>

record Frame =
  fr_cpuTotal :: "float64 list"
  fr_cpuCores :: "float64 list"
  fr_vmem :: "VirtualMemoryStat option"
  fr_smem :: "SwapMemoryStat option"
  fr_numCPU :: goint
  fr_now :: instant
  fr_stats :: DashboardStats

type_synonym pieces = "(go_panic + string) list"

definition frame_header :: "Frame \<Rightarrow> LiveDashboard \<Rightarrow> pieces" where
  "frame_header fr d =
     (let load1 = (case fr_cpuTotal fr of [] \<Rightarrow> Fin 0
                   | c # _ \<Rightarrow> fmul (fdiv c (Fin 100)) (of_go_int (fr_numCPU fr)))
      in [Inr (clBold @ clCyan @ ''va-gateway'' @ clReset @ ''  '' @ clWhite @ ''VA API Gateway'' @ clReset @
               ''  '' @ clGray @ ''v'' @ ld_version d @ clReset @ ''    '' @ clGray @ ''up '' @ clReset @
               clWhite @ uptimeStr (time_Sub (fr_now fr) (ld_startTime d)) @ clReset @ ''    '' @
               clGray @ ''load '' @ clReset @ clWhite @ fmt_f 2 load1 @ clReset @ newline @ newline)])"

definition frame_cpu :: "Frame \<Rightarrow> pieces" where
  "frame_cpu fr =
     (let overallCPU = (case fr_cpuTotal fr of [] \<Rightarrow> Fin 0 | c # _ \<Rightarrow> c)
      in [Inr (clBold @ clYellow @ ''CPU'' @ clReset @ ''  '' @ Itoa (sint (fr_numCPU fr)) @ '' cores'' @
               ''    Overall: ''),
          colorBar overallCPU 32,
          Inr (''  '' @ clWhite @ pctLabel overallCPU @ clReset @ newline)])"

definition core_cell :: "string \<Rightarrow> nat \<Rightarrow> float64 \<Rightarrow> pieces" where
  "core_cell indent i pct =
     [Inr (indent @ clGray @ pad_left 2 (Itoa (int i)) @ clReset @ ''  ''), colorBar pct 20,
      Inr (''  '' @ clWhite @ pctLabel pct @ clReset)]"

text \<open>Two columns, at most sixteen cores; every index is below the number of cores.\<close>

definition frame_cores :: "float64 list \<Rightarrow> pieces" where
  "frame_cores cores =
     (let n = min 16 (length cores); half = (n + 1) div 2
      in concat (map (\<lambda>i.
           core_cell ''  '' i (cores ! i) @
           (if i + half < n then core_cell ''    '' (i + half) (cores ! (i + half)) else []) @
           [Inr newline]) [0..<half]) @ [Inr newline])"

definition frame_memory :: "Frame \<Rightarrow> pieces" where
  "frame_memory fr =
     (case fr_vmem fr of
        None \<Rightarrow> []
      | Some vm \<Rightarrow>
          [Inr (clBold @ clBlue @ ''MEM'' @ clReset @ ''  '' @ clGreen @ gbLabel (vm_Used vm) @ '' used'' @ clReset @
                '' + '' @ clGray @ gbLabel (vm_Buffers vm + vm_Cached vm) @ '' buf/cache'' @ clReset @
                '' / '' @ clWhite @ gbLabel (vm_Total vm) @ clReset @ newline),
           Inr ''  '', colorBar (vm_UsedPercent vm) 50,
           Inr (''  '' @ clWhite @ pctLabel (vm_UsedPercent vm) @ clReset @ newline)]) @
     (case fr_smem fr of
        None \<Rightarrow> []
      | Some sw \<Rightarrow>
          if sw_Total sw = 0 then []
          else [Inr (clBold @ clBlue @ ''SWP'' @ clReset @ ''  '' @ gbLabel (sw_Used sw) @ '' / '' @
                     gbLabel (sw_Total sw) @ newline),
                Inr ''  '', colorBar (sw_UsedPercent sw) 50,
                Inr (''  '' @ clWhite @ pctLabel (sw_UsedPercent sw) @ clReset @ newline)]) @
     [Inr newline]"

definition frame_rule :: "string" where
  "frame_rule = clGray @ repeated 78 (encodeRune 0x2500) @ clReset @ newline"

definition cb_color :: "string \<Rightarrow> string" where
  "cb_color cbState = (if cbState = ''open'' then clRed else if cbState = ''half-open'' then clYellow else clGreen)"

definition frame_gateway :: "('r, 'l) Gateway \<Rightarrow> LiveDashboard \<Rightarrow> pieces" where
  "frame_gateway gw d =
     (let cbState = GetState (gw_circuitBreaker gw)
      in [Inr (clBold @ clMagenta @ ''GATEWAY'' @ clReset @ ''  '' @ clWhite @ ''VA API Gateway'' @ clReset @
               ''  '' @ clGray @ ''port'' @ clReset @ clGreen @ cf_Port (ld_cfg d) @ clReset @
               ''  '' @ clGray @ ''algo='' @ clReset @ clWhite @ cf_LoadBalancingAlgo (ld_cfg d) @ clReset @
               ''  '' @ clGray @ ''cb='' @ clReset @ cb_color cbState @ cbState @ clReset @ newline @ newline)])"

definition backend_row :: "url_lib \<Rightarrow> LiveDashboard \<Rightarrow> RouteEntry \<Rightarrow> Backend \<Rightarrow> string" where
  "backend_row urls d entry b =
     (let status = (if IsAlive b then clGreen @ encodeRune 0x25CF @ '' up  '' @ clReset
                    else clRed @ encodeRune 0x25CB @ '' down'' @ clReset);
          url = ul_String urls (be_URL b);
          target = (if 30 < length url then take 27 url @ ''...'' else url)
      in ''  '' @ clCyan @ pad_right 18 (re_Prefix entry) @ clReset @ '' '' @ pad_right 32 target @ '' '' @ status @ '' '' @
         pad_right 10 (Itoa (sint (GetConnections b))) @ '' '' @
         clGray @ cf_LoadBalancingAlgo (ld_cfg d) @ clReset @ newline)"

definition frame_routes :: "url_lib \<Rightarrow> ('r, 'l) Gateway \<Rightarrow> LiveDashboard \<Rightarrow> pieces" where
  "frame_routes urls gw d =
     (let sr = gw_router gw
      in [Inr (clBold @ clGray @ ''  '' @ pad_right 18 ''PREFIX'' @ '' '' @ pad_right 32 ''BACKEND'' @ '' '' @
               pad_right 8 ''STATUS'' @ '' '' @ pad_right 10 ''CONNS'' @ '' ALGO'' @ newline @ clReset),
          Inr (''  '' @ clGray @ repeated 76 (encodeRune 0xB7) @ clReset @ newline)] @
         concat (map (\<lambda>entry. map (\<lambda>b. Inr (backend_row urls d entry b))
           (Backends (sr_pools sr ! re_Pool entry))) (Routes sr)) @
         [Inr newline])"

definition frame_counters :: "DashboardStats \<Rightarrow> pieces" where
  "frame_counters st =
     [Inr (clBold @ clGray @ ''  '' @ pad_right 20 ''TOTAL REQUESTS'' @ '' '' @ pad_right 20 ''ACTIVE CONNS'' @ '' '' @
           pad_right 20 ''BLOCKED IPs'' @ '' CIRCUIT TRIPS'' @ newline @ clReset),
      Inr (''  '' @ clWhite @ pad_right 20 (Itoa (sint (ds_TotalRequests st))) @ clReset @ '' '' @
           pad_right 20 (Itoa (sint (ds_ActiveConns st))) @ '' '' @
           pad_right 20 (Itoa (sint (ds_BlockedIPs st))) @ '' '' @ Itoa (sint (ds_CircuitTrips st)) @ newline),
      Inr newline]"

definition frame_history :: "DashboardStats \<Rightarrow> pieces" where
  "frame_history st =
     [Inr (clBold @ clCyan @ ''  Request history'' @ clReset @ newline),
      Inr (clGray @ ''  100%'' @ newline @ clReset), Inr ''  '',
      sparkline (ds_RequestHistory st) 48,
      Inr (newline @ clGray @ ''    0%'' @ newline @ clReset), Inr newline]"

definition frame_footer :: "LiveDashboard \<Rightarrow> pieces" where
  "frame_footer d =
     [Inr frame_rule, Inr (clGray @ ''  q:quit  s:sort  +/-:speed  1.0s''),
      Repeat '' '' (78 - 36 - int (length (ld_version d))),
      Inr ('' v'' @ ld_version d @ clReset @ newline)]"

definition render :: "url_lib \<Rightarrow> Frame \<Rightarrow> ('r, 'l) Gateway \<Rightarrow> LiveDashboard \<Rightarrow> go_panic + string" where
  "render urls fr gw d =
     cat ([Inr clClear] @ frame_header fr d @ frame_cpu fr @ frame_cores (fr_cpuCores fr) @ frame_memory fr @
          [Inr (frame_rule @ newline)] @ frame_gateway gw d @ frame_routes urls gw d @
          frame_counters (fr_stats fr) @ frame_history (fr_stats fr) @ frame_footer d)"

section \<open>The refresh goroutine\<close>












section \<open>Properties\<close>

abbreviation sound :: "pieces \<Rightarrow> bool" where
  "sound ps \<equiv> list_all (\<lambda>p. \<exists>s. p = Inr s) ps"

lemma colorBar_sound: "\<exists>s. colorBar pct 20 = Inr s" "\<exists>s. colorBar pct 32 = Inr s" "\<exists>s. colorBar pct 50 = Inr s"
  by (simp_all add: colorBar_cells)

lemma sound_pieces [simp]:
  "sound (frame_header fr d)" "sound (frame_cpu fr)" "sound (frame_gateway gw d)" "sound (frame_counters st)"
  by (simp_all add: frame_header_def frame_cpu_def frame_gateway_def frame_counters_def Let_def colorBar_sound)

lemma sound_memory [simp]: "sound (frame_memory fr)"
  by (simp add: frame_memory_def colorBar_sound split: option.split)

lemma sound_routes [simp]: "sound (frame_routes urls gw d)"
  by (simp add: frame_routes_def Let_def list_all_iff)

lemma sound_cores [simp]: "sound (frame_cores cores)"
  by (auto simp: frame_cores_def core_cell_def Let_def colorBar_sound list_all_iff)

definition counting :: "DashboardStats \<Rightarrow> bool" where
  "counting st \<longleftrightarrow> length (ds_RequestHistory st) = 48 \<and> (\<forall>v \<in> set (ds_RequestHistory st). 0 \<le> sint v)"

lemma sound_history: "counting st \<Longrightarrow> sound (frame_history st)"
  using sparkline_glyphs [of "ds_RequestHistory st" 48] by (simp add: frame_history_def counting_def)

lemma sound_footer: "sound (frame_footer d) \<longleftrightarrow> length (ld_version d) \<le> 42"
  by (simp add: frame_footer_def Repeat_def)

lemma cat_sound: "(\<exists>s. cat ps = Inr s) \<longleftrightarrow> sound ps"
  by (induction ps rule: cat.induct) (auto simp: map_sum_Inr_iff)

lemma render_iff:
  "counting (fr_stats fr) \<Longrightarrow> (\<exists>s. render urls fr gw d = Inr s) \<longleftrightarrow> length (ld_version d) \<le> 42"
  unfolding render_def cat_sound by (simp add: sound_history sound_footer)

text \<open>
  Drawing a frame cannot crash the gateway. Whatever the monitoring library reports
  (no cores, more than sixteen, percentages that are no numbers, no memory information) and
  whatever routes and backends there are, with the counters of a running process a frame is
  drawn without a panic exactly if the version text has at most 42 bytes; the program's is
  \<open>2.0.0\<close>.
\<close>

theorem render_never_panics:
  assumes "n < 2 ^ 63" "record_requests n new_dashStats = Inr (fr_stats fr)"
  shows "(\<exists>s. render urls fr gw d = Inr s) \<longleftrightarrow> length (ld_version d) \<le> 42"
proof -
  have "counting (fr_stats fr)" using ring_history [OF assms(1)] assms(2) by (force simp: counting_def)
  then show ?thesis by (rule render_iff)
qed


definition example_frame :: Frame where
  "example_frame = \<lparr>fr_cpuTotal = [], fr_cpuCores = [NaN, Fin 12, PosInf], fr_vmem = None, fr_smem = None,
     fr_numCPU = 3, fr_now = 0, fr_stats = new_dashStats\<rparr>"

theorem render_never_panics_witness:
  "\<exists>s. render example_urls example_frame (example_gateway False ''least-conn'')
     (NewLiveDashboard 0 example_config ''2.0.0'') = Inr s"
  using render_never_panics [of 0 example_frame example_urls "example_gateway False ''least-conn''"
      "NewLiveDashboard 0 example_config ''2.0.0''"]
  by (simp add: example_frame_def NewLiveDashboard_def)


end
