(* ===== verification/Compression.thy ===== *)
theory Compression
  imports Gateway
begin

text \<open>
  \<open>handlers.go\<close>: \<open>gzipResponseWriter\<close> and \<open>makeGzipHandler\<close>. A handler is given by the
  calls it makes on its response writer. The gzip library is a parameter: a writer that
  takes chunks, may emit compressed bytes at once or later, and emits the rest when it is
  closed. The program defines the wrapper and never calls it.
\<close>

section \<open>The wrapper\<close>

record 'z gzip_lib =
  gz_NewWriter :: 'z
  gz_Write :: "'z \<Rightarrow> string \<Rightarrow> 'z \<times> string"
  gz_Close :: "'z \<Rightarrow> string"

text \<open>A call on the server's own writer.\<close>

fun w_step :: "ResponseWriter \<Rightarrow> writer_event \<Rightarrow> ResponseWriter" where
  "w_step w (EvHeader k v) = w\<lparr>w_header := Header_Add (w_header w) k v\<rparr>"
| "w_step w (EvWriteHeader code) = w_WriteHeader w code"
| "w_step w (EvWrite b) = fst (w_Write w b)"
| "w_step w EvFlush = (if w_canFlush w then w_Flush w else w)"
| "w_step w EvHijack = (if w_canHijack w then fst (w_Hijack w) else w)"

text \<open>The compressor writes only when it has something to write.\<close>

definition emit :: "ResponseWriter \<Rightarrow> string \<Rightarrow> ResponseWriter" where
  "emit w out = (if out = [] then w else fst (w_Write w out))"

text \<open>
  A call on \<open>gzipResponseWriter\<close>: \<open>Write\<close> goes to the compressor, the other methods of
  \<open>http.ResponseWriter\<close> to the embedded writer; flushing and hijacking are not part of
  that interface, so a handler that asks for them finds nothing.
\<close>

fun gzr_step :: "'z gzip_lib \<Rightarrow> 'z \<times> ResponseWriter \<Rightarrow> writer_event \<Rightarrow> 'z \<times> ResponseWriter" where
  "gzr_step lib (z, w) (EvWrite b) = (let (z', out) = gz_Write lib z b in (z', emit w out))"
| "gzr_step lib (z, w) (EvHeader k v) = (z, w_step w (EvHeader k v))"
| "gzr_step lib (z, w) (EvWriteHeader code) = (z, w_step w (EvWriteHeader code))"
| "gzr_step lib (z, w) EvFlush = (z, w)"
| "gzr_step lib (z, w) EvHijack = (z, w)"

definition makeGzipHandler ::
  "'z gzip_lib \<Rightarrow> (Request \<Rightarrow> writer_event list) \<Rightarrow> ResponseWriter \<Rightarrow> Request \<Rightarrow> ResponseWriter" where
  "makeGzipHandler lib fn w r =
     (if \<not> Contains (Header_Get (req_Header r) ''Accept-Encoding'') ''gzip'' then foldl w_step w (fn r)
      else let w1 = set_header ''Content-Encoding'' ''gzip'' w;
               (z, w2) = foldl (gzr_step lib) (gz_NewWriter lib, w1) (fn r)
           in emit w2 (gz_Close lib z))"

section \<open>The contract of the library\<close>

fun gz_stream :: "'z gzip_lib \<Rightarrow> 'z \<Rightarrow> string list \<Rightarrow> string" where
  "gz_stream lib z [] = gz_Close lib z"
| "gz_stream lib z (b # bs) = snd (gz_Write lib z b) @ gz_stream lib (fst (gz_Write lib z b)) bs"

text \<open>What was written, compressed chunk by chunk and closed, decompresses to itself.\<close>

definition gzip_contract :: "'z gzip_lib \<Rightarrow> (string \<Rightarrow> string option) \<Rightarrow> bool" where
  "gzip_contract lib gunzip \<longleftrightarrow> (\<forall>bs. gunzip (gz_stream lib (gz_NewWriter lib) bs) = Some (concat bs))"

section \<open>Transparency\<close>

fun written :: "writer_event list \<Rightarrow> string list" where
  "written [] = []"
| "written (EvWrite b # evs) = b # written evs"
| "written (_ # evs) = written evs"

text \<open>
  The calls a handler makes before it writes: headers, but no declared length, and a status
  that allows a body. Then it writes; headers it still adds come too late to be sent.
\<close>

definition head_event :: "writer_event \<Rightarrow> bool" where
  "head_event ev \<longleftrightarrow> (case ev of EvHeader k v \<Rightarrow> ToLower k \<noteq> ''content-length''
     | EvWriteHeader code \<Rightarrow> \<not> informational code \<and> bodyAllowed code | _ \<Rightarrow> False)"

definition body_event :: "writer_event \<Rightarrow> bool" where
  "body_event ev \<longleftrightarrow> (case ev of EvHeader k v \<Rightarrow> ToLower k \<noteq> ''content-length'' | EvWrite b \<Rightarrow> True | _ \<Rightarrow> False)"

text \<open>A writer that takes a body of any length.\<close>

definition open_writer :: "ResponseWriter \<Rightarrow> bool" where
  "open_writer w \<longleftrightarrow> \<not> w_hijacked w \<and> (case w_status w of None \<Rightarrow> True | Some code \<Rightarrow> bodyAllowed code) \<and>
     w_contentLength w = None \<and> Header_Get (w_header w) ''Content-Length'' = []"

lemma open_write:
  assumes "open_writer w"
  shows "open_writer (fst (w_Write w b))" "w_body (fst (w_Write w b)) = w_body w @ b"
    "client_status (fst (w_Write w b)) = client_status w" "w_header (fst (w_Write w b)) = w_header w"
  using assms by (auto simp: open_writer_def w_Write_def Let_def w_WriteHeader_def declare_length_none informational_def
      bodyAllowed_def client_status_def split: option.splits)

lemma open_write_header:
  "open_writer w \<Longrightarrow> \<not> informational code \<Longrightarrow> bodyAllowed code \<Longrightarrow>
   open_writer (w_WriteHeader w code) \<and> w_header (w_WriteHeader w code) = w_header w"
  by (auto simp: open_writer_def w_WriteHeader_def declare_length_none)

lemma open_emit:
  assumes "open_writer w"
  shows "open_writer (emit w out)" "w_body (emit w out) = w_body w @ out" "client_status (emit w out) = client_status w"
    "w_header (emit w out) = w_header w"
  using open_write [OF assms, of out] assms by (simp_all add: emit_def)

lemma open_header:
  "ToLower k \<noteq> ''content-length'' \<Longrightarrow> open_writer (w\<lparr>w_header := Header_Add (w_header w) k v\<rparr>) = open_writer w"
  "client_status (w\<lparr>w_header := h\<rparr>) = client_status w"
  by (simp_all add: open_writer_def client_status_def Header_Get_def Header_Add_def)

lemma plain_body:
  assumes "open_writer w" "list_all body_event evs"
  shows "open_writer (foldl w_step w evs) \<and> w_body (foldl w_step w evs) = w_body w @ concat (written evs) \<and>
    client_status (foldl w_step w evs) = client_status w"
  using assms
proof (induction evs arbitrary: w)
  case (Cons ev evs)
  then show ?case
    by (cases ev) (auto simp: body_event_def open_write open_header simp del: header_keys)
qed simp

text \<open>The first value of the encoding header, which the body events cannot change.\<close>

definition gzipped :: "ResponseWriter \<Rightarrow> bool" where
  "gzipped w \<longleftrightarrow> Header_Get (w_header w) ''Content-Encoding'' = ''gzip''"

lemma gzipped_add: "gzipped w \<Longrightarrow> gzipped (w\<lparr>w_header := Header_Add (w_header w) k v\<rparr>)"
  by (auto simp: gzipped_def Header_Get_def Header_Add_def split: option.splits list.splits)

lemma gzipped_cong: "w_header w' = w_header w \<Longrightarrow> gzipped w' \<longleftrightarrow> gzipped w"
  by (simp add: gzipped_def)

lemma gzip_body:
  assumes "open_writer w" "gzipped w" "list_all body_event evs" "foldl (gzr_step lib) (z, w) evs = (z', w')"
  shows "open_writer w' \<and> gzipped w' \<and> client_status w' = client_status w \<and>
    w_body w' @ gz_Close lib z' = w_body w @ gz_stream lib z (written evs)"
  using assms
proof (induction evs arbitrary: w z)
  case (Cons ev evs)
  show ?case
  proof (cases ev)
    case (EvHeader k v)
    with Cons.prems Cons.IH [of "w_step w (EvHeader k v)" z] show ?thesis by (simp add: body_event_def open_header gzipped_add)
  next
    case (EvWrite b)
    obtain z1 out where o: "gz_Write lib z b = (z1, out)" by (metis surj_pair)
    from EvWrite Cons.prems Cons.IH [of "emit w out" z1] show ?thesis
      by (simp add: o open_emit gzipped_def)
  qed (use Cons.prems in \<open>auto simp: body_event_def\<close>)
qed simp

lemma head_step:
  assumes "open_writer w" "head_event ev"
  shows "gzr_step lib (z, w) ev = (z, w_step w ev)" "open_writer (w_step w ev)" "w_body (w_step w ev) = w_body w"
    "gzipped w \<Longrightarrow> gzipped (w_step w ev)"
proof -
  show "gzr_step lib (z, w) ev = (z, w_step w ev)" "w_body (w_step w ev) = w_body w"
    using assms(2) by (cases ev; simp add: head_event_def)+
  show "open_writer (w_step w ev)"
    using assms open_write_header [OF assms(1)] by (cases ev) (simp_all add: head_event_def open_header)
  show "gzipped w \<Longrightarrow> gzipped (w_step w ev)"
    using assms(2) open_write_header [OF assms(1)]
    by (cases ev) (simp_all add: head_event_def gzipped_add gzipped_cong [of "w_WriteHeader w _" w])
qed

lemma head_run:
  assumes "open_writer w" "list_all head_event evs"
  shows "foldl (gzr_step lib) (z, w) evs = (z, foldl w_step w evs) \<and> open_writer (foldl w_step w evs) \<and>
    w_body (foldl w_step w evs) = w_body w \<and> (gzipped w \<longrightarrow> gzipped (foldl w_step w evs))"
  using assms by (induction evs arbitrary: w) (simp_all add: head_step)

lemma head_status:
  "list_all head_event evs \<Longrightarrow> w_status w = w_status w' \<Longrightarrow> w_hijacked w = w_hijacked w' \<Longrightarrow>
   client_status (foldl w_step w evs) = client_status (foldl w_step w' evs)"
proof (induction evs arbitrary: w w')
  case (Cons ev evs)
  have "w_status (w_step w ev) = w_status (w_step w' ev)" "w_hijacked (w_step w ev) = w_hijacked (w_step w' ev)"
    using Cons.prems by (cases ev; simp add: head_event_def w_WriteHeader_status)+
  with Cons.IH [of "w_step w ev" "w_step w' ev"] Cons.prems(1) show ?case by simp
qed (simp add: client_status_def)

text \<open>
  C34: compression is transparent for a handler that declares no length. For a handler that
  sets headers and a status that allows a body before it writes, sets no Content-Length, and
  neither flushes nor hijacks, and for a client that announces gzip, the wrapped handler
  answers with the same status, marks the body as gzip, and the body decompresses to exactly
  what the handler writes to a client without gzip, however the compressor buffers.
\<close>

theorem gzip_transparent:
  assumes "gzip_contract lib gunzip" and "fresh w" and "Header_Get (w_header w) ''Content-Length'' = []"
    and "Contains (Header_Get (req_Header r) ''Accept-Encoding'') ''gzip''"
    and "fn r = hs @ bs" "list_all head_event hs" "list_all body_event bs"
  shows "let g = makeGzipHandler lib fn w r; p = foldl w_step w (fn r) in
    gunzip (w_body g) = Some (w_body p) \<and> client_status g = client_status p \<and>
    Header_Get (w_header g) ''Content-Encoding'' = ''gzip''"
proof -
  let ?w1 = "set_header ''Content-Encoding'' ''gzip'' w"
  have o: "open_writer w" "w_body w = []" using assms(2,3) by (auto simp: fresh_def open_writer_def)
  then have o1: "open_writer ?w1" "w_body ?w1 = []" "gzipped ?w1"
    by (simp_all add: set_header_def open_writer_def gzipped_def)
  define v where "v = foldl w_step ?w1 hs"
  have v: "open_writer v" "w_body v = []" "gzipped v"
    using head_run [OF o1(1) assms(6), of lib "gz_NewWriter lib"] o1 by (simp_all add: v_def)
  obtain z w2 where run: "foldl (gzr_step lib) (gz_NewWriter lib, v) bs = (z, w2)" by (metis surj_pair)
  have z: "foldl (gzr_step lib) (gz_NewWriter lib, ?w1) (fn r) = (z, w2)"
    using head_run [OF o1(1) assms(6), of lib "gz_NewWriter lib"] run by (simp add: assms(5) v_def)
  have g: "open_writer w2" "gzipped w2" "client_status w2 = client_status v"
    "w_body w2 @ gz_Close lib z = gz_stream lib (gz_NewWriter lib) (written bs)"
    using gzip_body [OF v(1,3) assms(7) run] v(2) by simp_all
  have G: "makeGzipHandler lib fn w r = emit w2 (gz_Close lib z)"
    using assms(4) z by (simp add: makeGzipHandler_def Let_def)
  have "client_status v = client_status (foldl w_step w hs)"
    unfolding v_def using assms(6) by (rule head_status) (simp_all add: set_header_def)
  moreover have p: "w_body (foldl w_step w (fn r)) = concat (written bs)"
    "client_status (foldl w_step w (fn r)) = client_status (foldl w_step w hs)"
    using plain_body [of "foldl w_step w hs" bs] head_run [OF o(1) assms(6), of lib "gz_NewWriter lib"] o assms(5,7)
    by simp_all
  moreover have "gunzip (gz_stream lib (gz_NewWriter lib) (written bs)) = Some (concat (written bs))"
    using assms(1) by (simp add: gzip_contract_def)
  ultimately show ?thesis
    using g open_emit [OF g(1), of "gz_Close lib z"] by (simp add: Let_def G gzipped_def)
qed

text \<open>A stored-only compressor: chunks are kept until the stream is closed with a mark.\<close>

definition stored :: "string gzip_lib" where
  "stored = \<lparr>gz_NewWriter = [], gz_Write = (\<lambda>z b. (z @ b, [])), gz_Close = (\<lambda>z. z @ ''$'')\<rparr>"

lemma stored_stream: "gz_stream stored z bs = z @ concat bs @ ''$''"
  by (induction bs arbitrary: z) (simp_all add: stored_def)

theorem gzip_transparent_witness:
  "Header_Get (w_header (makeGzipHandler stored (\<lambda>r. [EvWriteHeader 404, EvWrite ''no'']) (fresh_writer True True)
     ((example_request ''GET'' ''ex.com'' ''/'')\<lparr>req_Header := [''accept-encoding'' \<mapsto> [''gzip, br'']]\<rparr>)))
     ''Content-Encoding'' = ''gzip''"
proof -
  let ?r = "(example_request ''GET'' ''ex.com'' ''/'')\<lparr>req_Header := [''accept-encoding'' \<mapsto> [''gzip, br'']]\<rparr>"
  have "gzip_contract stored (\<lambda>s. Some (butlast s))"
    using stored_stream [of "[]"] by (simp add: gzip_contract_def) (simp add: stored_def butlast_append)
  moreover have "fresh (fresh_writer True True)" by (simp add: fresh_def fresh_writer_def)
  moreover have "Contains (Header_Get (req_Header ?r) ''Accept-Encoding'') ''gzip''"
    by (simp add: Header_Get_def HasPrefix_def)
  moreover have "Header_Get (w_header (fresh_writer True True)) ''Content-Length'' = []"
    by (simp add: Header_Get_def fresh_writer_def)
  ultimately show ?thesis
    using gzip_transparent [of stored "\<lambda>s. Some (butlast s)" "fresh_writer True True" ?r
        "\<lambda>r. [EvWriteHeader 404, EvWrite ''no'']" "[EvWriteHeader 404]" "[EvWrite ''no'']"]
    by (simp add: Let_def head_event_def body_event_def informational_def bodyAllowed_def)
qed

text \<open>
  A declared length breaks the compressed response. The wrapper keeps the Content-Length the
  handler set for its own body, so that the server refuses a compressed stream that is
  longer: with a stored-only compressor the plain client gets the two bytes, the gzip client
  gets none.
\<close>

theorem gzip_breaks_declared_length:
  "let fn = (\<lambda>r. [EvHeader ''Content-Length'' ''2'', EvWrite ''no'']); w = fresh_writer True True;
       r = (example_request ''GET'' ''ex.com'' ''/'')\<lparr>req_Header := [''accept-encoding'' \<mapsto> [''gzip, br'']]\<rparr>
   in w_body (foldl w_step w (fn r)) = ''no'' \<and> w_body (makeGzipHandler stored fn w r) = []"
proof -
  have two: "Atoi ''2'' = Some 2" by (simp add: Atoi_def HasPrefix_def digitVal_def)
  have gzip: "Contains ''gzip, br'' ''gzip''" by (simp add: HasPrefix_def)
  have n: "unat (2 :: goint) = 2" by simp
  show ?thesis
    by (simp add: Let_def makeGzipHandler_def gzip stored_def emit_def set_header_def fresh_writer_def w_Write_def
        w_WriteHeader_def declare_length_def Header_Get_def Header_Add_def Header_Set_def two bodyAllowed_def
        del: Contains.simps)
qed

end
