(* ===== verification/Gateway_Retry.thy ===== *)
theory Gateway_Retry
  imports Gateway
begin

text \<open>
  The retry loop of \<open>main.go\<close>: how many attempts a request makes, on which backends, what
  a failed attempt leaves behind, and that the client does not see failures that a later
  attempt makes good.
\<close>

section \<open>The loop and its proxies\<close>

text \<open>The loop asks the proxy only in the attempts it makes, and for the backends it picks.\<close>

lemma proxy_attempt_cong:
  assumes "\<forall>d q. P k (be_ReverseProxy (sp_backends (fl_pool fl) ! b)) d q =
    en_proxy env k (be_ReverseProxy (sp_backends (fl_pool fl) ! b)) d q"
  shows "proxy_attempt (env\<lparr>en_proxy := P\<rparr>) k timeout ip b fl = proxy_attempt env k timeout ip b fl"
proof -
  have "be_ReverseProxy (sp_backends (upd_backend IncConnections b (fl_pool fl)) ! b) =
      be_ReverseProxy (sp_backends (fl_pool fl) ! b)"
    by (cases "b < length (sp_backends (fl_pool fl))")
      (simp_all add: upd_backend_def IncConnections_def list_update_beyond)
  with assms show ?thesis by (simp add: proxy_attempt_def)
qed

lemma Call_cong:
  "fn fl = fn' fl \<Longrightarrow> Call t0 t1 fn cb fl = Call t0 t1 fn' cb fl"
  by (simp add: Call_def split: option.split)

lemma attempt_loop_attempts_cong:
  assumes "\<forall>k \<in> set ks. P k = en_proxy env k"
  shows "attempt_loop (env\<lparr>en_proxy := P\<rparr>) timeout ip ks b lastErr cb fl =
    attempt_loop env timeout ip ks b lastErr cb fl"
  using assms
proof (induction ks arbitrary: b lastErr cb fl)
  case (Cons k ks)
  have "Call (en_admit env k) (en_settle env k) (proxy_attempt (env\<lparr>en_proxy := P\<rparr>) k timeout ip b) cb fl =
      Call (en_admit env k) (en_settle env k) (proxy_attempt env k timeout ip b) cb fl"
    using Cons.prems by (intro Call_cong proxy_attempt_cong) simp
  with Cons show ?case by (simp add: Let_def split: prod.split outcome.split sum.split)
qed simp

lemma dispatch_loop_cong:
  assumes "\<And>pool b fl. NextPeer (en_digest env) (sr_pools (gw_router gw) ! mr_Pool m) ip = Inr (pool, Some b) \<Longrightarrow>
     fl_pool fl = pool \<Longrightarrow> fl_rec fl = newResponseRecorder w \<Longrightarrow>
     attempt_loop (env\<lparr>en_proxy := P\<rparr>) (route_deadline (gw_cfg gw) m) ip [0, 1, 2] b [] (gw_circuitBreaker gw) fl =
     attempt_loop env (route_deadline (gw_cfg gw) m) ip [0, 1, 2] b [] (gw_circuitBreaker gw) fl"
  shows "dispatch (env\<lparr>en_proxy := P\<rparr>) gw w r ip m = dispatch env gw w r ip m"
  using assms
  by (simp add: dispatch_def Let_def del: attempt_loop.simps split: sum.split option.split prod.split)

lemma ServeHTTP_proxy_cong:
  assumes "\<And>gw1 w1 m. same_core gw gw1 \<Longrightarrow> Route (gw_router gw) (req_Host r) (req_Path r) = Some m \<Longrightarrow>
     dispatch (env\<lparr>en_proxy := P\<rparr>) gw1 w1 r (getClientIP r) m = dispatch env gw1 w1 r (getClientIP r) m"
  shows "ServeHTTP (env\<lparr>en_proxy := P\<rparr>) gw w r = ServeHTTP env gw w r"
proof -
  have cached: "authorize (env\<lparr>en_proxy := P\<rparr>) gw1 w1 r (getClientIP r) m = authorize env gw1 w1 r (getClientIP r) m"
    if "same_core gw gw1" "Route (gw_router gw) (req_Host r) (req_Path r) = Some m" for gw1 w1 m
    using assms [OF that]
    by (simp add: authorize_def serve_cached_def split: option.split)
  show ?thesis
    unfolding ServeHTTP_def
    by (auto simp: Let_def same_core_def intro!: cached split: prod.split option.split)
qed

section \<open>Retrying on ready pools\<close>

text \<open>A pool on which \<open>n\<close> more choices cannot panic.\<close>

definition ready_for :: "(string \<Rightarrow> 8 word list) \<Rightarrow> nat \<Rightarrow> ServicePool \<Rightarrow> bool" where
  "ready_for digest n s \<longleftrightarrow> digest_ok digest \<and> pool_ready s \<and>
     unat (sp_current s) + n + length (sp_backends s) < 2 ^ 63"

lemma ready_for_mono: "ready_for digest n s \<Longrightarrow> m \<le> n \<Longrightarrow> ready_for digest m s"
  by (simp add: ready_for_def)

lemma schedule_view:
  "map (\<lambda>b. (IsAlive b, be_Weight b)) bs = map (\<lambda>b. (IsAlive b, be_Weight b)) cs \<Longrightarrow>
   schedule bs i = schedule cs i"
proof (induction bs arbitrary: cs i)
  case (Cons b bs)
  from Cons.prems obtain c cs' where cs: "cs = c # cs'" "IsAlive b = IsAlive c" "be_Weight b = be_Weight c"
    "map (\<lambda>b. (IsAlive b, be_Weight b)) bs = map (\<lambda>b. (IsAlive b, be_Weight b)) cs'"
    by (cases cs) auto
  from Cons.IH [OF cs(4)] cs(1-3) show ?case by simp
qed simp

lemma weights_ok_view:
  assumes "map (\<lambda>b. (IsAlive b, be_Weight b)) (sp_backends s) = map (\<lambda>b. (IsAlive b, be_Weight b)) (sp_backends t)"
  shows "weights_ok s \<longleftrightarrow> weights_ok t"
proof -
  have "map (\<lambda>b. unat (be_Weight b)) (sp_backends s) = map (\<lambda>b. unat (be_Weight b)) (sp_backends t)"
    using arg_cong [OF assms, of "map (unat \<circ> snd)"] by (simp add: comp_def)
  then have "(\<lambda>b. unat (be_Weight b)) ` set (sp_backends s) = (\<lambda>b. unat (be_Weight b)) ` set (sp_backends t)"
    by (metis image_set)
  then have "(\<forall>b \<in> set (sp_backends s). 0 < unat (be_Weight b)) \<longleftrightarrow>
      (\<forall>b \<in> set (sp_backends t). 0 < unat (be_Weight b))"
    by (metis (no_types, lifting) image_iff)
  with schedule_view [OF assms, of 0] show ?thesis by (simp add: weights_ok_def)
qed

lemma ready_for_RecordFailure:
  assumes "ready_for digest n s"
  shows "ready_for digest n (upd_backend (RecordFailure t) b s)"
proof -
  let ?s = "upd_backend (RecordFailure t) b s"
  have "map (\<lambda>b. (IsAlive b, be_Weight b)) (sp_backends ?s) = map (\<lambda>b. (IsAlive b, be_Weight b)) (sp_backends s)"
    by (simp add: upd_backend_def map_update_same RecordFailure_def IsAlive_def)
  then have "weights_ok ?s \<longleftrightarrow> weights_ok s" by (rule weights_ok_view)
  moreover have "map GetConnections (sp_backends ?s) = map GetConnections (sp_backends s)"
    by (simp add: upd_backend_def map_update_same RecordFailure_def GetConnections_def)
  then have "GetConnections ` set (sp_backends ?s) = GetConnections ` set (sp_backends s)"
    by (metis image_set)
  then have "(\<forall>b \<in> set (sp_backends s). GetConnections b \<noteq> maxInt64) \<Longrightarrow>
      (\<forall>b \<in> set (sp_backends ?s). GetConnections b \<noteq> maxInt64)"
    by (metis (no_types, lifting) image_iff)
  ultimately show ?thesis
    using assms by (auto simp: ready_for_def pool_ready_def counter_low_def upd_backend_def)
qed

lemma NextPeer_current:
  "NextPeer digest s ip = Inr (s', r) \<Longrightarrow> sp_current s' = sp_current s \<or> sp_current s' = sp_current s + 1"
  by (cases rule: NextPeer_cases [of s digest ip])
    (auto simp: roundRobin_def weighted_def Let_def map_sum_Inr_iff split: if_splits sum.splits)

lemma ready_for_NextPeer:
  assumes "ready_for digest (Suc n) s"
  shows "\<exists>s' r. NextPeer digest s ip = Inr (s', r) \<and> ready_for digest n s'"
proof -
  from assms np.returns obtain s' r where p: "NextPeer digest s ip = Inr (s', r)"
    by (fastforce simp: ready_for_def)
  from np.frame [OF p] have b: "sp_backends s' = sp_backends s" by simp
  have "unat (sp_current s + 1) \<le> unat (sp_current s) + 1"
    using unat_word_ariths(1) [of "sp_current s" 1] by simp
  with NextPeer_current [OF p] have "unat (sp_current s') \<le> unat (sp_current s) + 1" by auto
  with assms b have "ready_for digest n s'"
    using weights_ok_view [of s' s] by (auto simp: ready_for_def pool_ready_def counter_low_def)
  with p show ?thesis by blast
qed

text \<open>A closed breaker that is \<open>n\<close> failures away from opening.\<close>

definition closed_for :: "nat \<Rightarrow> CircuitBreaker \<Rightarrow> bool" where
  "closed_for n cb \<longleftrightarrow> cb_state cb = ''closed'' \<and> 0 \<le> sint (cb_failures cb) \<and>
     sint (cb_failures cb) + int n < sint (cb_maxFailures cb)"

lemma closed_for_failure:
  assumes "closed_for (Suc n) cb"
  shows "\<exists>cb'. settle t (Failure err) cb = (cb', False) \<and> closed_for n cb'"
proof -
  have r: "sint (cb_failures cb) + 1 < 2 ^ 63"
    using assms sint_int64_range [of "cb_maxFailures cb"] by (auto simp: closed_for_def)
  have "cb_failures cb + 1 = word_of_int (sint (cb_failures cb) + 1)" by simp
  then have s: "sint (cb_failures cb + 1) = sint (cb_failures cb) + 1"
    using assms r sint_word_of_int64 [of "sint (cb_failures cb) + 1"] by (simp add: closed_for_def)
  with assms show ?thesis by (auto simp: closed_for_def Let_def)
qed

lemma closed_for_admit: "closed_for n cb \<Longrightarrow> admit t cb = Some cb"
  by (simp add: closed_for_def admit_def)

lemma proxy_attempt_silent:
  assumes "en_proxy env k = (\<lambda>_ _ _. ([], Failure err))"
  shows "proxy_attempt env k timeout ip b fl =
    (fl\<lparr>fl_req := (fl_req fl)\<lparr>req_Header := forward_headers ip (en_stamp env k) (req_Header (fl_req fl))\<rparr>\<rparr>,
     Failure err)"
  using assms by (simp add: proxy_attempt_def)

text \<open>A silent failure of an attempt is followed by the rest of the loop on another choice.\<close>

lemma attempt_loop_silent:
  assumes "en_proxy env k = (\<lambda>_ _ _. ([], Failure err))" and "closed_for (Suc n) cb"
    and "ready_for (en_digest env) (Suc p) (fl_pool fl)" and "\<not> rr_Committed (fl_rec fl)" and "k < 2"
  obtains cb1 pool b' where "closed_for n cb1" "ready_for (en_digest env) p pool"
    "attempt_loop env timeout ip (k # ks) b lastErr cb fl =
       map_sum id (\<lambda>(cb', fl', m, sleeps, e). (cb', fl', m, backoff k # sleeps, e))
         (attempt_loop env timeout ip ks b' err cb1
            (fl\<lparr>fl_req := (fl_req fl)\<lparr>req_Header := forward_headers ip (en_stamp env k) (req_Header (fl_req fl))\<rparr>,
                fl_pool := pool\<rparr>))"
proof -
  obtain cb1 where cb1: "settle (en_settle env k) (Failure err) cb = (cb1, False)" "closed_for n cb1"
    using closed_for_failure [OF assms(2), of "en_settle env k" err] by blast
  from ready_for_NextPeer [OF ready_for_RecordFailure [OF assms(3)], of "en_failed env k" b ip]
  obtain pool peer where np: "NextPeer (en_digest env)
      (upd_backend (RecordFailure (en_failed env k)) b (fl_pool fl)) ip = Inr (pool, peer)"
    "ready_for (en_digest env) p pool" by blast
  have "Call (en_admit env k) (en_settle env k) (proxy_attempt env k timeout ip b) cb fl =
      ((cb1, fl\<lparr>fl_req := (fl_req fl)\<lparr>req_Header := forward_headers ip (en_stamp env k) (req_Header (fl_req fl))\<rparr>\<rparr>),
       Failure err, False)"
    by (simp add: Call_def closed_for_admit [OF assms(2)] proxy_attempt_silent [OF assms(1)] cb1(1)
        del: settle.simps)
  then show ?thesis
    using assms(4,5) np cb1(2) by (intro that [of cb1 pool "case peer of None \<Rightarrow> b | Some nxt \<Rightarrow> nxt"]) simp_all
qed

lemma attempt_loop_last_silent:
  assumes "en_proxy env 2 = (\<lambda>_ _ _. ([], Failure err))" and "closed_for (Suc n) cb"
    and "\<not> rr_Committed (fl_rec fl)"
  shows "\<exists>cb1 fl'. attempt_loop env timeout ip [2] b lastErr cb fl = Inr (cb1, fl', 0, [], Exhausted err) \<and>
    closed_for n cb1 \<and> fl_rec fl' = fl_rec fl \<and>
    req_Header (fl_req fl') = forward_headers ip (en_stamp env 2) (req_Header (fl_req fl))"
proof -
  obtain cb1 where cb1: "settle (en_settle env 2) (Failure err) cb = (cb1, False)" "closed_for n cb1"
    using closed_for_failure [OF assms(2), of "en_settle env 2" err] by blast
  have "Call (en_admit env 2) (en_settle env 2) (proxy_attempt env 2 timeout ip b) cb fl =
      ((cb1, fl\<lparr>fl_req := (fl_req fl)\<lparr>req_Header := forward_headers ip (en_stamp env 2) (req_Header (fl_req fl))\<rparr>\<rparr>),
       Failure err, False)"
    by (simp add: Call_def closed_for_admit [OF assms(2)] proxy_attempt_silent [OF assms(1)] cb1(1)
        del: settle.simps)
  with assms(3) cb1(2) show ?thesis by (simp add: Let_def)
qed

lemma attempt_loop_success:
  assumes "en_proxy env k = (\<lambda>_ _ _. (evs, Success))" and "closed_for n cb"
  shows "\<exists>fl'. attempt_loop env timeout ip (k # ks) b lastErr cb fl =
      Inr (cb\<lparr>cb_failures := 0\<rparr>, fl', 0, [], Completed b) \<and> fl_rec fl' = rr_run (fl_rec fl) evs"
proof -
  have st: "cb_state cb = ''closed''" using assms(2) by (simp add: closed_for_def)
  obtain fl1 where p: "proxy_attempt env k timeout ip b fl = (fl1, Success)" "fl_rec fl1 = rr_run (fl_rec fl) evs"
    using assms(1) by (simp add: proxy_attempt_def)
  have "settle t (Success :: string outcome) cb = (cb\<lparr>cb_failures := 0\<rparr>, False)" for t
    using st by (cases cb) simp
  with p(1) have "Call (en_admit env k) (en_settle env k) (proxy_attempt env k timeout ip b) cb fl =
      ((cb\<lparr>cb_failures := 0\<rparr>, fl1), Success, False)"
    by (simp add: Call_def closed_for_admit [OF assms(2)] Let_def)
  with p(2) show ?thesis by simp
qed

lemma forward_headers_xff:
  "Header_Get (forward_headers ip stamp h) ''X-Forwarded-For'' =
     (let prior = Header_Get h ''X-Forwarded-For'' in if prior \<noteq> [] \<and> prior \<noteq> ip then prior @ '', '' @ ip else ip)"
  by (simp add: forward_headers_def Let_def)

lemma attempt_loop_masks:
  assumes "\<forall>i < k. en_proxy env i = (\<lambda>_ _ _. ([], Failure (err i)))"
    and "en_proxy env k = (\<lambda>_ _ _. (evs, Success))" and "k < 3"
  shows "j \<le> k \<Longrightarrow> closed_for (k - j) cb \<Longrightarrow> ready_for (en_digest env) (k - j) (fl_pool fl) \<Longrightarrow>
    \<not> rr_Committed (fl_rec fl) \<Longrightarrow>
    \<exists>cb' fl' m sleeps b'. attempt_loop env timeout ip [j..<3] b lastErr cb fl = Inr (cb', fl', m, sleeps, Completed b') \<and>
      fl_rec fl' = rr_run (fl_rec fl) evs \<and> cb_state cb' = ''closed'' \<and> cb_failures cb' = 0"
proof (induction "k - j" arbitrary: j b lastErr cb fl)
  case 0
  then have "[j..<3] = k # [Suc k..<3]" using assms(3) by (simp add: upt_conv_Cons)
  with attempt_loop_success [OF assms(2) \<open>closed_for (k - j) cb\<close>, of timeout ip "[Suc k..<3]" b lastErr fl]
    \<open>closed_for (k - j) cb\<close>
  show ?case by (auto simp: closed_for_def simp del: attempt_loop.simps)
next
  case (Suc d)
  then have j: "j < k" "k - Suc j = d" "j < 2" using assms(3) by auto
  then have upt: "[j..<3] = j # [Suc j..<3]" by (simp add: upt_conv_Cons)
  have fail: "en_proxy env j = (\<lambda>_ _ _. ([], Failure (err j)))" using assms(1) j(1) by simp
  from Suc.prems(2,3) Suc.hyps(2) have "closed_for (Suc d) cb" "ready_for (en_digest env) (Suc d) (fl_pool fl)"
    by simp_all
  from attempt_loop_silent [OF fail this Suc.prems(4) j(3), of timeout ip "[Suc j..<3]" b lastErr]
  obtain cb1 pool b' where st: "closed_for d cb1" "ready_for (en_digest env) d pool"
    "attempt_loop env timeout ip (j # [Suc j..<3]) b lastErr cb fl =
       map_sum id (\<lambda>(cb', fl', m, sleeps, e). (cb', fl', m, backoff j # sleeps, e))
         (attempt_loop env timeout ip [Suc j..<3] b' (err j) cb1
            (fl\<lparr>fl_req := (fl_req fl)\<lparr>req_Header := forward_headers ip (en_stamp env j) (req_Header (fl_req fl))\<rparr>,
                fl_pool := pool\<rparr>))"
    by blast
  let ?fl = "fl\<lparr>fl_req := (fl_req fl)\<lparr>req_Header := forward_headers ip (en_stamp env j) (req_Header (fl_req fl))\<rparr>,
     fl_pool := pool\<rparr>"
  have "\<exists>cb' fl' m sleeps b''. attempt_loop env timeout ip [Suc j..<3] b' (err j) cb1 ?fl =
        Inr (cb', fl', m, sleeps, Completed b'') \<and>
      fl_rec fl' = rr_run (fl_rec ?fl) evs \<and> cb_state cb' = ''closed'' \<and> cb_failures cb' = 0"
    using Suc.hyps(1) [of "Suc j" cb1 ?fl b' "err j"] j st(1,2) Suc.prems(4) by simp
  then show ?case unfolding upt st(3) by auto
qed

section \<open>Which proxies the loop asks\<close>

lemma proxy_attempt_fixes:
  "fl_pool (fst (proxy_attempt env k timeout ip b fl)) = fl_pool fl"
  by (simp add: proxy_attempt_def Let_def split: prod.split)

lemma Call_pool:
  "Call t0 t1 (proxy_attempt env k timeout ip b) cb fl = ((cb1, fl1), out, tripped) \<Longrightarrow> fl_pool fl1 = fl_pool fl"
  using proxy_attempt_fixes [of env k timeout ip b fl] by (auto elim!: Call_attempt)

lemma RecordFailure_proxy:
  "be_ReverseProxy (sp_backends (upd_backend (RecordFailure t) i s) ! j) = be_ReverseProxy (sp_backends s ! j)"
  by (cases "i < length (sp_backends s)")
    (simp_all add: upd_backend_def RecordFailure_def nth_list_update list_update_beyond)

text \<open>A choice that repeats itself after a failure keeps the loop on one backend.\<close>

lemma attempt_loop_one_backend:
  assumes "\<forall>k d q. P k px d q = en_proxy env k px d q"
  shows "blind_algo (sp_algo (fl_pool fl)) \<Longrightarrow>
    NextPeer (en_digest env) (fl_pool fl) ip = Inr (fl_pool fl, Some b) \<Longrightarrow>
    be_ReverseProxy (sp_backends (fl_pool fl) ! b) = px \<Longrightarrow>
    attempt_loop (env\<lparr>en_proxy := P\<rparr>) timeout ip ks b lastErr cb fl =
    attempt_loop env timeout ip ks b lastErr cb fl"
proof (induction ks arbitrary: lastErr cb fl)
  case (Cons k ks)
  have "Call (en_admit env k) (en_settle env k) (proxy_attempt (env\<lparr>en_proxy := P\<rparr>) k timeout ip b) cb fl =
      Call (en_admit env k) (en_settle env k) (proxy_attempt env k timeout ip b) cb fl"
    using Cons.prems(3) assms by (intro Call_cong proxy_attempt_cong) simp
  moreover obtain cb1 fl1 out tripped where c:
    "Call (en_admit env k) (en_settle env k) (proxy_attempt env k timeout ip b) cb fl = ((cb1, fl1), out, tripped)"
    by (metis prod.collapse)
  let ?fl = "fl1\<lparr>fl_pool := upd_backend (RecordFailure (en_failed env k)) b (fl_pool fl1)\<rparr>"
  have pool: "fl_pool fl1 = fl_pool fl" by (rule Call_pool [OF c])
  have np: "NextPeer (en_digest env) (fl_pool ?fl) ip = Inr (fl_pool ?fl, Some b)"
    using NextPeer_failure_ignored [OF Cons.prems(1,2)] pool by simp
  have "attempt_loop (env\<lparr>en_proxy := P\<rparr>) timeout ip ks b err cb1 ?fl =
      attempt_loop env timeout ip ks b err cb1 ?fl" for err
  proof (rule Cons.IH)
    show "blind_algo (sp_algo (fl_pool ?fl))" using Cons.prems(1) pool by (simp add: upd_backend_def)
    show "be_ReverseProxy (sp_backends (fl_pool ?fl) ! b) = px"
      using Cons.prems(3) pool by (simp add: RecordFailure_proxy)
  qed (rule np)
  ultimately show ?case using c np by (cases out) (simp_all add: Let_def)
qed simp

text \<open>A committed first attempt ends the loop.\<close>

lemma attempt_loop_committed:
  assumes "P k = en_proxy env k" and "admit (en_admit env k) cb \<noteq> None"
    and "\<forall>px d q. rr_Committed (rr_run (fl_rec fl) (fst (en_proxy env k px d q)))"
  shows "attempt_loop (env\<lparr>en_proxy := P\<rparr>) timeout ip (k # ks) b lastErr cb fl =
    attempt_loop env timeout ip (k # ks) b lastErr cb fl"
proof -
  have same: "Call (en_admit env k) (en_settle env k) (proxy_attempt (env\<lparr>en_proxy := P\<rparr>) k timeout ip b) cb fl =
      Call (en_admit env k) (en_settle env k) (proxy_attempt env k timeout ip b) cb fl"
    using assms(1) by (intro Call_cong proxy_attempt_cong) simp
  obtain cb1 fl1 out tripped where c:
    "Call (en_admit env k) (en_settle env k) (proxy_attempt env k timeout ip b) cb fl = ((cb1, fl1), out, tripped)"
    by (metis prod.collapse)
  then have "fl1 = fst (proxy_attempt env k timeout ip b fl)"
    using assms(2) by (auto simp: Call_def Let_def split: prod.splits)
  with proxy_attempt_rec [of env k timeout ip b fl] assms(3) have "rr_Committed (fl_rec fl1)" by auto
  with same c show ?thesis by (cases out) (simp_all add: Let_def)
qed

section \<open>Properties\<close>

lemma example_ready: "ready_for (en_digest (example_env n)) 3 (sr_pools (gw_router (example_gateway False ''least-conn'')) ! 0)"
proof -
  let ?s = "sr_pools (gw_router (example_gateway False ''least-conn'')) ! 0"
  have "sp_current ?s = 0" "length (sp_backends ?s) = 2" "length (schedule (sp_backends ?s) 0) = 2"
    by code_simp+
  moreover have "list_all (\<lambda>b. 0 < unat (be_Weight b) \<and> GetConnections b \<noteq> maxInt64) (sp_backends ?s)"
    by code_simp
  moreover have "digest_ok (en_digest (example_env n))" by (simp add: digest_ok_def example_env_def)
  ultimately show ?thesis
    by (simp add: ready_for_def pool_ready_def counter_low_def weights_ok_def list_all_iff)
qed

text \<open>
  C5: retries mask transient failures. On a route whose pool is ready and has a live backend,
  with a closed breaker that is more than \<open>k\<close> failures away from its limit, if the first
  \<open>k\<close> attempts (at most two) fail before anything is sent and the next one succeeds, the
  client gets exactly the response of that attempt, and the breaker is closed with no
  failures counted. The metrics library is taken to accept method and path as labels.
\<close>

theorem retries_mask_failures:
  assumes "\<forall>i < k. en_proxy env i = (\<lambda>_ _ _. ([], Failure (err i)))"
    and "en_proxy env k = (\<lambda>_ _ _. (evs, Success))" and "k < 3"
    and "closed_for k (gw_circuitBreaker gw)"
    and "ready_for (en_digest env) (Suc k) (sr_pools (gw_router gw) ! mr_Pool m)"
    and "list_ex IsAlive (sp_backends (sr_pools (gw_router gw) ! mr_Pool m))"
    and "labels_accepted env (req_Method r) (mr_BackendPath m)"
  shows "\<exists>gw'. dispatch env gw w r ip m =
      Inr (gw', rr_w (rr_run (newResponseRecorder w) evs), Finished) \<and>
    GetState (gw_circuitBreaker gw') = ''closed'' \<and> cb_failures (gw_circuitBreaker gw') = 0"
proof -
  let ?s = "sr_pools (gw_router gw) ! mr_Pool m"
  from ready_for_NextPeer [OF assms(5)] obtain pool peer where
    np: "NextPeer (en_digest env) ?s ip = Inr (pool, peer)" "ready_for (en_digest env) k pool" by blast
  from assms(5,6) np(1) np.starved [of ?s "en_digest env" ip pool] obtain b where b: "peer = Some b"
    by (cases peer) (auto simp: ready_for_def list_ex_iff)
  let ?r = "if mr_BackendPath m \<noteq> req_Path r
    then r\<lparr>req_Path := mr_BackendPath m, req_RawPath := mr_BackendPath m\<rparr> else r"
  let ?fl = "\<lparr>fl_pool = pool, fl_rec = newResponseRecorder w, fl_req = ?r, fl_active = mt_active (gw_metrics gw)\<rparr>"
  have "\<not> rr_Committed (fl_rec ?fl)" by (simp add: rr_Committed_def newResponseRecorder_def)
  then obtain cb' fl' n sleeps b' where
    loop: "attempt_loop env (route_deadline (gw_cfg gw) m) ip [0..<3] b [] (gw_circuitBreaker gw) ?fl =
      Inr (cb', fl', n, sleeps, Completed b')"
    and res: "fl_rec fl' = rr_run (newResponseRecorder w) evs" "cb_state cb' = ''closed''" "cb_failures cb' = 0"
    using attempt_loop_masks [OF assms(1-3), of 0 "gw_circuitBreaker gw" ?fl] assms(4) np(2) by fastforce
  have "[0..<3] = [0, 1, 2 :: nat]" by code_simp
  then have "dispatch env gw w r ip m =
      finish env (set_pool (mr_Pool m) (fl_pool fl') gw) (cb', fl', n, sleeps, Completed b')"
    using loop np(1) b unfolding dispatch_def by (simp only: sum.case prod.case option.case Let_def)
  moreover have "labels_accepted env (req_Method (fl_req fl')) (req_Path (fl_req fl'))"
    using attempt_loop_steady [OF loop] assms(7) by (simp add: steady_def split: if_splits)
  from finish_completed [OF this] obtain gw' where
    "finish env (set_pool (mr_Pool m) (fl_pool fl') gw) (cb', fl', n, sleeps, Completed b') =
       Inr (gw', rr_w (fl_rec fl'), Finished)" "gw_circuitBreaker gw' = cb'"
    by blast
  ultimately show ?thesis using res by (simp add: GetState_def)
qed

theorem retries_mask_failures_witness:
  "\<exists>gw'. dispatch (example_env 2) (example_gateway False ''least-conn'') (fresh_writer True True)
      (example_request ''GET'' ''ex.com'' ''/api/x'') ''1.2.3.4''
      \<lparr>mr_Name = [], mr_Pool = 0, mr_BackendPath = ''/x'', mr_RequireAuth = False, mr_Timeout = hour\<rparr> =
    Inr (gw', rr_w (rr_run (newResponseRecorder (fresh_writer True True)) [EvWriteHeader 201, EvWrite ''ok'']), Finished)"
proof -
  let ?gw = "example_gateway False ''least-conn''"
  let ?m = "\<lparr>mr_Name = [], mr_Pool = 0, mr_BackendPath = ''/x'', mr_RequireAuth = False, mr_Timeout = hour\<rparr>"
  have closed: "closed_for 2 (gw_circuitBreaker ?gw)" by code_simp
  have up: "list_ex IsAlive (sp_backends (sr_pools (gw_router ?gw) ! mr_Pool ?m))" by code_simp
  have ready: "ready_for (en_digest (example_env 2)) (Suc 2) (sr_pools (gw_router ?gw) ! mr_Pool ?m)"
    using example_ready [of 2] by (simp only: MatchedRoute.select_convs Suc_numeral add_num_simps)
  have fails: "\<forall>i < 2. en_proxy (example_env 2) i = (\<lambda>_ _ _. ([], Failure ''refused''))"
    and ok: "en_proxy (example_env 2) 2 = (\<lambda>_ _ _. ([EvWriteHeader 201, EvWrite ''ok''], Success))"
    by (auto simp: example_env_def)
  have labels: "labels_accepted (example_env 2) (req_Method (example_request ''GET'' ''ex.com'' ''/api/x''))
      (mr_BackendPath ?m)"
    using ascii_Itoa by (simp add: labels_accepted_def example_env_def example_request_def ascii_bits)
  from retries_mask_failures [OF fails ok _ closed ready up labels, of "fresh_writer True True" "''1.2.3.4''"]
  show ?thesis by (auto simp del: foldl_Cons)
qed

text \<open>
  C6: a request reaches upstreams at most three times, and never again once the client has
  seen part of a response. The handler's result depends on the proxy only in the attempts 0,
  1 and 2; and if the breaker admits the first attempt and the proxy sends a status or a
  piece of body in it, only on that attempt.
\<close>

theorem attempts_bounded:
  "(P 0 = en_proxy env 0 \<and> P 1 = en_proxy env 1 \<and> P 2 = en_proxy env 2 \<longrightarrow>
     ServeHTTP (env\<lparr>en_proxy := P\<rparr>) gw w r = ServeHTTP env gw w r) \<and>
   (P 0 = en_proxy env 0 \<and> admit (en_admit env 0) (gw_circuitBreaker gw) \<noteq> None \<and>
    (\<forall>px d q. commits (fst (en_proxy env 0 px d q))) \<longrightarrow>
     ServeHTTP (env\<lparr>en_proxy := P\<rparr>) gw w r = ServeHTTP env gw w r)"
proof (intro conjI impI; elim conjE)
  assume "P 0 = en_proxy env 0" "P 1 = en_proxy env 1" "P 2 = en_proxy env 2"
  then have "\<forall>k \<in> set [0, 1, 2]. P k = en_proxy env k" by simp
  from attempt_loop_attempts_cong [OF this] show "ServeHTTP (env\<lparr>en_proxy := P\<rparr>) gw w r = ServeHTTP env gw w r"
    by (intro ServeHTTP_proxy_cong dispatch_loop_cong)
next
  assume p: "P 0 = en_proxy env 0" "admit (en_admit env 0) (gw_circuitBreaker gw) \<noteq> None"
    "\<forall>px d q. commits (fst (en_proxy env 0 px d q))"
  then have "\<forall>px d q. rr_Committed (rr_run rr (fst (en_proxy env 0 px d q)))" for rr
    by (simp add: commits_run)
  with attempt_loop_committed [where P = P and k = 0 and env = env, OF p(1)] p(2) show "ServeHTTP (env\<lparr>en_proxy := P\<rparr>) gw w r = ServeHTTP env gw w r"
    by (intro ServeHTTP_proxy_cong dispatch_loop_cong) (simp only: same_core_def simp_thms)
qed

theorem attempts_bounded_witness:
  "ServeHTTP ((example_env 0)\<lparr>en_proxy := (\<lambda>k. if k < 3 then en_proxy (example_env 0) k else (\<lambda>_ _ _. ([], Panicked)))\<rparr>)
     (example_gateway False ''least-conn'') (fresh_writer True True) (example_request ''GET'' ''ex.com'' ''/api/x'') =
   ServeHTTP (example_env 0)
     (example_gateway False ''least-conn'') (fresh_writer True True) (example_request ''GET'' ''ex.com'' ''/api/x'')"
  using attempts_bounded [of "\<lambda>k. if k < 3 then en_proxy (example_env 0) k else (\<lambda>_ _ _. ([], Panicked))"
      "example_env 0" "example_gateway False ''least-conn''" "fresh_writer True True"
      "example_request ''GET'' ''ex.com'' ''/api/x''"]
  by simp

text \<open>
  What this means for a lone request: with the algorithms that decide by liveness and load
  alone, a retry goes to the backend that just failed. If no other request and no health check
  runs during the back-off, then on a pool with any algorithm but round-robin and weighted
  all attempts of the request are made on the backend chosen first: the result depends on
  no other backend's proxy.
\<close>

theorem retry_same_backend:
  assumes "blind_algo (sp_algo (sr_pools (gw_router gw) ! mr_Pool m))"
    and "NextPeer (en_digest env) (sr_pools (gw_router gw) ! mr_Pool m) ip = Inr (pool, Some b)"
    and "\<forall>k d q. P k (be_ReverseProxy (sp_backends pool ! b)) d q =
      en_proxy env k (be_ReverseProxy (sp_backends pool ! b)) d q"
  shows "dispatch (env\<lparr>en_proxy := P\<rparr>) gw w r ip m = dispatch env gw w r ip m"
proof (rule dispatch_loop_cong)
  fix pool' b' and fl :: Flight
  assume "NextPeer (en_digest env) (sr_pools (gw_router gw) ! mr_Pool m) ip = Inr (pool', Some b')"
    "fl_pool fl = pool'"
  with assms(2) NextPeer_failure_ignored [OF assms(1,2)]
  have "b' = b" "fl_pool fl = pool" "pool = sr_pools (gw_router gw) ! mr_Pool m" by auto
  with attempt_loop_one_backend [where P = P and env = env and px = "be_ReverseProxy (sp_backends pool ! b)",
      OF assms(3), of fl ip b] assms(1,2)
  show "attempt_loop (env\<lparr>en_proxy := P\<rparr>) (route_deadline (gw_cfg gw) m) ip [0, 1, 2] b' [] (gw_circuitBreaker gw) fl =
     attempt_loop env (route_deadline (gw_cfg gw) m) ip [0, 1, 2] b' [] (gw_circuitBreaker gw) fl"
    by (simp only:)
qed

theorem retry_same_backend_witness:
  "let m = \<lparr>mr_Name = [], mr_Pool = 0, mr_BackendPath = ''/x'', mr_RequireAuth = False, mr_Timeout = hour\<rparr> in
   dispatch ((example_env 3)\<lparr>en_proxy := (\<lambda>k px d q. if url_Host (px_target px) = ''a:1''
       then en_proxy (example_env 3) k px d q else ([EvWriteHeader 200], Success))\<rparr>)
     (example_gateway False ''least-conn'') (fresh_writer True True)
     (example_request ''GET'' ''ex.com'' ''/api/x'') ''1.2.3.4'' m =
   dispatch (example_env 3) (example_gateway False ''least-conn'') (fresh_writer True True)
     (example_request ''GET'' ''ex.com'' ''/api/x'') ''1.2.3.4'' m"
proof -
  let ?m = "\<lparr>mr_Name = [], mr_Pool = 0, mr_BackendPath = ''/x'', mr_RequireAuth = False, mr_Timeout = hour\<rparr>"
  let ?s = "sr_pools (gw_router (example_gateway False ''least-conn'')) ! mr_Pool ?m"
  have algo: "blind_algo (sp_algo ?s)" by code_simp
  have host: "url_Host (px_target (be_ReverseProxy (sp_backends ?s ! 0))) = ''a:1''" by code_simp
  have "sp_algo ?s = ''least-conn''" "sp_backends ?s \<noteq> []" "leastConnections ?s = Some 0" by code_simp+
  then have np: "NextPeer (en_digest (example_env 3)) ?s ''1.2.3.4'' = Inr (?s, Some 0)"
    by (simp add: NextPeer_def del: MatchedRoute.select_convs)
  from host retry_same_backend [OF algo np] show ?thesis by (simp add: Let_def)
qed

text \<open>
  Failed attempts leave their mark in the forwarded chain. When a client behind another
  proxy is retried, each attempt appends the client address to the shared
  \<open>X-Forwarded-For\<close> header again: after three silent failures the chain ends in three
  copies of it. The attempts are 100 and 200 milliseconds apart and the loop gives up with
  the last error.
\<close>

theorem forwarded_chain_repeats:
  assumes "\<forall>i < 3. en_proxy env i = (\<lambda>_ _ _. ([], Failure (err i)))"
    and "closed_for 3 cb" and "ready_for (en_digest env) 2 (fl_pool fl)" and "\<not> rr_Committed (fl_rec fl)"
    and "Header_Get (req_Header (fl_req fl)) ''X-Forwarded-For'' = prior" and "prior \<notin> {[], ip}"
    and "ip \<noteq> []"
  shows "\<exists>cb' fl'. attempt_loop env timeout ip [0, 1, 2] b [] cb fl =
      Inr (cb', fl', 0, [100 * millisecond, 200 * millisecond], Exhausted (err 2)) \<and>
    Header_Get (req_Header (fl_req fl')) ''X-Forwarded-For'' = prior @ '', '' @ ip @ '', '' @ ip @ '', '' @ ip"
proof -
  have p: "en_proxy env 0 = (\<lambda>_ _ _. ([], Failure (err 0)))" "en_proxy env 1 = (\<lambda>_ _ _. ([], Failure (err 1)))"
    "en_proxy env 2 = (\<lambda>_ _ _. ([], Failure (err 2)))" using assms(1) by simp_all
  have n: "closed_for (Suc 2) cb" "ready_for (en_digest env) (Suc 1) (fl_pool fl)"
    using assms(2,3) by (simp_all add: numeral_2_eq_2 numeral_3_eq_3)
  let ?h0 = "req_Header (fl_req fl)"
  let ?h1 = "forward_headers ip (en_stamp env 0) ?h0"
  let ?h2 = "forward_headers ip (en_stamp env 1) ?h1"
  obtain cb1 p1 b1 where s1: "closed_for 2 cb1" "ready_for (en_digest env) 1 p1"
    "attempt_loop env timeout ip (0 # [1, 2]) b [] cb fl =
       map_sum id (\<lambda>(cb', fl', m, sleeps, e). (cb', fl', m, backoff 0 # sleeps, e))
         (attempt_loop env timeout ip [1, 2] b1 (err 0) cb1
           (fl\<lparr>fl_req := (fl_req fl)\<lparr>req_Header := ?h1\<rparr>, fl_pool := p1\<rparr>))"
    by (rule attempt_loop_silent [OF p(1) n assms(4)]) (simp, blast)
  let ?fl1 = "fl\<lparr>fl_req := (fl_req fl)\<lparr>req_Header := ?h1\<rparr>, fl_pool := p1\<rparr>"
  have n1: "closed_for (Suc 1) cb1" "ready_for (en_digest env) (Suc 0) (fl_pool ?fl1)"
    using s1(1,2) by (simp_all add: numeral_2_eq_2)
  obtain cb2 p2 b2 where s2: "closed_for 1 cb2"
    "attempt_loop env timeout ip (1 # [2]) b1 (err 0) cb1 ?fl1 =
       map_sum id (\<lambda>(cb', fl', m, sleeps, e). (cb', fl', m, backoff 1 # sleeps, e))
         (attempt_loop env timeout ip [2] b2 (err 1) cb2
           (?fl1\<lparr>fl_req := (fl_req ?fl1)\<lparr>req_Header := ?h2\<rparr>, fl_pool := p2\<rparr>))"
    by (rule attempt_loop_silent [OF p(2) n1, of timeout ip "[2]" b1 "err 0"]) (use assms(4) in \<open>simp_all\<close>)
  let ?fl2 = "?fl1\<lparr>fl_req := (fl_req ?fl1)\<lparr>req_Header := ?h2\<rparr>, fl_pool := p2\<rparr>"
  obtain cb3 fl3 where s3: "attempt_loop env timeout ip [2] b2 (err 1) cb2 ?fl2 = Inr (cb3, fl3, 0, [], Exhausted (err 2))"
    "req_Header (fl_req fl3) = forward_headers ip (en_stamp env 2) ?h2"
    using attempt_loop_last_silent [OF p(3), of 0 cb2 ?fl2 timeout ip b2 "err 1"] s2(1) assms(4) by auto
  have "backoff 0 = 100 * millisecond" "backoff 1 = 200 * millisecond"
    by (simp_all add: backoff_def)
  moreover have "Header_Get (req_Header (fl_req fl3)) ''X-Forwarded-For'' = prior @ '', '' @ ip @ '', '' @ ip @ '', '' @ ip"
    using assms(5-7) by (auto simp: s3(2) forward_headers_xff Let_def dest: arg_cong [where f = length])
  ultimately show ?thesis unfolding s1(3) using s2(2) s3(1) by simp
qed

theorem forwarded_chain_repeats_witness:
  "\<exists>cb' fl'. attempt_loop (example_env 3) second ''1.2.3.4'' [0, 1, 2] 0 []
      (gw_circuitBreaker (example_gateway False ''least-conn''))
      \<lparr>fl_pool = sr_pools (gw_router (example_gateway False ''least-conn'')) ! 0,
       fl_rec = newResponseRecorder (fresh_writer True True),
       fl_req = (example_request ''GET'' ''ex.com'' ''/api/x'')
         \<lparr>req_Header := [''x-forwarded-for'' \<mapsto> [''9.9.9.9'']]\<rparr>,
       fl_active = 0\<rparr> =
      Inr (cb', fl', 0, [100 * millisecond, 200 * millisecond], Exhausted ''refused'') \<and>
    Header_Get (req_Header (fl_req fl')) ''X-Forwarded-For'' = ''9.9.9.9, 1.2.3.4, 1.2.3.4, 1.2.3.4''"
proof -
  let ?fl = "\<lparr>fl_pool = sr_pools (gw_router (example_gateway False ''least-conn'')) ! 0,
       fl_rec = newResponseRecorder (fresh_writer True True),
       fl_req = (example_request ''GET'' ''ex.com'' ''/api/x'')
         \<lparr>req_Header := [''x-forwarded-for'' \<mapsto> [''9.9.9.9'']]\<rparr>,
       fl_active = 0\<rparr>"
  have fails: "\<forall>i < 3. en_proxy (example_env 3) i = (\<lambda>_ _ _. ([], Failure ''refused''))"
    by (simp add: example_env_def)
  have closed: "closed_for 3 (gw_circuitBreaker (example_gateway False ''least-conn''))" by code_simp
  have ready: "ready_for (en_digest (example_env 3)) 2 (fl_pool ?fl)"
    using ready_for_mono [OF example_ready] by simp
  have fresh: "\<not> rr_Committed (fl_rec ?fl)" by (simp add: rr_Committed_def newResponseRecorder_def)
  have prior: "Header_Get (req_Header (fl_req ?fl)) ''X-Forwarded-For'' = ''9.9.9.9''"
    by (simp add: Header_Get_def)
  from forwarded_chain_repeats [OF fails closed ready fresh prior, of "''1.2.3.4''" second 0] show ?thesis
    by (simp del: attempt_loop.simps)
qed

end
