(* ===== verification/Server.thy ===== *)
theory Server
  imports Admin Live_Dashboard Compression Gateway_Retry
begin

text \<open>
  \<open>main.go\<close>, the process: the table of the request multiplexer and the chain of handlers
  every request goes through, the health-check scheduler, and the end of the process. The
  multiplexer of \<open>net/http\<close> works on the escaped path: it redirects to the cleaned path and
  then compares segments.
\<close>

section \<open>The multiplexer\<close>

text \<open>\<open>path.Clean\<close> of a rooted path, segment by segment, and the server's \<open>cleanPath\<close>.\<close>

fun clean_segs :: "string list \<Rightarrow> string list \<Rightarrow> string list" where
  "clean_segs acc [] = rev acc"
| "clean_segs acc (s # ss) =
     (if s = [] \<or> s = ''.'' then clean_segs acc ss
      else if s = ''..'' then clean_segs (tl acc) ss
      else clean_segs (s # acc) ss)"

definition path_Clean :: "string \<Rightarrow> string" where
  "path_Clean p = ''/'' @ Join (clean_segs [] (SplitByte p CHR ''/'')) ''/''"

definition cleanPath :: "string \<Rightarrow> string" where
  "cleanPath p =
     (if p = [] then ''/''
      else let p1 = (if hd p \<noteq> CHR ''/'' then ''/'' @ p else p); np = path_Clean p1
           in if last p1 = CHR ''/'' \<and> np \<noteq> ''/'' then np @ ''/'' else np)"

text \<open>Percent decoding; a segment that does not decode is compared as it is.\<close>

definition unhex :: "char \<Rightarrow> nat option" where
  "unhex c =
     (let n = of_char c :: nat
      in if 48 \<le> n \<and> n \<le> 57 then Some (n - 48)
         else if 97 \<le> n \<and> n \<le> 102 then Some (n - 87)
         else if 65 \<le> n \<and> n \<le> 70 then Some (n - 55) else None)"

fun PathUnescape :: "string \<Rightarrow> string option" where
  "PathUnescape [] = Some []"
| "PathUnescape (c # s) =
     (if c = CHR ''%'' then
        (case s of
           a # b # s' \<Rightarrow>
             (case (unhex a, unhex b) of
                (Some x, Some y) \<Rightarrow> map_option ((#) (char_of (16 * x + y))) (PathUnescape s')
              | _ \<Rightarrow> None)
         | _ \<Rightarrow> None)
      else map_option ((#) c) (PathUnescape s))"

definition mux_segments :: "string \<Rightarrow> string list" where
  "mux_segments path =
     map (\<lambda>seg. case PathUnescape seg of None \<Rightarrow> seg | Some s \<Rightarrow> s) (SplitByte (drop 1 path) CHR ''/'')"

datatype endpoint = EpMetrics | EpHealth | EpStats | EpWhitelist | EpBlacklist | EpLogin | EpMonitor | EpGateway

text \<open>
  The patterns registered with the multiplexer: none of the fixed ones ends in a slash, so
  each matches its own segments only, and everything else goes to the gateway.
\<close>

definition mux_match :: "string list \<Rightarrow> endpoint" where
  "mux_match segs =
     (if segs = [''metrics''] then EpMetrics
      else if segs = [''health''] then EpHealth
      else if segs = [''stats''] then EpStats
      else if segs = [''admin'', ''whitelist''] then EpWhitelist
      else if segs = [''admin'', ''blacklist''] then EpBlacklist
      else if segs = [''login''] then EpLogin
      else if segs = [''monitor''] \<or> segs = [''api'', ''system-metrics''] then EpMonitor
      else EpGateway)"

section \<open>Serving a request\<close>

record ('r, 'l) Server =
  sv_gateway :: "('r, 'l) Gateway"
  sv_gauges :: Gauges

text \<open>
  What the handlers need from outside: the environment of the gateway and of the monitor,
  the encoders, Prometheus' handler, \<open>http.RedirectHandler\<close> and \<open>URL.EscapedPath\<close>.
\<close>

record ('r, 'l, 'f) ServeEnv =
  se_env :: "('r, 'l, 'f) Env"
  se_encode :: "json \<Rightarrow> string"
  se_urls :: url_lib
  se_timestamp :: string
  se_page :: string
  se_Slice :: slice_sort
  se_probe :: Probe
  se_now :: instant
  se_metrics :: "ResponseWriter \<Rightarrow> Request \<Rightarrow> ResponseWriter"
  se_redirect :: "string \<Rightarrow> ResponseWriter \<Rightarrow> Request \<Rightarrow> ResponseWriter"
  se_escaped :: "Request \<Rightarrow> string"

text \<open>A handler of the gateway as a handler of the server; a panic ends the request.\<close>

type_synonym ('r, 'l) serving = "go_panic + ('r, 'l) Server"

definition on_gateway :: "('r, 'l) Gateway handler \<Rightarrow> ('r, 'l) Server \<Rightarrow> ResponseWriter \<Rightarrow> Request \<Rightarrow> ('r, 'l) serving \<times> ResponseWriter" where
  "on_gateway h sv w r = (case h (sv_gateway sv) w r of (gw, w') \<Rightarrow> (Inr (sv\<lparr>sv_gateway := gw\<rparr>), w'))"

definition serve_endpoint ::
  "('r, 'l, 'f) ServeEnv \<Rightarrow> endpoint \<Rightarrow> ('r, 'l) Server \<Rightarrow> ResponseWriter \<Rightarrow> Request \<Rightarrow> ('r, 'l) serving \<times> ResponseWriter" where
  "serve_endpoint se ep sv w r =
     (case ep of
        EpMetrics \<Rightarrow> (Inr sv, se_metrics se w r)
      | EpHealth \<Rightarrow> on_gateway (healthHandler (se_encode se) (se_urls se) (se_timestamp se)) sv w r
      | EpStats \<Rightarrow> on_gateway (statsHandler (se_encode se)) sv w r
      | EpWhitelist \<Rightarrow> on_gateway (whitelistHandler (se_encode se)) sv w r
      | EpBlacklist \<Rightarrow> on_gateway (blacklistHandler (se_encode se)) sv w r
      | EpLogin \<Rightarrow> on_gateway loginHandler sv w r
      | EpMonitor \<Rightarrow>
          (case systemMonitorHandler (se_encode se) (se_page se) (se_Slice se) (se_probe se) (se_now se)
                  (sv_gauges sv) w r of
             Inl p \<Rightarrow> (Inl p, w)
           | Inr (g, w') \<Rightarrow> (Inr (sv\<lparr>sv_gauges := g\<rparr>), w'))
      | EpGateway \<Rightarrow>
          (case ServeHTTP (se_env se) (sv_gateway sv) w r of
             Inl p \<Rightarrow> (Inl p, w)
           | Inr (gw, w', e) \<Rightarrow> (Inr (sv\<lparr>sv_gateway := gw\<rparr>), w')))"

definition mux_ServeHTTP :: "('r, 'l, 'f) ServeEnv \<Rightarrow> ('r, 'l) serving handler" where
  "mux_ServeHTTP se s w r =
     (case s of
        Inl p \<Rightarrow> (Inl p, w)
      | Inr sv \<Rightarrow>
          (let escaped = se_escaped se r;
               path = (if req_Method r = ''CONNECT'' then escaped else cleanPath escaped)
           in if path \<noteq> escaped then (Inr sv, se_redirect se path w r)
              else serve_endpoint se (mux_match (mux_segments path)) sv w r))"

text \<open>The handler of the server: security headers, then the request id, then the multiplexer.\<close>

definition root_handler :: "8 word list option \<Rightarrow> int \<Rightarrow> ('r, 'l, 'f) ServeEnv \<Rightarrow> ('r, 'l) serving handler" where
  "root_handler rand nowUnixNano se =
     SecurityHeadersMiddleware (RequestIDMiddleware rand nowUnixNano (mux_ServeHTTP se))"

section \<open>The health-check scheduler\<close>

text \<open>
  \<open>time.NewTicker\<close> panics on an interval that is not positive; otherwise every tick runs a
  health round. \<open>nets\<close> are the networks the rounds meet.
\<close>

definition health_scheduler ::
  "url_lib \<Rightarrow> NetEnv list \<Rightarrow> ('r, 'l) Gateway \<Rightarrow> go_panic + ('r, 'l) Gateway" where
  "health_scheduler urls nets gw =
     (if go_le (cf_HealthCheckInterval (gw_cfg gw)) 0 then Inl NonPositiveTicker
      else Inr (foldl (\<lambda>g net. fst (health_tick urls net g)) gw nets))"

section \<open>The end of the process\<close>

datatype main_pc = AwaitSignal | InShutdown
datatype listen_pc = Serving | Closed | DashboardStopped

text \<open>
  The threads that end the process: \<open>main\<close> and the goroutine that serves. \<open>ps_hidden\<close> says
  that the terminal cursor is hidden, \<open>ps_closed\<close> that the gateway was closed, \<open>ps_exit\<close> is
  the exit status; a process that has exited takes no step.
\<close>

record process_state =
  ps_main :: main_pc
  ps_listen :: listen_pc
  ps_hidden :: bool
  ps_closed :: bool
  ps_exit :: "int option"

definition started :: "bool \<Rightarrow> process_state" where
  "started terminal = \<lparr>ps_main = AwaitSignal, ps_listen = Serving, ps_hidden = terminal, ps_closed = False, ps_exit = None\<rparr>"

inductive process_step :: "process_state \<Rightarrow> process_state \<Rightarrow> bool" where
  signal: "ps_exit s = None \<Longrightarrow> ps_main s = AwaitSignal \<Longrightarrow> process_step s (s\<lparr>ps_main := InShutdown\<rparr>)"
| listen_error: "ps_exit s = None \<Longrightarrow> ps_listen s = Serving \<Longrightarrow> process_step s (s\<lparr>ps_exit := Some 1\<rparr>)"
| listen_closed: "ps_exit s = None \<Longrightarrow> ps_main s = InShutdown \<Longrightarrow> ps_listen s = Serving \<Longrightarrow>
    process_step s (s\<lparr>ps_listen := Closed\<rparr>)"
| dash_stop: "ps_exit s = None \<Longrightarrow> ps_listen s = Closed \<Longrightarrow>
    process_step s (s\<lparr>ps_listen := DashboardStopped, ps_hidden := False\<rparr>)"
| shutdown_done: "ps_exit s = None \<Longrightarrow> ps_main s = InShutdown \<Longrightarrow>
    process_step s (s\<lparr>ps_closed := True, ps_exit := Some 0\<rparr>)"
| shutdown_failed: "ps_exit s = None \<Longrightarrow> ps_main s = InShutdown \<Longrightarrow> process_step s (s\<lparr>ps_exit := Some 1\<rparr>)"

inductive_cases process_stepE: "process_step s t"

inductive reachable :: "bool \<Rightarrow> process_state \<Rightarrow> bool" for terminal where
  start: "reachable terminal (started terminal)"
| step: "reachable terminal s \<Longrightarrow> process_step s t \<Longrightarrow> reachable terminal t"

section \<open>Clean paths\<close>

definition clean_seg :: "string \<Rightarrow> bool" where
  "clean_seg s \<longleftrightarrow> s \<noteq> [] \<and> s \<noteq> ''.'' \<and> s \<noteq> ''..'' \<and> CHR ''/'' \<notin> set s"

lemma SplitByte_single: "c \<notin> set u \<Longrightarrow> SplitByte u c = [u]"
  by (induction u) auto

lemma SplitByte_at: "c \<notin> set u \<Longrightarrow> SplitByte (u @ c # v) c = u # SplitByte v c"
  by (induction u) auto

lemma SplitByte_parts: "s \<in> set (SplitByte p c) \<Longrightarrow> c \<notin> set s"
  by (induction p c arbitrary: s rule: SplitByte.induct) (auto split: if_splits list.splits)

lemma SplitByte_Join: "segs \<noteq> [] \<Longrightarrow> \<forall>s \<in> set segs. c \<notin> set s \<Longrightarrow> SplitByte (Join segs [c]) c = segs"
  by (induction segs "[c]" rule: Join.induct) (auto simp: SplitByte_single SplitByte_at)

lemma SplitByte_trailing: "SplitByte (u @ [c]) c = SplitByte u c @ [[]]"
  by (induction u c rule: SplitByte.induct) (auto split: list.split)

lemma clean_segs_clean:
  "list_all clean_seg acc \<Longrightarrow> \<forall>s \<in> set ss. CHR ''/'' \<notin> set s \<Longrightarrow> list_all clean_seg (clean_segs acc ss)"
proof (induction acc ss rule: clean_segs.induct)
  case (2 acc s ss)
  then have "list_all clean_seg (tl acc)" by (cases acc) simp_all
  with 2 show ?case by (simp add: clean_seg_def [of s])
qed simp

lemma clean_segs_id: "list_all clean_seg ss \<Longrightarrow> clean_segs acc ss = rev acc @ ss"
  by (induction acc ss rule: clean_segs.induct) (auto simp: clean_seg_def)

lemma clean_segs_append_Nil: "clean_segs acc (ss @ [[]]) = clean_segs acc ss"
  by (induction acc ss rule: clean_segs.induct) auto

lemma clean_seg_last: "clean_seg s \<Longrightarrow> s \<noteq> [] \<and> last s \<noteq> CHR ''/''"
  unfolding clean_seg_def by (metis last_in_set)

lemma Join_clean: "list_all clean_seg segs \<Longrightarrow> segs \<noteq> [] \<Longrightarrow> Join segs ''/'' \<noteq> [] \<and> last (Join segs ''/'') \<noteq> CHR ''/''"
  by (induction segs "''/''" rule: Join.induct) (auto simp: last_append dest: clean_seg_last)

text \<open>The result of cleaning is \<open>/\<close>, or clean segments with an optional slash at the end.\<close>

definition clean_form :: "string \<Rightarrow> bool" where
  "clean_form p \<longleftrightarrow> (\<exists>segs. list_all clean_seg segs \<and>
     (p = ''/'' @ Join segs ''/'' \<or> segs \<noteq> [] \<and> p = ''/'' @ Join segs ''/'' @ ''/''))"

lemma cleanPath_form: "clean_form (cleanPath p)"
proof -
  have "list_all clean_seg (clean_segs [] (SplitByte q CHR ''/''))" for q
    using SplitByte_parts by (intro clean_segs_clean) auto
  then show ?thesis
    unfolding clean_form_def cleanPath_def Let_def path_Clean_def
    by (cases "p = []"; simp only: if_True if_False append_assoc; fastforce intro: exI [of _ "[]"])
qed

lemma cleanPath_fixed: "clean_form p \<Longrightarrow> cleanPath p = p"
proof -
  assume "clean_form p"
  then obtain segs where c: "list_all clean_seg segs"
    and p: "p = ''/'' @ Join segs ''/'' \<or> segs \<noteq> [] \<and> p = ''/'' @ Join segs ''/'' @ ''/''"
    by (auto simp: clean_form_def)
  have no: "\<forall>s \<in> set segs. CHR ''/'' \<notin> set s" using c by (auto simp: clean_seg_def list_all_iff)
  show ?thesis
  proof (cases "segs = []")
    case True
    with p show ?thesis by (simp add: cleanPath_def path_Clean_def)
  next
    case False
    note j = Join_clean [OF c False]
    have sp: "SplitByte (''/'' @ Join segs ''/'') CHR ''/'' = [] # segs" using SplitByte_Join [OF False no] by simp
    then have "clean_segs [] (SplitByte (''/'' @ Join segs ''/'') CHR ''/'') = segs"
      using clean_segs_id [OF c, of "[]"] by simp
    moreover have "clean_segs [] (SplitByte (''/'' @ Join segs ''/'' @ ''/'') CHR ''/'') = segs"
      using SplitByte_trailing [of "''/'' @ Join segs ''/''" "CHR ''/''"] sp clean_segs_append_Nil [of "[]" "[] # segs"]
        clean_segs_id [OF c, of "[]"] by simp
    ultimately show ?thesis using p j by (auto simp: cleanPath_def path_Clean_def Let_def)
  qed
qed

lemma cleanPath_id_iff: "cleanPath p = p \<longleftrightarrow> clean_form p"
  using cleanPath_form [of p] cleanPath_fixed [of p] by auto

text \<open>
  The multiplexer redirects at most once. A request is handed to its endpoint as it is
  if its escaped path consists of non-empty segments other than \<open>.\<close> and \<open>..\<close> (or its method
  is \<open>CONNECT\<close>) and redirected to the cleaned path otherwise; a cleaned path is of that
  form, so the request that follows a redirect is served.
\<close>

theorem redirect_at_most_once:
  "mux_ServeHTTP se (Inr sv) w r =
     (if req_Method r = ''CONNECT'' \<or> clean_form (se_escaped se r)
      then serve_endpoint se (mux_match (mux_segments (se_escaped se r))) sv w r
      else (Inr sv, se_redirect se (cleanPath (se_escaped se r)) w r)) \<and>
   clean_form (cleanPath (se_escaped se r)) \<and> cleanPath (cleanPath (se_escaped se r)) = cleanPath (se_escaped se r)"
  using cleanPath_form [of "se_escaped se r"] cleanPath_fixed [of "cleanPath (se_escaped se r)"]
  by (auto simp: mux_ServeHTTP_def Let_def cleanPath_id_iff)

section \<open>Requests through the chain\<close>

text \<open>
  A path with an encoded dot segment behind a clean one: it is clean as it is written, has at
  least three segments, and its decoded form cleans to the rest of the path.
\<close>

lemma dotted_path:
  assumes "clean_seg p" "segs \<noteq> []" "list_all clean_seg segs"
  shows "cleanPath (''/'' @ p @ ''/%2e%2e/'' @ Join segs ''/'') = ''/'' @ p @ ''/%2e%2e/'' @ Join segs ''/''"
    "length (mux_segments (''/'' @ p @ ''/%2e%2e/'' @ Join segs ''/'')) = 2 + length segs"
    "cleanPath (''/'' @ p @ ''/../'' @ Join segs ''/'') = ''/'' @ Join segs ''/''"
proof -
  have j: "Join (p # x # segs) ''/'' = p @ ''/'' @ x @ ''/'' @ Join segs ''/''" for x
    using assms(2) by (cases segs) simp_all
  have no: "\<forall>s \<in> set (p # x # segs). CHR ''/'' \<notin> set s" if "CHR ''/'' \<notin> set x" for x
    using assms(1,3) that by (auto simp: clean_seg_def list_all_iff)
  have "clean_form (''/'' @ p @ ''/%2e%2e/'' @ Join segs ''/'')"
    unfolding clean_form_def using assms j [of "''%2e%2e''"]
    by (intro exI [of _ "p # ''%2e%2e'' # segs"]) (simp add: clean_seg_def)
  then show "cleanPath (''/'' @ p @ ''/%2e%2e/'' @ Join segs ''/'') = ''/'' @ p @ ''/%2e%2e/'' @ Join segs ''/''"
    by (rule cleanPath_fixed)
  have split: "SplitByte (p @ ''/'' @ x @ ''/'' @ Join segs ''/'') CHR ''/'' = p # x # segs" if "CHR ''/'' \<notin> set x" for x
    using SplitByte_Join [OF _ no [OF that]] by (simp only: j list.distinct simp_thms)
  show "length (mux_segments (''/'' @ p @ ''/%2e%2e/'' @ Join segs ''/'')) = 2 + length segs"
    using split [of "''%2e%2e''"] by (simp add: mux_segments_def)
  have "clean_segs [] (SplitByte (''/'' @ p @ ''/../'' @ Join segs ''/'') CHR ''/'') = segs"
    using split [of "''..''"] clean_segs_id [OF assms(3), of "[]"] assms(1) by (simp add: clean_seg_def)
  with Join_clean [OF assms(3,2)]
  show "cleanPath (''/'' @ p @ ''/../'' @ Join segs ''/'') = ''/'' @ Join segs ''/''"
    by (simp add: cleanPath_def path_Clean_def Let_def)
qed

text \<open>All six headers of the security middleware, and a request id.\<close>

definition secured :: "ResponseWriter \<Rightarrow> bool" where
  "secured w \<longleftrightarrow> map (Header_Get (w_header w)) [''X-Content-Type-Options'', ''X-Frame-Options'', ''Strict-Transport-Security'',
       ''Content-Security-Policy'', ''X-XSS-Protection'', ''Referrer-Policy''] =
     [''nosniff'', ''DENY'', ''max-age=63072000; includeSubDomains'', ''default-src '' @ [CHR 0x27] @ ''self'' @ [CHR 0x27],
      ''1; mode=block'', ''strict-origin-when-cross-origin''] \<and>
     Header_Get (w_header w) ''x-request-id'' \<noteq> []"

text \<open>A writer on which nothing was sent and whose handler has declared no length.\<close>

definition unsized :: "ResponseWriter \<Rightarrow> bool" where
  "unsized w \<longleftrightarrow> fresh w \<and> Header_Get (w_header w) ''Content-Length'' = []"

lemma root_handler_chain:
  assumes "rand \<noteq> Some []"
  shows "\<exists>w' r'. root_handler rand now se s w r = mux_ServeHTTP se s w' r' \<and> secured w' \<and>
    (unsized w \<longrightarrow> unsized w') \<and> (\<exists>h. r' = r\<lparr>req_Header := h\<rparr>)"
proof -
  let ?given = "Header_Get (req_Header r) ''x-request-id''"
  let ?id = "if ?given = [] then generateRequestID rand now else ?given"
  let ?w = "set_header ''x-request-id'' ?id (secure_headers w)"
  let ?r = "if ?given = [] then r\<lparr>req_Header := Header_Set (req_Header r) ''x-request-id'' ?id\<rparr> else r"
  have "root_handler rand now se s w r = mux_ServeHTTP se s ?w ?r"
    by (simp add: root_handler_def SecurityHeadersMiddleware_def RequestIDMiddleware_def Let_def)
  moreover have "?id \<noteq> []" using generateRequestID_nonempty [OF assms] by simp
  then have "secured ?w" by (simp add: secured_def secure_headers_def Let_def)
  moreover have "unsized ?w" if "unsized w"
    using that by (simp add: unsized_def fresh_def set_header_def secure_headers_def Let_def)
  moreover have "\<exists>h. ?r = r\<lparr>req_Header := h\<rparr>" by (cases "?given = []") (auto intro: exI [of _ "req_Header r"])
  ultimately show ?thesis by blast
qed

lemma authenticate_path [simp]: "authenticate env cfg (r\<lparr>req_Path := p\<rparr>) = authenticate env cfg r"
  by (simp add: authenticate_def Let_def)

lemma encodable_slice: "encodable (json_slice xs) \<longleftrightarrow> list_all encodable xs"
  by (simp add: json_slice_def)

lemma encodable_backend [simp]: "encodable (backend_json urls b)"
  by (simp add: backend_json_def)

lemma encodable_health: "encodable (health_json urls ts gw)"
  by (simp add: health_json_def route_json_def Let_def encodable_slice list_all_iff)

lemma write_json_fresh:
  assumes "unsized w" "encodable doc" "secured w"
  shows "client_status (write_json encode doc w) = 200" "w_body (write_json encode doc w) = encode doc @ [CHR 0x0A]"
    "secured (write_json encode doc w)"
proof -
  let ?w = "set_header ''Content-Type'' ''application/json'' w"
  have h: "w_header (w_WriteHeader ?w 200) = w_header ?w" "w_status (w_WriteHeader ?w 200) = Some 200"
    "w_contentLength (w_WriteHeader ?w 200) = None" "\<not> w_hijacked (w_WriteHeader ?w 200)" "w_body (w_WriteHeader ?w 200) = []"
    using assms(1) by (simp_all add: unsized_def fresh_def set_header_def w_WriteHeader_def declare_length_none)
  then have e: "write_json encode doc w = fst (w_Write (w_WriteHeader ?w 200) (encode doc @ [CHR 0x0A]))"
    using assms(2) by (simp add: write_json_def json_Encode_def)
  show "client_status (write_json encode doc w) = 200" "w_body (write_json encode doc w) = encode doc @ [CHR 0x0A]"
    using h by (simp_all add: e client_status_def w_Write_def Let_def bodyAllowed_def)
  show "secured (write_json encode doc w)"
    using assms(3) h(1) by (simp add: e secured_def w_Write_header)
qed

text \<open>
  C31: health checks are never throttled and change nothing, but they wait for the breaker. In
  every reachable state of the breaker and its callers, a request for \<open>/health\<close> waits exactly
  while a call holds the breaker's mutex, that is, while another request is being proxied.
  Once it has read the state, which is then the one after a whole number of calls, it
  is answered through the whole chain with 200, the health document and all the security
  headers, and leaves the server as it was: no counter moves and no limit applies, even if
  its client is blacklisted or has used up every limit.
\<close>

theorem health_endpoint_unthrottled:
  assumes "bs_reachable cb bs" "gw_circuitBreaker (sv_gateway sv) = bs_cb bs"
    and "rand \<noteq> Some []" "fresh w" "Header_Get (w_header w) ''Content-Length'' = []" "se_escaped se r = ''/health''"
    and "\<forall>r' h. se_escaped se (r'\<lparr>req_Header := h\<rparr>) = se_escaped se r'"
  shows "case GetState_step bs of
      None \<Rightarrow> \<exists>i. holds_lock (bs_phase bs i)
    | Some state \<Rightarrow>
        state = GetState (foldl call_step cb (bs_log bs)) \<and> (\<forall>i. \<not> holds_lock (bs_phase bs i)) \<and>
        (let (s', w') = root_handler rand now se (Inr sv) w r in
          s' = Inr sv \<and> client_status w' = 200 \<and> secured w' \<and>
          w_body w' = se_encode se (health_json (se_urls se) (se_timestamp se) (sv_gateway sv)) @ [CHR 0x0A])"
proof -
  have u: "unsized w" using assms(4,5) by (simp add: unsized_def)
  obtain w1 r1 h where c: "root_handler rand now se (Inr sv) w r = mux_ServeHTTP se (Inr sv) w1 r1" "secured w1"
    "unsized w1" "r1 = r\<lparr>req_Header := h\<rparr>"
    using root_handler_chain [OF assms(3)] u by blast
  have e: "se_escaped se r1 = ''/health''" using c(4) assms(6,7) by simp
  have m: "mux_match (mux_segments ''/health'') = EpHealth" "cleanPath ''/health'' = ''/health''" by code_simp+
  have "mux_ServeHTTP se (Inr sv) w1 r1 =
    (Inr sv, write_json (se_encode se) (health_json (se_urls se) (se_timestamp se) (sv_gateway sv)) w1)"
    by (simp add: mux_ServeHTTP_def e m Let_def serve_endpoint_def on_gateway_def healthHandler_def)
  with c write_json_fresh [OF c(3) encodable_health [of "se_urls se" "se_timestamp se" "sv_gateway sv"] c(2)]
  have "let (s', w') = root_handler rand now se (Inr sv) w r in
      s' = Inr sv \<and> client_status w' = 200 \<and> secured w' \<and>
      w_body w' = se_encode se (health_json (se_urls se) (se_timestamp se) (sv_gateway sv)) @ [CHR 0x0A]"
    by simp
  with GetState_waits [OF assms(1)] GetState_linear [OF assms(1)] show ?thesis by (auto split: option.split)
qed

text \<open>
  C37: encoded dots slip past the login. The multiplexer cleans the escaped path, so a
  \<open>..\<close> written as \<open>%2e%2e\<close> behind a one-segment public prefix is not redirected: the request
  reaches the gateway with its decoded path. If the route that this path selects requires
  authentication, the request is still throttled at most and never asked for credentials,
  though the path, once its dots are resolved, is that of the target; a request for the
  target itself, on a route that requires authentication, is refused without credentials.
\<close>

theorem encoded_dots_skip_login:
  assumes "p \<in> {''health'', ''metrics'', ''login'', ''register''}"
    and "segs \<noteq> []" "list_all clean_seg segs" "list_all (\<lambda>s. CHR ''%'' \<notin> set s) segs"
    and "se_escaped se r = ''/'' @ p @ ''/%2e%2e/'' @ Join segs ''/''" "req_Path r = ''/'' @ p @ ''/../'' @ Join segs ''/''"
    and "req_Method r \<noteq> ''CONNECT''"
    and "Route (gw_router (sv_gateway sv)) (req_Host r) (req_Path r) = Some m" "mr_RequireAuth m"
    and "Route (gw_router (sv_gateway sv)) (req_Host r) (''/'' @ Join segs ''/'') = Some m0" "mr_RequireAuth m0"
    and "\<not> isPublicEndpoint (''/'' @ Join segs ''/'')"
    and "\<not> fst (authenticate (se_env se) (gw_cfg (sv_gateway sv)) r)"
  shows "mux_ServeHTTP se (Inr sv) w r =
      (case ServeHTTP (se_env se) (sv_gateway sv) w r of
         Inl p \<Rightarrow> (Inl p, w) | Inr (gw, w', e) \<Rightarrow> (Inr (sv\<lparr>sv_gateway := gw\<rparr>), w')) \<and>
    (\<exists>gw1 msg. ServeHTTP (se_env se) (sv_gateway sv) w r \<in>
      {serve_cached (se_env se) gw1 w r (getClientIP r) m, reject (se_env se) gw1 w r msg 429}) \<and>
    cleanPath (req_Path r) = ''/'' @ Join segs ''/'' \<and>
    (let r0 = r\<lparr>req_Path := ''/'' @ Join segs ''/''\<rparr> in
      \<exists>gw1 msg code. ServeHTTP (se_env se) (sv_gateway sv) w r0 = reject (se_env se) gw1 w r0 msg code \<and> code \<in> {401, 429})"
proof -
  let ?t = "Join segs ''/''" and ?env = "se_env se" and ?gw = "sv_gateway sv"
  have p: "clean_seg p" "isPublicEndpoint (''/'' @ p @ s)" for s
    using assms(1) by (auto simp: clean_seg_def isPublicEndpoint_def HasPrefix_def)
  obtain s ss where ss: "segs = s # ss" using assms(2) by (cases segs) auto
  note parts = dotted_path [OF p(1) assms(2,3)]
  have "mux_match (mux_segments (''/'' @ p @ ''/%2e%2e/'' @ ?t)) = EpGateway"
    using parts(2) ss by (auto simp: mux_match_def)
  then have 1: "mux_ServeHTTP se (Inr sv) w r = serve_endpoint se EpGateway sv w r"
    using parts(1) assms(5,7) by (simp add: mux_ServeHTTP_def Let_def)
  have 2: "\<exists>gw1 msg. ServeHTTP ?env ?gw w r \<in>
      {serve_cached ?env gw1 w r (getClientIP r) m, reject ?env gw1 w r msg 429}"
  proof (cases rule: ServeHTTP_cases [of ?env ?gw w r])
    case (matched gw1 m')
    with assms(8) p(2) [of "''/../'' @ ?t"] show ?thesis by (auto simp: authorize_def assms(6))
  qed (use assms(8) in auto)
  let ?r0 = "r\<lparr>req_Path := ''/'' @ ?t\<rparr>"
  have "\<exists>gw1 msg code. ServeHTTP ?env ?gw w ?r0 = reject ?env gw1 w ?r0 msg code \<and> code \<in> {401, 429}"
  proof (cases rule: ServeHTTP_cases [of ?env ?gw w ?r0])
    case (matched gw1 m')
    then have "m' = m0" "gw_cfg gw1 = gw_cfg ?gw" using assms(10) by (simp_all add: same_core_def)
    with matched(1) assms(11-13) show ?thesis by (auto simp: authorize_def)
  qed (use assms(10) in auto)
  with 1 2 parts(3) show ?thesis by (simp add: serve_endpoint_def assms(6) Let_def)
qed

definition example_server_env :: "(unit, int \<times> int \<times> instant, int) ServeEnv" where
  "example_server_env =
     \<lparr>se_env = example_env 0, se_encode = (\<lambda>_. ''{}''), se_urls = example_urls, se_timestamp = ''t'', se_page = ''<html>'',
      se_Slice = SliceStable, se_probe = example_probe [], se_now = 0, se_metrics = (\<lambda>w r. w),
      se_redirect = (\<lambda>p w r. w_WriteHeader (set_header ''Location'' p w) 301), se_escaped = req_RawPath\<rparr>"

definition example_server :: "(unit, int \<times> int \<times> instant) Server" where
  "example_server = \<lparr>sv_gateway = example_gateway True ''least-conn'',
     sv_gauges = \<lparr>ga_cpu = Map.empty, ga_memory = Fin 0, ga_swap = Fin 0, ga_processes = Fin 0\<rparr>\<rparr>"

theorem health_endpoint_unthrottled_witness:
  "fst (root_handler None 7 example_server_env (Inr example_server) (fresh_writer True True)
     ((example_request ''GET'' ''ex.com'' ''/health'')\<lparr>req_RawPath := ''/health''\<rparr>)) = Inr example_server"
proof -
  let ?cb = "gw_circuitBreaker (sv_gateway example_server)"
  have "fresh (fresh_writer True True)" "Header_Get (w_header (fresh_writer True True)) ''Content-Length'' = []"
    by (simp_all add: fresh_def fresh_writer_def Header_Get_def)
  moreover have "bs_reachable ?cb (bs_init ?cb :: string breaker_sys)" by (rule bs_reachable.start)
  ultimately show ?thesis
    using health_endpoint_unthrottled [of ?cb "bs_init ?cb :: string breaker_sys" example_server None "fresh_writer True True"
        example_server_env "(example_request ''GET'' ''ex.com'' ''/health'')\<lparr>req_RawPath := ''/health''\<rparr>" 7]
    by (simp add: example_server_env_def GetState_step_def bs_init_def Let_def split: prod.splits)
qed

text \<open>A server whose only route is a catch-all that requires authentication.\<close>

definition catch_all_server :: "(unit, int \<times> int \<times> instant) Server" where
  "catch_all_server = example_server\<lparr>sv_gateway := NewGateway example_urls (\<lambda>_. ()) True
     (example_config\<lparr>cf_ServiceRoutes := [(example_route [] ''/'' ''a:1'')\<lparr>ro_RequireAuth := True\<rparr>]\<rparr>)\<rparr>"

theorem encoded_dots_skip_login_witness:
  "let r = (example_request ''GET'' ''ex.com'' ''/health/../users'')\<lparr>req_RawPath := ''/health/%2e%2e/users''\<rparr>;
       r0 = r\<lparr>req_Path := ''/users''\<rparr>; w = fresh_writer True True; gw = sv_gateway catch_all_server in
   cleanPath (req_Path r) = ''/users'' \<and>
   (\<exists>gw1 msg code. ServeHTTP (example_env 0) gw w r0 = reject (example_env 0) gw1 w r0 msg code \<and> code \<in> {401, 429})"
proof -
  let ?r = "(example_request ''GET'' ''ex.com'' ''/health/../users'')\<lparr>req_RawPath := ''/health/%2e%2e/users''\<rparr>"
  let ?gw = "sv_gateway catch_all_server"
  have route: "Route (gw_router ?gw) (req_Host ?r) (req_Path ?r) =
      Some \<lparr>mr_Name = [], mr_Pool = 0, mr_BackendPath = ''/health/../users'', mr_RequireAuth = True, mr_Timeout = hour\<rparr>"
    "Route (gw_router ?gw) (req_Host ?r) ''/users'' =
      Some \<lparr>mr_Name = [], mr_Pool = 0, mr_BackendPath = ''/users'', mr_RequireAuth = True, mr_Timeout = hour\<rparr>"
    by code_simp+
  have "\<not> isPublicEndpoint ''/users''" "\<not> fst (authenticate (example_env 0) (gw_cfg ?gw) ?r)" by code_simp+
  with route show ?thesis
    using encoded_dots_skip_login [of "''health''" "[''users'']" example_server_env ?r catch_all_server _ _ "fresh_writer True True"]
    by (simp add: clean_seg_def example_server_env_def example_request_def Let_def)
qed

section \<open>Scheduler\<close>

text \<open>
  A health-check interval that is not positive is accepted by the configuration and crashes
  the process: the scheduler panics exactly when \<open>HEALTH_CHECK_INTERVAL\<close> is set to a text
  that parses to zero or less.
\<close>

theorem scheduler_interval_unchecked:
  "health_scheduler urls nets (NewGateway lib rateLimit ping (LoadConfig dec env)) = Inl NonPositiveTicker \<longleftrightarrow>
     (let v = Getenv env ''HEALTH_CHECK_INTERVAL''
      in v \<noteq> [] \<and> (case dec_Duration dec v of None \<Rightarrow> False | Some d \<Rightarrow> sint d \<le> 0))"
  by (auto simp: health_scheduler_def NewGateway_def LoadConfig_def envOrDuration_def Let_def second_def
      split: option.splits)

section \<open>The end of the process\<close>

text \<open>What holds in every reachable state, by rule induction.\<close>

definition process_ok :: "bool \<Rightarrow> process_state \<Rightarrow> bool" where
  "process_ok terminal s \<longleftrightarrow>
     (ps_hidden s \<longleftrightarrow> terminal \<and> ps_listen s \<noteq> DashboardStopped) \<and>
     (ps_closed s \<longleftrightarrow> ps_exit s = Some 0) \<and> (ps_listen s = Serving \<or> ps_main s = InShutdown)"

lemma process_ok_step: "process_step s t \<Longrightarrow> process_ok terminal s \<Longrightarrow> process_ok terminal t"
  by (induction rule: process_step.induct) (auto simp: process_ok_def)

lemma process_ok_reachable: "reachable terminal s \<Longrightarrow> process_ok terminal s"
proof (induction rule: reachable.induct)
  case start
  then show ?case by (simp add: process_ok_def started_def)
qed (rule process_ok_step)

text \<open>
  The terminal may be left without a cursor. Nothing makes \<open>main\<close> wait for the goroutine
  that restores the cursor: on a terminal an orderly shutdown can end the process with
  status 0 while the cursor is hidden. In every state the cursor is hidden unless that
  goroutine has come to the end, which it cannot when listening fails, and the gateway is
  closed exactly when the exit status is 0.
\<close>

theorem shutdown_leaves_cursor_hidden:
  assumes "reachable True s"
  shows "(\<exists>t. reachable True t \<and> ps_exit t = Some 0 \<and> ps_hidden t) \<and>
    (ps_closed s \<longleftrightarrow> ps_exit s = Some 0) \<and> (ps_hidden s \<longleftrightarrow> ps_listen s \<noteq> DashboardStopped) \<and>
    (ps_main s = InShutdown \<or> ps_hidden s)"
proof -
  let ?s1 = "(started True)\<lparr>ps_main := InShutdown\<rparr>"
  have "reachable True ?s1"
    by (rule reachable.step [OF reachable.start], rule process_step.signal) (simp_all add: started_def)
  then have "reachable True (?s1\<lparr>ps_closed := True, ps_exit := Some 0\<rparr>)"
    by (rule reachable.step) (rule process_step.shutdown_done; simp add: started_def)
  moreover have "ps_hidden (?s1\<lparr>ps_closed := True, ps_exit := Some 0\<rparr>)" by (simp add: started_def)
  ultimately have "\<exists>t. reachable True t \<and> ps_exit t = Some 0 \<and> ps_hidden t" by (metis process_state.select_convs(5)
    process_state.surjective process_state.update_convs(5))
  then show ?thesis using process_ok_reachable [OF assms] by (auto simp: process_ok_def)
qed

theorem shutdown_leaves_cursor_hidden_witness:
  "\<exists>t. reachable True t \<and> ps_exit t = Some 0 \<and> ps_hidden t"
  using shutdown_leaves_cursor_hidden [OF reachable.start] by simp

end
