(* ===== verification/Startup.thy ===== *)
theory Startup
  imports Server Collectors
begin

text \<open>
  The start of the process, up to the point where requests are served: the \<open>init\<close>
  functions in the order in which the language runs them, loading of the \<open>.env\<close> file, the
  tracer (\<open>initTracer\<close> of \<open>handlers.go\<close>), and \<open>main\<close> from the configuration to the
  HTTP server. The packages godotenv, Jaeger and Prometheus are parameters.
\<close>

section \<open>Tracing\<close>

text \<open>What \<open>initTracer\<close> asks of the Jaeger client.\<close>

record JaegerConfiguration =
  jc_ServiceName :: string
  jc_SamplerType :: string
  jc_SamplerParam :: float64
  jc_LogSpans :: bool
  jc_LocalAgentHostPort :: string

type_synonym ('t, 'c) jaeger = "JaegerConfiguration \<Rightarrow> string + 't \<times> 'c"

definition tracer_config :: "string \<Rightarrow> JaegerConfiguration" where
  "tracer_config serviceName =
     \<lparr>jc_ServiceName = serviceName, jc_SamplerType = ''const'', jc_SamplerParam = Fin 1, jc_LogSpans = True,
      jc_LocalAgentHostPort = ''localhost:6831''\<rparr>"

text \<open>
  The tracer, its closer and the error, and the global tracer of OpenTracing after the call
  (\<open>global\<close> is the one before).
\<close>

definition initTracer ::
  "('t, 'c) jaeger \<Rightarrow> string \<Rightarrow> 't option \<Rightarrow> ('t option \<times> 'c option \<times> string option) \<times> 't option" where
  "initTracer NewTracer serviceName global =
     (case NewTracer (tracer_config serviceName) of
        Inl err \<Rightarrow> ((None, None, Some err), global)
      | Inr (tracer, closer) \<Rightarrow> ((Some tracer, Some closer, None), Some tracer))"

text \<open>The first lines of \<open>NewGateway\<close>: the fields \<open>tracer\<close> and \<open>tracerCloser\<close> and what is logged.\<close>

definition gateway_tracer ::
  "('t, 'c) jaeger \<Rightarrow> Logger \<Rightarrow> string \<Rightarrow> 't option \<Rightarrow> 't option \<times> 'c option \<times> string list" where
  "gateway_tracer NewTracer lg ts global =
     (case fst (initTracer NewTracer ''api-gateway'' global) of
        (tracer, closer, err) \<Rightarrow>
          (tracer, closer,
           case err of
             Some e \<Rightarrow> lg_Warn (WithComponent lg ''tracer'') ts ''Jaeger tracer init failed, tracing disabled''
                         [VString ''error'', VError (Some e)]
           | None \<Rightarrow> lg_Info (WithComponent lg ''tracer'') ts ''Jaeger tracer initialized''
                       [VString ''service'', VString ''api-gateway'']))"

text \<open>\<open>Gateway.Close\<close>: the closers it closes.\<close>

definition gateway_Close :: "'c option \<Rightarrow> 'c list" where
  "gateway_Close tracerCloser = (case tracerCloser of None \<Rightarrow> [] | Some c \<Rightarrow> [c])"

section \<open>Initialisation\<close>

text \<open>
  A package's \<open>init\<close> functions run in the order of its file names: \<open>logger.go\<close>, \<open>main.go\<close>,
  \<open>metrics.go\<close>, \<open>system_monitor.go\<close>. The one of \<open>main.go\<close> calls \<open>godotenv.Load\<close> and ignores its
  error; \<open>load\<close> is its effect on the environment.
\<close>

definition main_init :: "(environ \<Rightarrow> environ) \<Rightarrow> environ \<Rightarrow> environ" where
  "main_init load env = load env"

definition process_init ::
  "'s registry \<Rightarrow> (environ \<Rightarrow> environ) \<Rightarrow> string \<Rightarrow> environ \<Rightarrow> 's \<Rightarrow> (Logger \<times> environ \<times> 's) option" where
  "process_init reg load goos env s =
     (let lg = defaultLogger (Getenv env) goos;
          env1 = main_init load env
      in case metrics_init reg s of
           None \<Rightarrow> None
         | Some s1 \<Rightarrow>
             (case system_monitor_init reg s1 of
                None \<Rightarrow> None
              | Some s2 \<Rightarrow> Some (lg, env1, s2)))"

section \<open>From the configuration to the server\<close>

definition startup_log :: "Logger \<Rightarrow> string \<Rightarrow> string \<Rightarrow> Config \<Rightarrow> string list" where
  "startup_log lg ts1 ts2 cfg =
     (let log = WithComponent lg ''gateway'' in
      lg_Info log ts1 ''starting VA API Gateway'' [VString ''version'', VString ''2.0.0''] @
      lg_Info log ts2 ''configuration loaded''
        [VString ''port'', VString (cf_Port cfg),
         VString ''load_balancing'', VString (cf_LoadBalancingAlgo cfg),
         VString ''rate_limit_rps'', VInt (sint (cf_MaxRequestsPerSecond cfg)),
         VString ''burst_size'', VInt (sint (cf_MaxBurstSize cfg)),
         VString ''ddos_threshold'', VInt (sint (cf_DDoSThreshold cfg)),
         VString ''compression'', VBool (cf_EnableCompression cfg),
         VString ''caching'', VBool (cf_EnableCaching cfg)])"

record http_Server =
  hs_Addr :: string
  hs_ReadTimeout :: duration
  hs_WriteTimeout :: duration
  hs_IdleTimeout :: duration

definition new_server :: "Config \<Rightarrow> http_Server" where
  "new_server cfg = \<lparr>hs_Addr = cf_Port cfg, hs_ReadTimeout = 5 * minute, hs_WriteTimeout = 1 * hour,
     hs_IdleTimeout = 120 * second\<rparr>"

text \<open>
  \<open>main\<close> up to its last statement before it waits: the configuration, the lines logged (by
  \<open>main\<close> and for the tracer), the gateway, its closer and the server. The timestamps are
  those of the three log calls.
\<close>

record ('r, 'l, 'c) started_process =
  st_cfg :: Config
  st_log :: "string list"
  st_gateway :: "('r, 'l) Gateway"
  st_closer :: "'c option"
  st_server :: http_Server

definition main_start ::
  "decoders \<Rightarrow> url_lib \<Rightarrow> (goint \<Rightarrow> 'r) \<Rightarrow> bool \<Rightarrow> ('t, 'c) jaeger \<Rightarrow> string \<Rightarrow> string \<Rightarrow> string \<Rightarrow>
   Logger \<Rightarrow> environ \<Rightarrow> ('r, 'l, 'c) started_process" where
  "main_start dec urls rateLimit pingOk NewTracer ts1 ts2 ts3 lg env =
     (let cfg = LoadConfig dec env;
          (tracer, closer, tracer_log) = gateway_tracer NewTracer lg ts3 None
      in \<lparr>st_cfg = cfg, st_log = startup_log lg ts1 ts2 cfg @ tracer_log,
          st_gateway = NewGateway urls rateLimit pingOk cfg, st_closer = closer, st_server = new_server cfg\<rparr>)"

section \<open>Contracts\<close>

text \<open>
  \<open>godotenv.Load\<close> sets the variables of the file that the environment does not have, even
  with an empty value, and overrides none. \<open>file\<close> is the parsed file; an absent or unreadable
  file has no variables.
\<close>

definition has_var :: "environ \<Rightarrow> string \<Rightarrow> bool" where
  "has_var env key \<longleftrightarrow> list_ex (\<lambda>kv. env_key kv = Some key) env"

definition dotenv_contract :: "(environ \<Rightarrow> environ) \<Rightarrow> (string \<rightharpoonup> string) \<Rightarrow> bool" where
  "dotenv_contract load file \<longleftrightarrow>
     (\<forall>env key. key \<noteq> [] \<longrightarrow>
        Getenv (load env) key =
          (if has_var env key then Getenv env key else case file key of None \<Rightarrow> [] | Some v \<Rightarrow> v))"

lemma Getenv_unset: "\<not> has_var env key \<Longrightarrow> Getenv env key = []"
  by (induction env) (auto simp: has_var_def Getenv_def)

text \<open>A loader that appends the missing variables, for the witness.\<close>

definition append_missing :: "(string \<times> string) list \<Rightarrow> environ \<Rightarrow> environ" where
  "append_missing kvs env = env @ map (\<lambda>(k, v). k @ CHR ''='' # v) (filter (\<lambda>(k, v). \<not> has_var env k) kvs)"

lemma Getenv_append:
  "Getenv (env @ env') key = (if has_var env key then Getenv env key else Getenv env' key)"
  by (induction env) (auto simp: has_var_def Getenv_def)

lemma Getenv_entries:
  assumes "list_all (\<lambda>(k, v). CHR ''='' \<notin> set k) kvs" and "key \<noteq> []"
  shows "Getenv (map (\<lambda>(k, v). k @ CHR ''='' # v) kvs) key = (case map_of kvs key of None \<Rightarrow> [] | Some v \<Rightarrow> v)"
  using assms
proof (induction kvs)
  case (Cons kv kvs)
  obtain k v where kv: "kv = (k, v)" by (cases kv)
  with Cons.prems have "env_key (k @ CHR ''='' # v) = Some k" "env_val (k @ CHR ''='' # v) = v"
    by (auto intro: env_key_entry env_val_entry)
  with Cons kv show ?case by (auto simp: Getenv_def)
qed (simp add: Getenv_def)

lemma append_missing_contract:
  assumes "list_all (\<lambda>(k, v). CHR ''='' \<notin> set k) kvs"
  shows "dotenv_contract (append_missing kvs) (map_of kvs)"
  unfolding dotenv_contract_def
proof (intro allI impI)
  fix env key
  let ?new = "filter (\<lambda>(k, v). \<not> has_var env k) kvs"
  assume key: "key \<noteq> ([] :: string)"
  have "list_all (\<lambda>(k, v). CHR ''='' \<notin> set k) ?new" using assms by (auto simp: list_all_iff)
  from Getenv_entries [OF this key] Getenv_append [of env "map (\<lambda>(k, v). k @ CHR ''='' # v) ?new" key]
  have "Getenv (append_missing kvs env) key =
      (if has_var env key then Getenv env key else case map_of ?new key of None \<Rightarrow> [] | Some v \<Rightarrow> v)"
    unfolding append_missing_def by (simp only:)
  moreover have "map_of ?new key = map_of kvs key" if "\<not> has_var env key"
    using that by (induction kvs) auto
  ultimately show "Getenv (append_missing kvs env) key =
      (if has_var env key then Getenv env key else case map_of kvs key of None \<Rightarrow> [] | Some v \<Rightarrow> v)"
    by simp
qed

section \<open>Properties\<close>

lemma process_init_registers:
  "process_init reg load goos env s =
     map_option (\<lambda>s'. (defaultLogger (Getenv env) goos, load env, s')) (MustRegister_all reg s all_collectors)"
  by (simp add: MustRegister_all_append process_init_def metrics_init_def system_monitor_init_def main_init_def Let_def
      split: option.split)

text \<open>
  The process registers its metrics without a panic. With a registry that refuses exactly
  ill-formed descriptions and known names, the \<open>init\<close> functions succeed if and only if none
  of the eleven names was registered before, and then add exactly those names.
\<close>

theorem init_registers_collectors:
  assumes "registry_contract reg names"
  shows "((\<exists>lg env' s'. process_init reg load goos env s = Some (lg, env', s')) \<longleftrightarrow>
      co_Name ` set all_collectors \<inter> names s = {}) \<and>
    (\<forall>lg env' s'. process_init reg load goos env s = Some (lg, env', s') \<longrightarrow>
      names s' = names s \<union> co_Name ` set all_collectors)"
proof -
  have "(\<exists>s'. MustRegister_all reg s all_collectors = Some s') \<longleftrightarrow> co_Name ` set all_collectors \<inter> names s = {}"
    using MustRegister_all_iff [OF assms, of s all_collectors] collectors_well_described collectors_distinct by simp
  then show ?thesis
    unfolding process_init_registers map_option_eq_Some
    using MustRegister_all_names [OF assms, of s all_collectors] by blast
qed

theorem init_registers_collectors_witness:
  "\<exists>lg env' s'. process_init (\<lambda>s c. if well_described c \<and> co_Name c \<notin> s then Some (insert (co_Name c) s) else None)
     id ''linux'' [''HOME=/root''] {''go_goroutines''} = Some (lg, env', s')"
proof -
  let ?reg = "\<lambda>s c. if well_described c \<and> co_Name c \<notin> s then Some (insert (co_Name c) s) else None"
  have "registry_contract ?reg id" by (simp add: registry_contract_def)
  moreover have "co_Name ` set all_collectors \<inter> {''go_goroutines''} = {}" by (simp add: collectors_defs)
  ultimately show ?thesis using init_registers_collectors [of ?reg id id "''linux''" "[''HOME=/root'']" "{''go_goroutines''}"]
    by (simp only: id_apply)
qed

text \<open>The configuration depends on the environment only through \<open>os.Getenv\<close>.\<close>

lemma LoadConfig_cong:
  assumes "Getenv env = Getenv env'"
  shows "LoadConfig dec env = LoadConfig dec env'"
proof -
  have "envOr env = envOr env'" "envOrInt env = envOrInt env'" "envOrBool env = envOrBool env'"
    "envOrDuration p env = envOrDuration p env'" for p
    by (simp_all add: fun_eq_iff envOr_def envOrInt_def envOrBool_def envOrDuration_def assms)
  moreover have "declared env = declared env'" by (simp add: fun_eq_iff declared_def assms)
  ultimately show ?thesis
    by (simp add: LoadConfig_def loadServiceRoutes_def loadCorsOrigins_def loadEnvNamedRoutes_declared assms Let_def)
qed

text \<open>
  C17: a \<open>.env\<close> file is the same as exporting its variables, except for the logger. A process
  that loads the file has the configuration, gateway and server of one that is started with
  the variables of the file exported, wherever they stand in the environment. But the logger is
  initialised before the file is loaded: with no level in the environment it writes nothing
  below INFO, whatever level the file has.
\<close>

theorem dotenv_is_export_but_for_logger:
  assumes "process_init reg load goos env s = Some (lg, env', s')" and "dotenv_contract load file"
    and "\<forall>key. key \<noteq> [] \<longrightarrow> Getenv exported key =
      (if has_var env key then Getenv env key else case file key of None \<Rightarrow> [] | Some v \<Rightarrow> v)"
  shows "let other = defaultLogger (Getenv exported) goos;
        st = main_start dec urls rateLimit pingOk NewTracer ts1 ts2 ts3 lg env';
        st' = main_start dec urls rateLimit pingOk NewTracer ts1 ts2 ts3 other exported
      in st_cfg st = st_cfg st' \<and> st_gateway st = st_gateway st' \<and> st_closer st = st_closer st' \<and>
         st_server st = st_server st' \<and>
         (\<not> has_var env ''LOG_LEVEL'' \<longrightarrow> lg_level lg = LevelInfo \<and>
            lg_level other = parseLogLevel (case file ''LOG_LEVEL'' of None \<Rightarrow> [] | Some v \<Rightarrow> v))"
proof -
  have env: "lg = defaultLogger (Getenv env) goos" "env' = load env"
    using assms(1) by (auto simp: process_init_registers)
  have "Getenv env' key = Getenv exported key" for key
    using assms(2,3) by (cases "key = []") (simp_all add: dotenv_contract_def env(2) Getenv_def)
  then have cfg: "LoadConfig dec env' = LoadConfig dec exported" by (intro LoadConfig_cong) (simp add: fun_eq_iff)
  have closer: "fst (snd (gateway_tracer NewTracer l ts None)) = fst (snd (gateway_tracer NewTracer l' ts None))"
    for l l' ts
    by (simp add: gateway_tracer_def split: prod.split)
  have "lg_level lg = LevelInfo \<and> lg_level (defaultLogger (Getenv exported) goos) =
      parseLogLevel (case file ''LOG_LEVEL'' of None \<Rightarrow> [] | Some v \<Rightarrow> v)" if unset: "\<not> has_var env ''LOG_LEVEL''"
  proof -
    have "Getenv exported ''LOG_LEVEL'' = (case file ''LOG_LEVEL'' of None \<Rightarrow> [] | Some v \<Rightarrow> v)"
      using assms(3) unset by simp
    moreover have "parseLogLevel [] = LevelInfo" by code_simp
    ultimately show ?thesis by (simp add: env(1) defaultLogger_def Getenv_unset [OF unset])
  qed
  then show ?thesis using closer by (auto simp: main_start_def cfg Let_def case_prod_unfold)
qed

theorem dotenv_is_export_but_for_logger_witness:
  "\<exists>lg env' s'. process_init (\<lambda>s c. Some (insert (co_Name c) s))
      (append_missing [(''GATEWAY_PORT'', '':80''), (''LOG_LEVEL'', ''debug'')]) ''linux'' [''HOME=/root''] {} =
      Some (lg, env', s') \<and> lg_level lg = LevelInfo \<and>
    lg_level (defaultLogger (Getenv [''LOG_LEVEL=debug'', ''GATEWAY_PORT=:80'', ''HOME=/root'']) ''linux'') = LevelDebug"
proof -
  let ?file = "[(''GATEWAY_PORT'', '':80''), (''LOG_LEVEL'', ''debug'')]"
  let ?reg = "\<lambda>s c. Some (insert (co_Name c) s)"
  let ?ex = "[''LOG_LEVEL=debug'', ''GATEWAY_PORT=:80'', ''HOME=/root'']"
  obtain lg env' s' where run: "process_init ?reg (append_missing ?file) ''linux'' [''HOME=/root''] {} = Some (lg, env', s')"
    by (simp add: process_init_registers collectors_defs)
  have load: "dotenv_contract (append_missing ?file) (map_of ?file)"
    by (rule append_missing_contract) simp
  have keys: "env_key ''LOG_LEVEL=debug'' = Some ''LOG_LEVEL''" "env_val ''LOG_LEVEL=debug'' = ''debug''"
    "env_key ''GATEWAY_PORT=:80'' = Some ''GATEWAY_PORT''" "env_val ''GATEWAY_PORT=:80'' = '':80''"
    "env_key ''HOME=/root'' = Some ''HOME''" by code_simp+
  have ex: "\<forall>key. key \<noteq> [] \<longrightarrow> Getenv ?ex key = (if has_var [''HOME=/root''] key then Getenv [''HOME=/root''] key
      else case map_of ?file key of None \<Rightarrow> [] | Some v \<Rightarrow> v)"
    by (simp add: Getenv_def has_var_def keys)
  have unset: "\<not> has_var [''HOME=/root''] ''LOG_LEVEL''" by (simp add: has_var_def keys)
  have "parseLogLevel ''debug'' = LevelDebug" by code_simp
  with dotenv_is_export_but_for_logger [OF run load ex,
      of "\<lparr>dec_Duration = (\<lambda>_. None), dec_Routes = (\<lambda>_. None), dec_Strings = (\<lambda>_. None)\<rparr>" example_urls "\<lambda>_. ()" True
      "(\<lambda>_. Inl ''no agent'') :: (unit, unit) jaeger" "''t1''" "''t2''" "''t3''"] unset run
  have "lg_level lg = LevelInfo \<and> lg_level (defaultLogger (Getenv ?ex) ''linux'') = LevelDebug"
    unfolding Let_def by auto
  with run show ?thesis by blast
qed

text \<open>
  A tracer that cannot be initialised does not stop the gateway: tracer and closer are
  present or absent together, and \<open>Close\<close> closes exactly the closer that was opened.
\<close>

lemma tracer_optional:
  "case gateway_tracer NewTracer lg ts global of (tracer, closer, ls) \<Rightarrow>
     (tracer = None \<longleftrightarrow> isl (NewTracer (tracer_config ''api-gateway''))) \<and>
     (tracer = None \<longleftrightarrow> closer = None) \<and> length (gateway_Close closer) = (if tracer = None then 0 else 1)"
  by (simp add: gateway_tracer_def initTracer_def gateway_Close_def split: sum.split prod.split)

end
