(* ===== verification/Component_Logs.thy ===== *)
theory Component_Logs
  imports Admin Logger
begin

text \<open>
  What the components write to the log besides changing their state: configuration loading,
  registration of routes, health checks, the circuit breaker, the DDoS guard, the cache, the
  admin handlers and the error handler of the proxies. For every operation of the other
  theories that logs, a definition \<open>..._entries\<close> gives its log calls in order; \<open>emit\<close> turns a
  call into what reaches the writer of the logger.
\<close>

section \<open>Log calls\<close>

record log_entry =
  le_component :: string
  le_level :: LogLevel
  le_requestID :: string
  le_msg :: string
  le_kvs :: "log_value list"

definition component_entry :: "string \<Rightarrow> LogLevel \<Rightarrow> string \<Rightarrow> log_value list \<Rightarrow> log_entry" where
  "component_entry component level msg kvs =
     \<lparr>le_component = component, le_level = level, le_requestID = [], le_msg = msg, le_kvs = kvs\<rparr>"

definition emit_entry :: "Logger \<Rightarrow> string \<Rightarrow> log_entry \<Rightarrow> string list" where
  "emit_entry lg ts e =
     lg_log (WithComponent lg (le_component e)) ts (le_level e) (le_requestID e) (le_msg e) (le_kvs e)"

definition shown :: "Logger \<Rightarrow> log_entry \<Rightarrow> bool" where
  "shown lg e \<longleftrightarrow> go_le (lg_level lg) (le_level e)"

text \<open>The value printed for a key, if the call has such a pair.\<close>

fun kv_get :: "log_value list \<Rightarrow> string \<Rightarrow> log_value option" where
  "kv_get (k # v # kvs) key = (if k = VString key then Some v else kv_get kvs key)"
| "kv_get kvs key = None"

section \<open>Configuration\<close>

definition envOrInt_entries :: "environ \<Rightarrow> string \<Rightarrow> goint \<Rightarrow> log_entry list" where
  "envOrInt_entries env key fallback =
     (let v = Getenv env key
      in if v = [] then []
         else case Atoi v of
             None \<Rightarrow> [component_entry ''config'' LevelWarn ''invalid integer env, using default''
                       [VString ''key'', VString key, VString ''value'', VString v,
                        VString ''default'', VInt (sint fallback)]]
           | Some n \<Rightarrow> [])"

definition envOrBool_entries :: "environ \<Rightarrow> string \<Rightarrow> bool \<Rightarrow> log_entry list" where
  "envOrBool_entries env key fallback =
     (let v = Getenv env key
      in if v = [] then []
         else case ParseBool v of
             None \<Rightarrow> [component_entry ''config'' LevelWarn ''invalid boolean env, using default''
                       [VString ''key'', VString key, VString ''value'', VString v,
                        VString ''default'', VBool fallback]]
           | Some b \<Rightarrow> [])"

definition envOrDuration_entries ::
  "(string \<Rightarrow> duration option) \<Rightarrow> environ \<Rightarrow> string \<Rightarrow> duration \<Rightarrow> log_entry list" where
  "envOrDuration_entries ParseDuration env key fallback =
     (let v = Getenv env key
      in if v = [] then []
         else case ParseDuration v of
             None \<Rightarrow> [component_entry ''config'' LevelWarn ''invalid duration env, using default''
                       [VString ''key'', VString key, VString ''value'', VString v,
                        VString ''default'', VDuration fallback]]
           | Some d \<Rightarrow> [])"

definition loadEnvNamedRoutes_entries :: "environ \<Rightarrow> log_entry list" where
  "loadEnvNamedRoutes_entries env =
     (let byName = group_vars env
      in map (\<lambda>name. component_entry ''config'' LevelWarn ''route declared with no upstream, skipped''
               [VString ''route'', VString name,
                VString ''hint'', VString (''set ROUTE_'' @ name @ ''_URL or ROUTE_'' @ name @ ''_TARGETS'')])
           (filter (\<lambda>name. \<not> has_upstream (the (map_of byName name))) (sort (map fst byName))))"

text \<open>\<open>jsonErr\<close> is the text of the error of \<open>json.Unmarshal\<close> for a document it refuses.\<close>

definition loadServiceRoutes_entries ::
  "(string \<Rightarrow> ServiceRoute list option) \<Rightarrow> (string \<Rightarrow> string) \<Rightarrow> environ \<Rightarrow> log_entry list" where
  "loadServiceRoutes_entries json jsonErr env =
     (let raw = Getenv env ''SERVICE_ROUTES''
      in (if raw \<noteq> [] then
            (case json raw of
               None \<Rightarrow> [component_entry ''config'' LevelError ''failed to parse SERVICE_ROUTES JSON; ignoring it''
                         [VString ''error'', VError (Some (jsonErr raw))]]
             | Some rs \<Rightarrow> [])
          else []) @
         loadEnvNamedRoutes_entries env @
         envOrBool_entries env ''ENABLE_VXCLOUD_DEFAULT_ROUTES'' False @
         (if envOrBool env ''ENABLE_VXCLOUD_DEFAULT_ROUTES'' False
          then [component_entry ''config'' LevelInfo ''VxCloud default localhost routes enabled''
                 [VString ''count'', VInt (int (length vxCloudDefaultRoutes))]]
          else []) @
         (if length (loadServiceRoutes json env) = 0
          then [component_entry ''config'' LevelWarn ''no routes configured; every request will get 404''
                 [VString ''hint'', VString (''set SERVICE_ROUTES, or ROUTE_<NAME>_URL / ROUTE_<NAME>_HOST, '' @
                    ''or ENABLE_VXCLOUD_DEFAULT_ROUTES=true'')]]
          else []))"

definition loadCorsOrigins_entries ::
  "(string \<Rightarrow> string list option) \<Rightarrow> (string \<Rightarrow> string) \<Rightarrow> environ \<Rightarrow> log_entry list" where
  "loadCorsOrigins_entries json jsonErr env =
     (let raw = Getenv env ''CORS_ALLOWED_ORIGINS''
      in if raw \<noteq> [] then
           (case json raw of
              None \<Rightarrow> [component_entry ''config'' LevelWarn ''failed to parse CORS_ALLOWED_ORIGINS, using default''
                        [VString ''error'', VError (Some (jsonErr raw))]]
            | Some origins \<Rightarrow> [])
         else [])"

text \<open>The calls of the composite literal of \<open>LoadConfig\<close>, in the order of its fields.\<close>

definition LoadConfig_entries ::
  "decoders \<Rightarrow> (string \<Rightarrow> string) \<Rightarrow> (string \<Rightarrow> string) \<Rightarrow> environ \<Rightarrow> log_entry list" where
  "LoadConfig_entries dec routesErr originsErr env =
     (let int = envOrInt_entries env; bol = envOrBool_entries env;
          dur = envOrDuration_entries (dec_Duration dec) env
      in int ''MAX_REQUESTS_PER_SECOND'' 100 @
         int ''MAX_BURST_SIZE'' 200 @
         int ''DDOS_THRESHOLD'' 1000 @
         dur ''BLOCK_DURATION'' (10 * minute) @
         dur ''HEALTH_CHECK_INTERVAL'' (10 * second) @
         dur ''CONNECTION_TIMEOUT'' (30 * second) @
         int ''MAX_IDLE_CONNS'' 100 @
         dur ''IDLE_CONN_TIMEOUT'' (90 * second) @
         int ''CIRCUIT_BREAKER_MAX'' 5 @
         dur ''CIRCUIT_BREAKER_TIMEOUT'' (30 * second) @
         bol ''ENABLE_COMPRESSION'' True @
         bol ''ENABLE_CACHING'' True @
         dur ''CACHE_TTL'' (5 * minute) @
         loadServiceRoutes_entries (dec_Routes dec) routesErr env @
         loadCorsOrigins_entries (dec_Strings dec) originsErr env)"

section \<open>Registration of routes\<close>

text \<open>The text of the errors of \<open>normalizeUpstream\<close>; \<open>quote\<close> is the verb \<open>%q\<close>.\<close>

fun upstream_error_text :: "(string \<Rightarrow> string) \<Rightarrow> upstream_error \<Rightarrow> string" where
  "upstream_error_text quote EmptyUpstream = ''empty upstream''"
| "upstream_error_text quote (ParseFailed err) = err"
| "upstream_error_text quote (NoHost raw) = ''upstream '' @ quote raw @ '' has no host''"
| "upstream_error_text quote (BadScheme raw scheme) =
     ''upstream '' @ quote raw @ '' has unsupported scheme '' @ quote scheme"

definition target_entries :: "url_lib \<Rightarrow> (string \<Rightarrow> string) \<Rightarrow> ServiceRoute \<Rightarrow> string \<Rightarrow> log_entry list" where
  "target_entries lib quote cfg r =
     (case normalizeUpstream lib r of
        Inl err \<Rightarrow> [component_entry ''router'' LevelWarn ''invalid upstream, skipped''
                     [VString ''route'', VString (ro_Name cfg), VString ''host'', VString (ro_Host cfg),
                      VString ''prefix'', VString (ro_Prefix cfg), VString ''upstream'', VString r,
                      VString ''error'', VError (Some (upstream_error_text quote err))]]
      | Inr targetURL \<Rightarrow> [])"

definition registered_entry :: "url_lib \<Rightarrow> string \<Rightarrow> ServiceRoute \<Rightarrow> ServicePool \<Rightarrow> log_entry" where
  "registered_entry lib algo cfg pool =
     (let hostLabel = (if ro_Host cfg = [] then ''*'' else ro_Host cfg);
          pfx = (if ro_Prefix cfg = [] then ''/'' else ro_Prefix cfg);
          upstreams = map (\<lambda>b. ul_String lib (be_URL b)) (Backends pool)
      in component_entry ''router'' LevelInfo ''route registered''
           [VString ''route'', VString (ro_Name cfg), VString ''host'', VString hostLabel,
            VString ''prefix'', VString pfx, VString ''upstreams'', VString (Join upstreams '',''),
            VString ''backends'', VInt (int (length upstreams)), VString ''algo'', VString algo,
            VString ''strip_prefix'', VBool (ro_StripPrefix cfg), VString ''require_auth'', VBool (ro_RequireAuth cfg),
            VString ''preserve_host'', VBool (ro_PreserveHost cfg), VString ''health_path'', VString (ro_HealthPath cfg),
            VString ''timeout'', VDuration (route_timeout cfg)])"

definition AddRoute_entries ::
  "url_lib \<Rightarrow> (string \<Rightarrow> string) \<Rightarrow> string \<Rightarrow> Config \<Rightarrow> ServiceRoute \<Rightarrow> log_entry list" where
  "AddRoute_entries lib quote algo transportCfg cfg =
     (let pool = route_pool lib cfg algo transportCfg
      in concat (map (target_entries lib quote cfg) (raw_targets cfg)) @
         (if length (Backends pool) = 0
          then [component_entry ''router'' LevelError ''route has no usable upstream, not registered''
                 [VString ''route'', VString (ro_Name cfg), VString ''host'', VString (ro_Host cfg),
                  VString ''prefix'', VString (ro_Prefix cfg)]]
          else [registered_entry lib algo cfg pool]))"

section \<open>Health checks\<close>

definition check_entry :: "url_lib \<Rightarrow> NetEnv \<Rightarrow> Backend \<Rightarrow> log_entry" where
  "check_entry lib net b =
     (let alive = probe net b;
          was = IsAlive b;
          status = (if \<not> alive then ''down'' else ''up'');
          level = (if was \<noteq> alive then LevelInfo else LevelDebug)
      in component_entry ''router'' level ''health check''
           [VString ''backend'', VString (ul_String lib (be_URL b)), VString ''status'', VString status,
            VString ''changed'', VBool (was \<noteq> alive),
            VString ''connections'', VInt (sint (GetConnections (check_backend net b)))])"

definition HealthCheck_entries :: "url_lib \<Rightarrow> ServicePool \<Rightarrow> NetEnv \<Rightarrow> log_entry list" where
  "HealthCheck_entries lib s net = map (check_entry lib net) (sp_backends s)"

section \<open>The error handler of a proxy\<close>

text \<open>
  \<open>ErrorHandler\<close> of \<open>newBackendProxy\<close>: what is stored in the sink of the request's context,
  if there is one, the log calls and the writer.
\<close>

definition proxy_ErrorHandler ::
  "url_lib \<Rightarrow> ReverseProxy \<Rightarrow> bool \<Rightarrow> ResponseWriter \<Rightarrow> Request \<Rightarrow> string \<Rightarrow>
   string option \<times> log_entry list \<times> ResponseWriter" where
  "proxy_ErrorHandler lib px sink w r proxyErr =
     (if sink then (Some proxyErr, [], w)
      else (None,
            [component_entry ''proxy'' LevelError ''proxy error''
               [VString ''backend'', VString (ul_String lib (px_target px)), VString ''error'', VError (Some proxyErr),
                VString ''req'', VString (Header_Get (req_Header r) ''x-request-id'')]],
            http_Error w ''Bad Gateway'' 502))"

section \<open>Circuit breaker and DDoS guard\<close>

definition transition_entry :: "string \<Rightarrow> log_entry" where
  "transition_entry state =
     component_entry ''circuit'' LevelInfo ''circuit breaker transition'' [VString ''state'', VString state]"

definition admit_entries :: "instant \<Rightarrow> CircuitBreaker \<Rightarrow> log_entry list" where
  "admit_entries now cb =
     (if cb_state cb = ''open'' \<and> go_lt (cb_resetTimeout cb) (time_Sub now (cb_lastFailTime cb))
      then [transition_entry ''half-open''] else [])"

fun settle_entries :: "'e outcome \<Rightarrow> CircuitBreaker \<Rightarrow> log_entry list" where
  "settle_entries Panicked cb = []"
| "settle_entries (Failure e) cb =
     (let failures = cb_failures cb + 1
      in if go_le (cb_maxFailures cb) failures
         then [component_entry ''circuit'' LevelWarn ''circuit breaker opened''
                [VString ''failures'', VInt (sint failures), VString ''max_failures'', VInt (sint (cb_maxFailures cb))]]
         else [])"
| "settle_entries Success cb = (if cb_state cb = ''half-open'' then [transition_entry ''closed''] else [])"

text \<open>One \<open>Call\<close>: the clock at the check, and the outcome of the argument if it runs.\<close>

definition Call_entries :: "instant \<Rightarrow> 'e outcome \<Rightarrow> CircuitBreaker \<Rightarrow> log_entry list" where
  "Call_entries t0 out cb =
     (case admit t0 cb of None \<Rightarrow> [] | Some cb1 \<Rightarrow> admit_entries t0 cb @ settle_entries out cb1)"

definition RecordRequest_entries :: "instant \<Rightarrow> DDoSProtection \<Rightarrow> string \<Rightarrow> log_entry list" where
  "RecordRequest_entries now d ip =
     (case RecordRequest now d ip of (d', blocked) \<Rightarrow>
        if blocked
        then [component_entry ''ddos'' LevelWarn ''IP blocked by DDoS protection''
               [VString ''ip'', VString ip, VString ''block_duration'', VDuration (dd_duration d),
                VString ''request_count'', VInt (sint (rc_Count (the (dd_requests d' ip)))),
                VString ''threshold'', VInt (sint (dd_threshold d))]]
        else [])"

section \<open>Cache and admin handlers\<close>

text \<open>\<open>ping\<close> is the error of the \<open>PING\<close> command, if any.\<close>

definition NewCacheManager_entries :: "string \<Rightarrow> string option \<Rightarrow> bool \<Rightarrow> log_entry list" where
  "NewCacheManager_entries redisAddr ping enable =
     (if \<not> enable then []
      else case ping of
          Some err \<Rightarrow> [component_entry ''cache'' LevelWarn ''Redis connection failed, caching disabled''
                        [VString ''addr'', VString redisAddr, VString ''error'', VError (Some err)]]
        | None \<Rightarrow> [component_entry ''cache'' LevelInfo ''Redis connected'' [VString ''addr'', VString redisAddr]])"

definition cache_Get_entries :: "(string \<Rightarrow> redis_reply) \<Rightarrow> CacheManager \<Rightarrow> string \<Rightarrow> log_entry list" where
  "cache_Get_entries redis cm key =
     (if \<not> cm_enable cm then []
      else case redis key of
          ReplyError err \<Rightarrow> [component_entry ''cache'' LevelError ''cache get error''
                              [VString ''key'', VString key, VString ''error'', VError (Some err)]]
        | _ \<Rightarrow> [])"

definition cache_Set_entries :: "string option \<Rightarrow> CacheManager \<Rightarrow> string \<Rightarrow> log_entry list" where
  "cache_Set_entries reply cm key =
     (if \<not> cm_enable cm then []
      else case reply of
          Some err \<Rightarrow> [component_entry ''cache'' LevelError ''cache set error''
                        [VString ''key'', VString key, VString ''error'', VError (Some err)]]
        | None \<Rightarrow> [])"

definition list_handler_entries :: "string \<Rightarrow> Request \<Rightarrow> log_entry list" where
  "list_handler_entries msg r =
     (let ip = Query_Get r ''ip''
      in if req_Method r \<noteq> ''POST'' \<or> ip = [] then []
         else [component_entry ''admin'' LevelInfo msg [VString ''ip'', VString ip]])"

definition whitelistHandler_entries :: "Request \<Rightarrow> log_entry list" where
  "whitelistHandler_entries r = list_handler_entries ''IP added to whitelist'' r"

definition blacklistHandler_entries :: "Request \<Rightarrow> log_entry list" where
  "blacklistHandler_entries r = list_handler_entries ''IP added to blacklist'' r"

section \<open>Replaying a state from the log\<close>

text \<open>
  The log of a run, and the contract between a component and a reader of its log: the reader
  starts with what he knows of the state and follows the entries; after any run his view is
  that of the state the component has reached.
\<close>

primrec run_log :: "('s \<Rightarrow> 'e \<Rightarrow> 's) \<Rightarrow> ('s \<Rightarrow> 'e \<Rightarrow> log_entry list) \<Rightarrow> 's \<Rightarrow> 'e list \<Rightarrow> log_entry list" where
  "run_log step entries s [] = []"
| "run_log step entries s (e # es) = entries s e @ run_log step entries (step s e) es"

locale log_reader =
  fixes step :: "'s \<Rightarrow> 'e \<Rightarrow> 's"
    and entries :: "'s \<Rightarrow> 'e \<Rightarrow> log_entry list"
    and kept :: "log_entry \<Rightarrow> bool"
    and ok :: "'s \<Rightarrow> bool"
    and view :: "'s \<Rightarrow> 'v"
    and seen :: "'v \<Rightarrow> log_entry \<Rightarrow> 'v"
  assumes ok_step: "ok s \<Longrightarrow> ok (step s e)"
    and view_step: "ok s \<Longrightarrow> view (step s e) = foldl seen (view s) (filter kept (entries s e))"
begin

lemma view_run: "ok s \<Longrightarrow> view (foldl step s es) = foldl seen (view s) (filter kept (run_log step entries s es))"
  by (induction es arbitrary: s) (simp_all add: ok_step view_step)

end

lemma component_entry_sel [simp]:
  "le_component (component_entry c l m kvs) = c" "le_level (component_entry c l m kvs) = l"
  "le_requestID (component_entry c l m kvs) = []" "le_msg (component_entry c l m kvs) = m"
  "le_kvs (component_entry c l m kvs) = kvs"
  by (simp_all add: component_entry_def)

lemma emit_iff_shown: "emit_entry lg ts e \<noteq> [] \<longleftrightarrow> shown lg e"
  by (auto simp: emit_entry_def shown_def lg_log_def WithComponent_def)

subsection \<open>The breaker\<close>

fun call_entries :: "CircuitBreaker \<Rightarrow> 'e call \<Rightarrow> log_entry list" where
  "call_entries cb (t0, t1, out) = Call_entries t0 out cb"

definition breaker_seen :: "string \<Rightarrow> log_entry \<Rightarrow> string" where
  "breaker_seen state e =
     (if le_msg e = ''circuit breaker opened'' then ''open''
      else case kv_get (le_kvs e) ''state'' of Some (VString new) \<Rightarrow> new | _ \<Rightarrow> state)"

interpretation breaker_log: log_reader call_step call_entries "shown lg" "\<lambda>_. go_le (lg_level lg) LevelInfo"
    GetState breaker_seen for lg
proof unfold_locales
  fix cb :: CircuitBreaker and call :: "'e call"
  assume lg: "go_le (lg_level lg) LevelInfo"
  obtain t0 t1 out where call: "call = (t0, t1, out)" by (rule prod_cases3)
  have sh: "shown lg (component_entry c LevelInfo m kvs)" "shown lg (component_entry c LevelWarn m kvs)" for c m kvs
    using lg by (simp_all add: shown_def level_defs)
  show "GetState (call_step cb call) = foldl breaker_seen (GetState cb) (filter (shown lg) (call_entries cb call))"
    by (cases out) (auto simp: call Call_entries_def admit_def admit_entries_def transition_entry_def sh GetState_def
        breaker_seen_def Let_def)
qed

subsection \<open>Backends\<close>

abbreviation backend_url :: "url_lib \<Rightarrow> Backend \<Rightarrow> string" where
  "backend_url lib b \<equiv> ul_String lib (be_URL b)"

text \<open>Which upstreams of a pool are up.\<close>

definition pool_status :: "url_lib \<Rightarrow> ServicePool \<Rightarrow> string \<rightharpoonup> bool" where
  "pool_status lib s = map_of (map (\<lambda>b. (backend_url lib b, IsAlive b)) (sp_backends s))"

definition health_seen :: "(string \<rightharpoonup> bool) \<Rightarrow> log_entry \<Rightarrow> string \<rightharpoonup> bool" where
  "health_seen v e =
     (case (kv_get (le_kvs e) ''backend'', kv_get (le_kvs e) ''status'') of
        (Some (VString url), Some (VString status)) \<Rightarrow> v(url \<mapsto> status = ''up'')
      | _ \<Rightarrow> v)"

lemma map_add_absorb: "dom m \<subseteq> dom m' \<Longrightarrow> m ++ m' = m'"
  by (rule ext) (auto simp: map_add_def split: option.split)

lemma check_entry_shown: "lg_level lg = LevelInfo \<Longrightarrow> shown lg (check_entry lib net b) \<longleftrightarrow> IsAlive b \<noteq> probe net b"
  by (simp add: shown_def check_entry_def Let_def level_defs)

lemma health_seen_check: "health_seen v (check_entry lib net b) = v(backend_url lib b \<mapsto> probe net b)"
  by (simp add: health_seen_def check_entry_def Let_def)

lemma health_seen_round:
  assumes "lg_level lg = LevelInfo" and "distinct (map (backend_url lib) bs)"
    and "\<forall>b \<in> set bs. v (backend_url lib b) = Some (IsAlive b)"
  shows "foldl health_seen v (filter (shown lg) (map (check_entry lib net) bs)) =
    v ++ map_of (map (\<lambda>b. (backend_url lib b, probe net b)) bs)"
  using assms(2,3)
proof (induction bs arbitrary: v)
  case (Cons b bs)
  let ?v = "v(backend_url lib b \<mapsto> probe net b)"
  have u: "backend_url lib b \<notin> backend_url lib ` set bs" using Cons.prems(1) by simp
  then have ne: "\<forall>b' \<in> set bs. backend_url lib b' \<noteq> backend_url lib b" by (metis imageI)
  have "foldl health_seen v (filter (shown lg) (map (check_entry lib net) (b # bs))) =
      foldl health_seen ?v (filter (shown lg) (map (check_entry lib net) bs))"
    using Cons.prems(2) by (simp add: check_entry_shown [OF assms(1)] health_seen_check fun_upd_idem)
  also have "\<dots> = ?v ++ map_of (map (\<lambda>b. (backend_url lib b, probe net b)) bs)"
    using Cons.prems ne by (intro Cons.IH) simp_all
  also have "\<dots> = v ++ map_of (map (\<lambda>b. (backend_url lib b, probe net b)) (b # bs))"
    using u by (auto simp: map_add_def fun_eq_iff image_comp comp_def map_of_eq_None_iff split: option.split
        dest!: map_of_SomeD)
  finally show ?case .
qed simp

definition health_round :: "ServicePool \<Rightarrow> NetEnv \<Rightarrow> ServicePool" where
  "health_round s net = HealthCheck net s"

lemma check_backend_sel [simp]:
  "be_URL (check_backend net b) = be_URL b" "IsAlive (check_backend net b) = probe net b"
  by (simp_all add: check_backend_def Let_def SetAlive_def ResetFailures_def IsAlive_def)

interpretation health_log: log_reader health_round "HealthCheck_entries lib" "shown lg"
    "\<lambda>s. lg_level lg = LevelInfo \<and> distinct (map (backend_url lib) (sp_backends s))" "pool_status lib" health_seen
  for lib lg
proof unfold_locales
  fix s :: ServicePool and net :: NetEnv
  let ?ok = "\<lambda>s. lg_level lg = LevelInfo \<and> distinct (map (backend_url lib) (sp_backends s))"
  assume ok: "?ok s"
  then show "?ok (health_round s net)" by (simp add: health_round_def HealthCheck_def comp_def)
  have v: "pool_status lib s (backend_url lib b) = Some (IsAlive b)" if "b \<in> set (sp_backends s)" for b
    using ok that by (auto simp: pool_status_def comp_def intro!: map_of_is_SomeI)
  have "pool_status lib (health_round s net) = map_of (map (\<lambda>b. (backend_url lib b, probe net b)) (sp_backends s))"
    by (simp add: pool_status_def health_round_def HealthCheck_def comp_def)
  also have "\<dots> = pool_status lib s ++ \<dots>"
    by (rule map_add_absorb [symmetric]) (simp add: pool_status_def dom_map_of_conv_image_fst image_comp comp_def)
  also have "\<dots> = foldl health_seen (pool_status lib s) (filter (shown lg) (HealthCheck_entries lib s net))"
    unfolding HealthCheck_entries_def by (rule health_seen_round [symmetric]) (use ok v in auto)
  finally show "pool_status lib (health_round s net) =
      foldl health_seen (pool_status lib s) (filter (shown lg) (HealthCheck_entries lib s net))" .
qed

section \<open>What start-up reports\<close>

text \<open>The settings for which a log mentions that its value was not used.\<close>

definition reported_keys :: "log_entry list \<Rightarrow> string set" where
  "reported_keys es = {k. list_ex (\<lambda>e. kv_get (le_kvs e) ''key'' = Some (VString k)) es}"

lemma reported_keys_simps [simp]:
  "reported_keys [] = {}" "reported_keys (es @ fs) = reported_keys es \<union> reported_keys fs"
  "reported_keys (if b then es else fs) = (if b then reported_keys es else reported_keys fs)"
  by (auto simp: reported_keys_def)

text \<open>One setting and the test that its value is refused.\<close>

definition refused :: "environ \<Rightarrow> (string \<Rightarrow> 'a option) \<Rightarrow> string \<Rightarrow> string set" where
  "refused env parse key = {k. k = key \<and> Getenv env k \<noteq> [] \<and> parse (Getenv env k) = None}"

lemma refused_union:
  "k \<in> \<Union> (set (map (refused env parse) keys)) \<longleftrightarrow> k \<in> set keys \<and> Getenv env k \<noteq> [] \<and> parse (Getenv env k) = None"
  by (auto simp: refused_def)

lemma reported_env [simp]:
  "reported_keys (envOrInt_entries env key i) = refused env Atoi key"
  "reported_keys (envOrBool_entries env key b) = refused env ParseBool key"
  "reported_keys (envOrDuration_entries parse env key d) = refused env parse key"
  by (auto simp: reported_keys_def refused_def envOrInt_entries_def envOrBool_entries_def envOrDuration_entries_def
      Let_def split: option.split)

lemma reported_routes [simp]:
  "reported_keys (loadEnvNamedRoutes_entries env) = {}"
  "reported_keys (loadCorsOrigins_entries json err env) = {}"
  by (auto simp: reported_keys_def loadEnvNamedRoutes_entries_def loadCorsOrigins_entries_def Let_def list_ex_iff
      split: option.split)

lemma reported_service_routes [simp]:
  "reported_keys (loadServiceRoutes_entries json err env) =
     reported_keys (envOrBool_entries env ''ENABLE_VXCLOUD_DEFAULT_ROUTES'' False)"
  by (auto simp: loadServiceRoutes_entries_def Let_def reported_keys_def list_ex_iff split: option.split)
    (use reported_routes(1) [of env] in \<open>auto simp: reported_keys_def list_ex_iff\<close>)

definition int_settings :: "string list" where
  "int_settings = [''MAX_REQUESTS_PER_SECOND'', ''MAX_BURST_SIZE'', ''DDOS_THRESHOLD'', ''MAX_IDLE_CONNS'',
     ''CIRCUIT_BREAKER_MAX'']"

definition duration_settings :: "string list" where
  "duration_settings = [''BLOCK_DURATION'', ''HEALTH_CHECK_INTERVAL'', ''CONNECTION_TIMEOUT'', ''IDLE_CONN_TIMEOUT'',
     ''CIRCUIT_BREAKER_TIMEOUT'', ''CACHE_TTL'']"

definition bool_settings :: "string list" where
  "bool_settings = [''ENABLE_COMPRESSION'', ''ENABLE_CACHING'', ''ENABLE_VXCLOUD_DEFAULT_ROUTES'']"

definition says_no_routes :: "log_entry \<Rightarrow> bool" where
  "says_no_routes e \<longleftrightarrow> le_msg e = ''no routes configured; every request will get 404''"

lemma no_routes_env [simp]:
  "\<not> list_ex says_no_routes (envOrInt_entries env key i)" "\<not> list_ex says_no_routes (envOrBool_entries env key b)"
  "\<not> list_ex says_no_routes (envOrDuration_entries parse env key d)"
  "\<not> list_ex says_no_routes (loadCorsOrigins_entries json err env)"
  "\<not> list_ex says_no_routes (loadEnvNamedRoutes_entries env)"
  by (auto simp: envOrInt_entries_def envOrBool_entries_def envOrDuration_entries_def loadCorsOrigins_entries_def
      loadEnvNamedRoutes_entries_def says_no_routes_def Let_def list_ex_iff split: option.split)

lemma no_routes_service:
  "list_ex says_no_routes (loadServiceRoutes_entries json err env) \<longleftrightarrow> loadServiceRoutes json env = []"
  by (auto simp: loadServiceRoutes_entries_def Let_def says_no_routes_def [of "component_entry _ _ _ _"] split: option.split)

lemma no_routes_config:
  "list_ex says_no_routes (LoadConfig_entries dec routesErr originsErr env) \<longleftrightarrow> cf_ServiceRoutes (LoadConfig dec env) = []"
  by (simp add: LoadConfig_entries_def Let_def no_routes_service LoadConfig_def)

subsection \<open>Routes\<close>

text \<open>The route an entry is about and the number of its backends.\<close>

definition entry_route :: "log_entry \<Rightarrow> log_value option \<times> log_value option" where
  "entry_route e = (kv_get (le_kvs e) ''route'', kv_get (le_kvs e) ''backends'')"

definition says :: "string \<Rightarrow> log_entry \<Rightarrow> bool" where
  "says msg e \<longleftrightarrow> le_msg e = msg"

lemma no_target_says:
  assumes "msg \<noteq> ''invalid upstream, skipped''"
  shows "filter (says msg) (concat (map (target_entries lib quote cfg) rs)) = []"
  using assms by (auto simp: filter_concat target_entries_def says_def filter_empty_conv split: sum.splits)

lemma AddRoute_registered:
  "map entry_route (filter (says ''route registered'') (AddRoute_entries lib quote algo tc cfg)) =
     (if usable lib algo tc cfg
      then [(Some (VString (ro_Name cfg)), Some (VInt (int (length (sp_backends (route_pool lib cfg algo tc))))))]
      else [])"
  by (simp add: AddRoute_entries_def no_target_says Let_def registered_entry_def entry_route_def usable_def Backends_def
      says_def [of _ "component_entry _ _ _ _"])

lemma AddRoute_refused:
  "map (fst \<circ> entry_route) (filter (says ''route has no usable upstream, not registered'')
       (AddRoute_entries lib quote algo tc cfg)) =
     (if usable lib algo tc cfg then [] else [Some (VString (ro_Name cfg))])"
  by (simp add: AddRoute_entries_def no_target_says Let_def registered_entry_def entry_route_def usable_def Backends_def
      says_def [of _ "component_entry _ _ _ _"])

lemma concat_if_single: "concat (map (\<lambda>x. if P x then [f x] else []) xs) = map f (filter P xs)"
  by (induction xs) auto

section \<open>Properties\<close>

text \<open>
  C21: the breaker's state can be read off its log. At the default level, or with debug lines,
  whoever knows the state of the breaker and follows its log lines (\<open>opened\<close>, and the two
  transitions) knows the state \<open>GetState\<close> reports after any sequence of calls, admitted,
  rejected, failed, successful or panicking.
\<close>

theorem breaker_log_replays:
  assumes "go_le (lg_level lg) LevelInfo"
  shows "GetState (foldl call_step cb calls) =
    foldl breaker_seen (GetState cb) (filter (shown lg) (run_log call_step call_entries cb calls))"
  using assms by (rule breaker_log.view_run)

theorem breaker_log_replays_witness:
  "foldl breaker_seen ''closed'' (filter (shown \<lparr>lg_level = LevelInfo, lg_useColor = False, lg_component = []\<rparr>)
     (run_log call_step call_entries (NewCircuitBreaker 1 0) [(0, 0, Failure ''refused''), (5, 5, Panicked :: string outcome)])) =
   ''half-open''"
proof -
  let ?calls = "[(0, 0, Failure ''refused''), (5, 5, Panicked :: string outcome)]"
  have "go_le (lg_level \<lparr>lg_level = LevelInfo, lg_useColor = False, lg_component = []\<rparr>) LevelInfo" by simp
  note replay = breaker_log_replays [OF this, of "NewCircuitBreaker 1 0" ?calls]
  have "GetState (foldl call_step (NewCircuitBreaker 1 0) ?calls) = ''half-open''" by code_simp
  moreover have "GetState (NewCircuitBreaker 1 0) = ''closed''" by (simp add: GetState_def NewCircuitBreaker_def)
  ultimately show ?thesis using replay by metis
qed

text \<open>
  C22: the log shows which upstreams are up. The upstreams of a route are checked round after
  round; at the default level a round writes exactly one line for each backend whose status
  has changed, and none for the others, and whoever follows these lines from the registration
  of the route on, when all upstreams count as up, knows the status of every upstream.
\<close>

theorem health_log_replays:
  assumes "lg_level lg = LevelInfo"
  shows "pool_status lib (foldl health_round (route_pool lib cfg algo tc) rounds) =
      foldl health_seen ((\<lambda>_. Some True) |` set (valid_upstreams lib (raw_targets cfg)))
        (filter (shown lg) (run_log health_round (HealthCheck_entries lib) (route_pool lib cfg algo tc) rounds)) \<and>
    length (filter (shown lg) (HealthCheck_entries lib s net)) =
      length (filter (\<lambda>b. IsAlive b \<noteq> IsAlive (check_backend net b)) (sp_backends s))"
proof -
  let ?s = "route_pool lib cfg algo tc"
  have urls: "map (backend_url lib) (sp_backends ?s) = keep_first {} (valid_upstreams lib (raw_targets cfg))"
    by (rule route_pool_urls)
  then have d: "distinct (map (backend_url lib) (sp_backends ?s))" by (simp add: distinct_keep_first)
  have up: "list_all IsAlive (sp_backends ?s)"
    using route_pool_fresh [of cfg tc lib algo] by (auto simp: list_all_iff fresh_backend_def)
  have "pool_status lib ?s = map_of (map (\<lambda>u. (u, True)) (map (backend_url lib) (sp_backends ?s)))"
    using up by (auto simp: pool_status_def list_all_iff comp_def intro!: arg_cong [of _ _ map_of])
  also have "\<dots> = (\<lambda>_. Some True) |` set (valid_upstreams lib (raw_targets cfg))"
    by (simp add: urls map_of_map_restrict set_keep_first comp_def)
  finally show ?thesis
    using health_log.view_run [of lg lib ?s rounds] d assms
    by (simp add: HealthCheck_entries_def filter_map comp_def check_entry_shown)
qed

theorem health_log_replays_witness:
  "pool_status example_urls (foldl health_round (route_pool example_urls (example_route [] ''/'' ''a:1'') ''round-robin'' example_config)
      [\<lparr>net_dial = (\<lambda>_. False), net_get = (\<lambda>_ _. None)\<rparr>]) ''http://a:1'' = Some False"
proof -
  let ?lg = "\<lparr>lg_level = LevelInfo, lg_useColor = False, lg_component = []\<rparr>"
  let ?net = "\<lparr>net_dial = (\<lambda>_. False), net_get = (\<lambda>_ _. None)\<rparr>"
  let ?s = "route_pool example_urls (example_route [] ''/'' ''a:1'') ''round-robin'' example_config"
  have "foldl health_seen ((\<lambda>_. Some True) |` set (valid_upstreams example_urls (raw_targets (example_route [] ''/'' ''a:1''))))
      (filter (shown ?lg) (run_log health_round (HealthCheck_entries example_urls) ?s [?net])) ''http://a:1'' = Some False"
    by code_simp
  moreover have "lg_level ?lg = LevelInfo" by simp
  ultimately show ?thesis
    using health_log_replays [of ?lg example_urls "example_route [] ''/'' ''a:1''" "''round-robin''" example_config "[?net]"
        ?s ?net] by simp
qed

text \<open>
  The log accounts for every configured route: the lines \<open>route registered\<close>
  name exactly the routes of the table, each with the number of its backends, and the lines
  \<open>not registered\<close> name exactly the other configured routes, in the order of the configuration.
\<close>

theorem route_log_complete:
  "let es = concat (map (AddRoute_entries lib quote algo tc) cfgs); sr = build_router lib algo tc cfgs in
     mset (map entry_route (filter (says ''route registered'') es)) =
       mset (map (\<lambda>e. (Some (VString (re_Name e)), Some (VInt (int (length (sp_backends (sr_pools sr ! re_Pool e))))))) (Routes sr)) \<and>
     map (fst \<circ> entry_route) (filter (says ''route has no usable upstream, not registered'') es) =
       map (\<lambda>cfg. Some (VString (ro_Name cfg))) (filter (\<lambda>cfg. valid_upstreams lib (raw_targets cfg) = []) cfgs)"
proof -
  let ?us = "filter (usable lib algo tc) cfgs" and ?sr = "build_router lib algo tc cfgs"
  let ?row = "\<lambda>cfg. (Some (VString (ro_Name cfg)), Some (VInt (int (length (sp_backends (route_pool lib cfg algo tc))))))"
  let ?ent = "\<lambda>e. (Some (VString (re_Name e)), Some (VInt (int (length (sp_backends (sr_pools ?sr ! re_Pool e))))))"
  have "map ?ent (registered lib algo tc cfgs) = map ?row ?us"
    by (rule nth_equalityI) (simp_all add: registered_def Let_def build_router_sorted new_entry_def)
  moreover have "mset (map ?ent (Routes ?sr)) = mset (map ?ent (registered lib algo tc cfgs))"
    by (simp add: Routes_def build_router_sorted)
  moreover have "map entry_route (filter (says ''route registered'') (concat (map (AddRoute_entries lib quote algo tc) cfgs))) =
      map ?row ?us"
    by (simp add: filter_concat map_concat comp_def AddRoute_registered concat_if_single)
  moreover have "map (fst \<circ> entry_route) (filter (says ''route has no usable upstream, not registered'')
      (concat (map (AddRoute_entries lib quote algo tc) cfgs))) =
      map (\<lambda>cfg. Some (VString (ro_Name cfg))) (filter (\<lambda>cfg. \<not> usable lib algo tc cfg) cfgs)"
    using AddRoute_refused [of lib quote algo tc]
    by (induction cfgs) (auto simp: comp_def)
  ultimately show ?thesis by (simp only: Let_def usable_iff not_not)
qed

text \<open>
  No setting is replaced silently. The settings named by the warnings of \<open>LoadConfig\<close> are
  exactly those whose variable is set and cannot be parsed as the integer, boolean or
  duration it should be, and the warning that no route is configured is given exactly if the
  routing table is empty.
\<close>

theorem config_fallbacks_reported:
  "let es = LoadConfig_entries dec routesErr originsErr env; v = Getenv env in
     {k. list_ex (\<lambda>e. kv_get (le_kvs e) ''key'' = Some (VString k)) es} =
       {k. v k \<noteq> [] \<and> (k \<in> set int_settings \<and> Atoi (v k) = None \<or> k \<in> set bool_settings \<and> ParseBool (v k) = None \<or>
             k \<in> set duration_settings \<and> dec_Duration dec (v k) = None)} \<and>
     (list_ex (\<lambda>e. le_msg e = ''no routes configured; every request will get 404'') es \<longleftrightarrow>
        cf_ServiceRoutes (LoadConfig dec env) = [])"
proof -
  let ?es = "LoadConfig_entries dec routesErr originsErr env" and ?v = "Getenv env"
  have "reported_keys ?es = \<Union> (set (map (refused env Atoi) int_settings)) \<union>
      \<Union> (set (map (refused env ParseBool) bool_settings)) \<union>
      \<Union> (set (map (refused env (dec_Duration dec)) duration_settings))"
    by (simp add: LoadConfig_entries_def Let_def int_settings_def bool_settings_def duration_settings_def Un_ac)
  then have "reported_keys ?es =
      {k. ?v k \<noteq> [] \<and> (k \<in> set int_settings \<and> Atoi (?v k) = None \<or> k \<in> set bool_settings \<and> ParseBool (?v k) = None \<or>
            k \<in> set duration_settings \<and> dec_Duration dec (?v k) = None)}"
    by (simp only: set_eq_iff Un_iff refused_union mem_Collect_eq) blast
  then show ?thesis using no_routes_config [of dec routesErr originsErr env] unfolding Let_def reported_keys_def says_no_routes_def [abs_def] by blast
qed

text \<open>
  The variables of a route, in contrast, fall back silently. A value of
  \<open>ROUTE_<NAME>_REQUIRE_AUTH\<close> that is not a boolean for \<open>strconv.ParseBool\<close>, such as \<open>yes\<close>,
  leaves the route open as if the variable were not set, and nothing is logged.
\<close>

theorem require_auth_typo_silent:
  "(ParseBool (TrimSpace v) = None \<longrightarrow>
      env_route name (f(''REQUIRE_AUTH'' \<mapsto> v)) = env_route name (f(''REQUIRE_AUTH'' := None))) \<and>
   (let env = [''ROUTE_A_URL=a:1'', ''ROUTE_A_REQUIRE_AUTH=yes''] in
      map ro_RequireAuth (loadServiceRoutes json env) = [False] \<and> loadServiceRoutes_entries json err env = [])"
proof -
  let ?env = "[''ROUTE_A_URL=a:1'', ''ROUTE_A_REQUIRE_AUTH=yes'']"
  have e: "Getenv ?env ''SERVICE_ROUTES'' = []" "\<not> envOrBool ?env ''ENABLE_VXCLOUD_DEFAULT_ROUTES'' False"
    "envOrBool_entries ?env ''ENABLE_VXCLOUD_DEFAULT_ROUTES'' False = []" "loadEnvNamedRoutes_entries ?env = []"
    "map ro_RequireAuth (loadEnvNamedRoutes ?env) = [False]"
    by code_simp+
  moreover from e(5) have "loadEnvNamedRoutes ?env \<noteq> []" by auto
  ultimately have "map ro_RequireAuth (loadServiceRoutes json ?env) = [False]"
      "loadServiceRoutes_entries json err ?env = []"
    by (simp_all only: loadServiceRoutes_def loadServiceRoutes_entries_def Let_def) simp_all
  then show ?thesis by (auto simp: Let_def env_route_def field_def parseBoolOr_def)
qed

end
