(* ===== verification/Startup_Log.thy ===== *)
theory Startup_Log
  imports Startup Component_Logs
begin

text \<open>
  The log of a start, \<open>main\<close> (\<open>main.go\<close>) up to the point where requests are served, with
  the calls of the configuration, the tracer, the cache and the router in between, in the
  order in which the process makes them; and the log of the end of the process.
\<close>

section \<open>The log calls of \<open>main\<close> and \<open>NewGateway\<close>\<close>

definition tracer_entries :: "('t, 'c) jaeger \<Rightarrow> log_entry list" where
  "tracer_entries NewTracer =
     (case snd (snd (fst (initTracer NewTracer ''api-gateway'' None))) of
        Some err \<Rightarrow> [component_entry ''tracer'' LevelWarn ''Jaeger tracer init failed, tracing disabled''
                      [VString ''error'', VError (Some err)]]
      | None \<Rightarrow> [component_entry ''tracer'' LevelInfo ''Jaeger tracer initialized''
                   [VString ''service'', VString ''api-gateway'']])"

text \<open>\<open>ping\<close> is the error of Redis at start-up, if any.\<close>

definition NewGateway_entries ::
  "url_lib \<Rightarrow> (string \<Rightarrow> string) \<Rightarrow> string option \<Rightarrow> ('t, 'c) jaeger \<Rightarrow> Config \<Rightarrow> log_entry list" where
  "NewGateway_entries urls quote ping NewTracer cfg =
     tracer_entries NewTracer @
     NewCacheManager_entries (cf_RedisAddr cfg) ping (cf_EnableCaching cfg) @
     concat (map (AddRoute_entries urls quote (cf_LoadBalancingAlgo cfg) cfg) (cf_ServiceRoutes cfg))"

definition startup_entries :: "Config \<Rightarrow> log_entry list" where
  "startup_entries cfg =
     [component_entry ''gateway'' LevelInfo ''starting VA API Gateway'' [VString ''version'', VString ''2.0.0''],
      component_entry ''gateway'' LevelInfo ''configuration loaded''
        [VString ''port'', VString (cf_Port cfg),
         VString ''load_balancing'', VString (cf_LoadBalancingAlgo cfg),
         VString ''rate_limit_rps'', VInt (sint (cf_MaxRequestsPerSecond cfg)),
         VString ''burst_size'', VInt (sint (cf_MaxBurstSize cfg)),
         VString ''ddos_threshold'', VInt (sint (cf_DDoSThreshold cfg)),
         VString ''compression'', VBool (cf_EnableCompression cfg),
         VString ''caching'', VBool (cf_EnableCaching cfg)]]"

definition main_entries ::
  "decoders \<Rightarrow> (string \<Rightarrow> string) \<Rightarrow> (string \<Rightarrow> string) \<Rightarrow> url_lib \<Rightarrow> (string \<Rightarrow> string) \<Rightarrow> string option \<Rightarrow>
   ('t, 'c) jaeger \<Rightarrow> environ \<Rightarrow> log_entry list" where
  "main_entries dec routesErr originsErr urls quote ping NewTracer env =
     (let cfg = LoadConfig dec env
      in LoadConfig_entries dec routesErr originsErr env @ startup_entries cfg @
         NewGateway_entries urls quote ping NewTracer cfg)"

section \<open>The log calls while the process ends\<close>

definition main_entry :: "LogLevel \<Rightarrow> string \<Rightarrow> log_value list \<Rightarrow> log_entry" where
  "main_entry level msg kvs = component_entry ''gateway'' level msg kvs"

text \<open>
  The steps of \<open>process_step\<close> with the lines \<open>main\<close> and the serving goroutine log, from the
  moment the server is ready; \<open>err\<close> is the error of \<open>ListenAndServe\<close> or \<open>Shutdown\<close>.
\<close>

inductive process_log :: "Config \<Rightarrow> bool \<Rightarrow> process_state \<Rightarrow> log_entry list \<Rightarrow> bool" for cfg terminal where
  ready: "process_log cfg terminal (started terminal)
    [main_entry LevelInfo ''all systems ready'' [VString ''listen'', VString (''http://localhost'' @ cf_Port cfg)]]"
| signal: "process_log cfg terminal s es \<Longrightarrow> ps_exit s = None \<Longrightarrow> ps_main s = AwaitSignal \<Longrightarrow>
    process_log cfg terminal (s\<lparr>ps_main := InShutdown\<rparr>)
      (es @ [main_entry LevelInfo ''shutdown signal received, shutting down gateway'' []])"
| listen_error: "process_log cfg terminal s es \<Longrightarrow> ps_exit s = None \<Longrightarrow> ps_listen s = Serving \<Longrightarrow>
    process_log cfg terminal (s\<lparr>ps_exit := Some 1\<rparr>)
      (es @ [main_entry LevelError ''server error'' [VString ''error'', VError (Some err)]])"
| listen_closed: "process_log cfg terminal s es \<Longrightarrow> ps_exit s = None \<Longrightarrow> ps_main s = InShutdown \<Longrightarrow> ps_listen s = Serving \<Longrightarrow>
    process_log cfg terminal (s\<lparr>ps_listen := Closed\<rparr>) es"
| dash_stop: "process_log cfg terminal s es \<Longrightarrow> ps_exit s = None \<Longrightarrow> ps_listen s = Closed \<Longrightarrow>
    process_log cfg terminal (s\<lparr>ps_listen := DashboardStopped, ps_hidden := False\<rparr>) es"
| shutdown_done: "process_log cfg terminal s es \<Longrightarrow> ps_exit s = None \<Longrightarrow> ps_main s = InShutdown \<Longrightarrow>
    process_log cfg terminal (s\<lparr>ps_closed := True, ps_exit := Some 0\<rparr>) (es @ [main_entry LevelInfo ''gateway stopped'' []])"
| shutdown_failed: "process_log cfg terminal s es \<Longrightarrow> ps_exit s = None \<Longrightarrow> ps_main s = InShutdown \<Longrightarrow>
    process_log cfg terminal (s\<lparr>ps_exit := Some 1\<rparr>)
      (es @ [main_entry LevelError ''graceful shutdown failed'' [VString ''error'', VError (Some err)]])"

text \<open>The lines are no restriction: the states are those of \<open>process_step\<close>.\<close>

lemma process_log_reachable: "process_log cfg terminal s es \<Longrightarrow> reachable terminal s"
  by (induction rule: process_log.induct) (blast intro: reachable.intros process_step.intros)+

lemma reachable_process_log: "reachable terminal s \<Longrightarrow> \<exists>es. process_log cfg terminal s es"
proof (induction rule: reachable.induct)
  case (step s t)
  then obtain es where "process_log cfg terminal s es" by blast
  with step.hyps(2) show ?case by cases (blast intro: process_log.intros)+
qed (blast intro: process_log.ready)

section \<open>Which component says what\<close>

definition from_components :: "string set \<Rightarrow> log_entry list \<Rightarrow> bool" where
  "from_components cs es \<longleftrightarrow> (\<forall>e \<in> set es. le_component e \<in> cs)"

lemma from_components_simps [simp]:
  "from_components cs []" "from_components cs (e # es) \<longleftrightarrow> le_component e \<in> cs \<and> from_components cs es"
  "from_components cs (es @ fs) \<longleftrightarrow> from_components cs es \<and> from_components cs fs"
  by (auto simp: from_components_def)

lemma from_env [simp]:
  "from_components {''config''} (envOrInt_entries env key i)" "from_components {''config''} (envOrBool_entries env key b)"
  "from_components {''config''} (envOrDuration_entries parse env key d)"
  "from_components {''config''} (loadCorsOrigins_entries json err env)"
  "from_components {''config''} (loadEnvNamedRoutes_entries env)"
  by (simp_all add: envOrInt_entries_def envOrBool_entries_def envOrDuration_entries_def loadCorsOrigins_entries_def
      loadEnvNamedRoutes_entries_def Let_def split: option.split) (auto simp: from_components_def)

lemma from_service_routes [simp]: "from_components {''config''} (loadServiceRoutes_entries json err env)"
  by (simp add: loadServiceRoutes_entries_def Let_def split: option.split)

lemma from_config: "from_components {''config''} (LoadConfig_entries dec routesErr originsErr env)"
  by (simp add: LoadConfig_entries_def Let_def)

lemma from_router: "from_components {''router''} (concat (map (AddRoute_entries lib quote algo tc) cfgs))"
  by (auto simp: AddRoute_entries_def target_entries_def registered_entry_def Let_def from_components_def
      split: sum.splits if_splits)

lemma from_cache: "from_components {''cache''} (NewCacheManager_entries addr ping enable)"
  by (auto simp: NewCacheManager_entries_def split: option.split)

lemma from_components_filter:
  "from_components cs es \<Longrightarrow> (\<And>e. le_component e \<in> cs \<Longrightarrow> \<not> P e) \<Longrightarrow> filter P es = []"
  by (auto simp: from_components_def filter_empty_conv)

lemma main_entries_of:
  assumes "\<And>e. le_component e \<noteq> c \<Longrightarrow> \<not> P e"
  shows "filter P (main_entries dec routesErr originsErr urls quote ping NewTracer env) =
    (let cfg = LoadConfig dec env in
     (if c = ''config'' then filter P (LoadConfig_entries dec routesErr originsErr env) else []) @
     (if c = ''gateway'' then filter P (startup_entries cfg) else []) @
     (if c = ''tracer'' then filter P (tracer_entries NewTracer) else []) @
     (if c = ''cache'' then filter P (NewCacheManager_entries (cf_RedisAddr cfg) ping (cf_EnableCaching cfg)) else []) @
     (if c = ''router'' then filter P (concat (map (AddRoute_entries urls quote (cf_LoadBalancingAlgo cfg) cfg) (cf_ServiceRoutes cfg)))
      else []))"
proof -
  have skip: "filter P es = []" if "from_components {d} es" "d \<noteq> c" for d es
    using that assms by (intro from_components_filter) auto
  have g: "from_components {''gateway''} (startup_entries cfg)" for cfg by (simp add: startup_entries_def)
  have t: "from_components {''tracer''} (tracer_entries NewTracer)" by (simp add: tracer_entries_def split: option.split)
  show ?thesis
    using skip [OF from_config] skip [OF from_cache] skip [OF from_router] skip [OF g] skip [OF t]
    by (simp add: main_entries_def NewGateway_entries_def Let_def)
qed

lemma main_component:
  "filter (\<lambda>e. le_component e = ''gateway'') (main_entries dec routesErr originsErr urls quote ping NewTracer env) =
     startup_entries (LoadConfig dec env)"
  "filter (\<lambda>e. le_component e = ''tracer'') (main_entries dec routesErr originsErr urls quote ping NewTracer env) =
     tracer_entries NewTracer"
  by (simp_all add: main_entries_of [of "''gateway''" "\<lambda>e. le_component e = ''gateway''"]
      main_entries_of [of "''tracer''" "\<lambda>e. le_component e = ''tracer''"] startup_entries_def tracer_entries_def
      Let_def split: option.split)

text \<open>Lines of a component with a given message.\<close>

definition line_of :: "string \<Rightarrow> string \<Rightarrow> log_entry \<Rightarrow> bool" where
  "line_of c msg e \<longleftrightarrow> le_component e = c \<and> says msg e"

lemma not_line_of: "le_component e \<noteq> c \<Longrightarrow> \<not> line_of c msg e"
  by (simp add: line_of_def)

lemma line_of_within: "from_components {c} es \<Longrightarrow> filter (line_of c msg) es = filter (says msg) es"
  by (auto simp: from_components_def line_of_def intro!: filter_cong)

lemma emit_startup: "concat (map (emit_entry lg ts) (startup_entries cfg)) = startup_log lg ts ts cfg"
  by (simp add: startup_entries_def startup_log_def emit_entry_def lg_Info_def Let_def)

lemma emit_tracer: "concat (map (emit_entry lg ts) (tracer_entries NewTracer)) = snd (snd (gateway_tracer NewTracer lg ts None))"
  by (simp add: tracer_entries_def gateway_tracer_def emit_entry_def lg_Info_def lg_Warn_def split: prod.split option.split)

section \<open>Properties\<close>

text \<open>
  C18: the start-up log tells what was started. The router's lines \<open>route registered\<close> name
  exactly the routes of the table the gateway is started with, each with the number of its
  backends; the line \<open>Redis connected\<close> is written exactly if the cache is enabled, and the
  warning that no route is configured exactly if the configuration has none; the lines of \<open>main\<close>
  and of the tracer are those recorded for the process.
\<close>

theorem startup_log_complete:
  "let es = main_entries dec routesErr originsErr urls quote ping NewTracer env;
       p = main_start dec urls rateLimit (ping = None) NewTracer ts ts ts lg env;
       sr = gw_router (st_gateway p);
       emitted = (\<lambda>c. concat (map (emit_entry lg ts) (filter (\<lambda>e. le_component e = c) es)))
   in mset (map entry_route (filter (line_of ''router'' ''route registered'') es)) =
        mset (map (\<lambda>e. (Some (VString (re_Name e)), Some (VInt (int (length (sp_backends (sr_pools sr ! re_Pool e))))))) (Routes sr)) \<and>
      (filter (line_of ''cache'' ''Redis connected'') es \<noteq> [] \<longleftrightarrow> cm_enable (gw_cacheManager (st_gateway p))) \<and>
      (filter (line_of ''config'' ''no routes configured; every request will get 404'') es \<noteq> [] \<longleftrightarrow>
         cf_ServiceRoutes (st_cfg p) = []) \<and>
      st_log p = emitted ''gateway'' @ emitted ''tracer''"
proof -
  let ?cfg = "LoadConfig dec env" and ?es = "main_entries dec routesErr originsErr urls quote ping NewTracer env"
  let ?p = "main_start dec urls rateLimit (ping = None) NewTracer ts ts ts lg env"
  let ?reg = "concat (map (AddRoute_entries urls quote (cf_LoadBalancingAlgo ?cfg) ?cfg) (cf_ServiceRoutes ?cfg))"
  let ?emitted = "\<lambda>c. concat (map (emit_entry lg ts) (filter (\<lambda>e. le_component e = c) ?es))"
  have p: "st_cfg ?p = ?cfg" "gw_router (st_gateway ?p) = build_router urls (cf_LoadBalancingAlgo ?cfg) ?cfg (cf_ServiceRoutes ?cfg)"
    "gw_cacheManager (st_gateway ?p) = NewCacheManager (ping = None) (cf_CacheTTL ?cfg) (cf_EnableCaching ?cfg)"
    by (simp_all add: main_start_def NewGateway_def build_router_def Let_def split: prod.split)
  note of_line = main_entries_of [of c "line_of c msg" for c msg, OF not_line_of]
  have "filter (line_of ''router'' ''route registered'') ?es = filter (says ''route registered'') ?reg"
    by (simp add: of_line Let_def line_of_within [OF from_router])
  moreover have "filter (line_of ''cache'' ''Redis connected'') ?es \<noteq> [] \<longleftrightarrow> cm_enable (gw_cacheManager (st_gateway ?p))"
    by (simp add: of_line Let_def p NewCacheManager_entries_def NewCacheManager_def split: option.split)
      (simp add: line_of_def says_def)
  moreover have "filter (line_of ''config'' ''no routes configured; every request will get 404'') ?es \<noteq> [] \<longleftrightarrow>
      cf_ServiceRoutes (st_cfg ?p) = []"
    using no_routes_config [of dec routesErr originsErr env]
    by (simp add: of_line Let_def p line_of_within [OF from_config] filter_empty_conv list_ex_iff says_no_routes_def says_def)
  moreover have "?emitted ''gateway'' = startup_log lg ts ts ?cfg" "?emitted ''tracer'' = snd (snd (gateway_tracer NewTracer lg ts None))"
    by (simp_all add: main_component emit_startup emit_tracer)
  then have "st_log ?p = ?emitted ''gateway'' @ ?emitted ''tracer''"
    by (simp add: main_start_def Let_def split: prod.split)
  ultimately show ?thesis
    using route_log_complete [of urls quote "cf_LoadBalancingAlgo ?cfg" ?cfg "cf_ServiceRoutes ?cfg"]
    by (simp only: Let_def p)
qed

text \<open>
  The last line tells how the process ended: it has exited with status 0 exactly if the last
  line is \<open>gateway stopped\<close>, and with status 1 exactly if the last line is an error.
\<close>

theorem exit_status_logged:
  assumes "process_log cfg terminal s es"
  shows "(ps_exit s = Some 0 \<longleftrightarrow> le_msg (last es) = ''gateway stopped'') \<and>
    (ps_exit s = Some 1 \<longleftrightarrow> le_level (last es) = LevelError)"
  using assms
proof (induction rule: process_log.induct)
  case ready
  then show ?case by (simp add: main_entry_def started_def level_defs)
qed (auto simp: main_entry_def level_defs)

end
