(* ===== verification/Request_Trace.thy ===== *)
theory Request_Trace
  imports Component_Logs Gateway_Retry
begin

text \<open>
  What an observer sees of one run of \<open>ServeHTTP\<close> (\<open>main.go\<close>): the log calls and the calls on
  the tracing span, in order, along the same branches as the handler of \<open>Gateway\<close>. The main
  results relate this trace to the request counter and to the response.
\<close>

section \<open>Observations\<close>

datatype observation =
    Logged log_entry
  | SpanStart string
  | SpanTag string log_value
  | SpanFinish

text \<open>
  What the handler of \<open>Gateway\<close> does not need: the texts of URLs, whether there is a tracer,
  and the milliseconds since the start of the request when an attempt succeeds, or when the
  last one has failed.
\<close>

record ('r, 'l, 'f) TraceEnv =
  te_env :: "('r, 'l, 'f) Env"
  te_urls :: url_lib
  te_tracer :: bool
  te_completedMs :: "nat \<Rightarrow> int"
  te_failedMs :: int

text \<open>The calls of \<open>reqLog\<close>, and the calls on \<open>span\<close>, which are made if there is one.\<close>

definition reqLog :: "string \<Rightarrow> LogLevel \<Rightarrow> string \<Rightarrow> log_value list \<Rightarrow> observation" where
  "reqLog requestID level msg kvs =
     Logged \<lparr>le_component = ''gateway'', le_level = level, le_requestID = requestID, le_msg = msg, le_kvs = kvs\<rparr>"

definition span_tags :: "('r, 'l, 'f) TraceEnv \<Rightarrow> (string \<times> log_value) list \<Rightarrow> observation list" where
  "span_tags te tags = (if te_tracer te then map (\<lambda>(k, v). SpanTag k v) tags else [])"

text \<open>
  Tags that are set after the request was counted are not reached if the counter refuses its
  labels and panics.
\<close>

definition counted_tags ::
  "('r, 'l, 'f) TraceEnv \<Rightarrow> Request \<Rightarrow> int \<Rightarrow> (string \<times> log_value) list \<Rightarrow> observation list" where
  "counted_tags te r status tags =
     (if en_labels (te_env te) requestsTotal [req_Method r, req_Path r, Itoa status] then span_tags te tags else [])"

definition error_tags :: "string \<Rightarrow> (string \<times> log_value) list" where
  "error_tags msg = [(''error'', VBool True), (''error.message'', VString msg)]"

section \<open>The attempts\<close>

fun attempt_trace ::
  "('r, 'l, 'f) TraceEnv \<Rightarrow> string \<Rightarrow> MatchedRoute \<Rightarrow> duration \<Rightarrow> string \<Rightarrow> nat list \<Rightarrow> nat \<Rightarrow> string option \<Rightarrow>
   CircuitBreaker \<Rightarrow> Flight \<Rightarrow> observation list" where
  "attempt_trace te requestID m timeout ip [] backend lastErr cb fl =
     (let r = fl_req fl
      in reqLog requestID LevelError ''request failed after retries''
           [VString ''method'', VString (req_Method r), VString ''path'', VString (req_Path r),
            VString ''host'', VString (req_Host r), VString ''route'', VString (mr_Name m),
            VString ''duration_ms'', VInt (te_failedMs te), VString ''error'', VError lastErr] #
         counted_tags te r 503 ((''error'', VBool True) #
           (case lastErr of None \<Rightarrow> [] | Some err \<Rightarrow> [(''error.message'', VString err)])))"
| "attempt_trace te requestID m timeout ip (attempt # rest) backend lastErr cb fl =
     (let env = te_env te in
      case Call (en_admit env attempt) (en_settle env attempt)
             (proxy_attempt env attempt timeout ip backend) cb fl of
        ((cb1, fl1), out, tripped) \<Rightarrow>
          map Logged (Call_entries (en_admit env attempt) out cb) @
          (case out of
             Success \<Rightarrow>
               (let r = fl_req fl1; status = rr_Status (fl_rec fl1)
                in reqLog requestID LevelInfo ''request completed''
                     [VString ''method'', VString (req_Method r), VString ''path'', VString (req_Path r),
                      VString ''host'', VString (req_Host r), VString ''route'', VString (mr_Name m),
                      VString ''backend'', VString (backend_url (te_urls te) (sp_backends (fl_pool fl1) ! backend)),
                      VString ''status'', VInt status, VString ''duration_ms'', VInt (te_completedMs te attempt)] #
                   counted_tags te r status [(''http.status_code'', VInt status)])
           | Panicked \<Rightarrow> []
           | Failure err \<Rightarrow>
               (let fl2 = fl1\<lparr>fl_pool := upd_backend (RecordFailure (en_failed env attempt)) backend (fl_pool fl1)\<rparr>;
                    url = backend_url (te_urls te) (sp_backends (fl_pool fl2) ! backend)
                in reqLog requestID LevelWarn ''backend attempt failed''
                     [VString ''attempt'', VInt (int attempt + 1), VString ''max_retries'', VInt 3,
                      VString ''backend'', VString url, VString ''error'', VError (Some err)] #
                   (if rr_Committed (fl_rec fl2) then
                      [reqLog requestID LevelError ''upstream failed mid-response; cannot retry''
                         [VString ''backend'', VString url, VString ''status'', VInt (rr_Status (fl_rec fl2))]]
                    else if attempt < 2 then
                      (case NextPeer (en_digest env) (fl_pool fl2) ip of
                         Inl p \<Rightarrow> []
                       | Inr (pool, peer) \<Rightarrow>
                           attempt_trace te requestID m timeout ip rest
                             (case peer of None \<Rightarrow> backend | Some nxt \<Rightarrow> nxt) (Some err) cb1 (fl2\<lparr>fl_pool := pool\<rparr>))
                    else attempt_trace te requestID m timeout ip rest backend (Some err) cb1 fl2))))"

section \<open>The handler\<close>

definition dispatch_trace ::
  "('r, 'l, 'f) TraceEnv \<Rightarrow> ('r, 'l) Gateway \<Rightarrow> ResponseWriter \<Rightarrow> Request \<Rightarrow> string \<Rightarrow> string \<Rightarrow> MatchedRoute \<Rightarrow>
   observation list" where
  "dispatch_trace te gw w r requestID ip m =
     (case NextPeer (en_digest (te_env te)) (sr_pools (gw_router gw) ! mr_Pool m) ip of
        Inl p \<Rightarrow> []
      | Inr (pool, None) \<Rightarrow>
          reqLog requestID LevelError ''no healthy backends available''
            [VString ''path'', VString (req_Path r), VString ''method'', VString (req_Method r)] #
          counted_tags te r 503 (error_tags ''No backends available'')
      | Inr (pool, Some backend) \<Rightarrow>
          (let url = backend_url (te_urls te) (sp_backends pool ! backend);
               r1 = (if mr_BackendPath m \<noteq> req_Path r
                     then r\<lparr>req_Path := mr_BackendPath m, req_RawPath := mr_BackendPath m\<rparr> else r);
               fl = \<lparr>fl_pool = pool, fl_rec = newResponseRecorder w, fl_req = r1,
                     fl_active = mt_active (gw_metrics gw)\<rparr>
           in reqLog requestID LevelDebug ''backend selected''
                [VString ''backend'', VString url, VString ''path'', VString (req_Path r)] #
              span_tags te [(''backend'', VString url)] @
              attempt_trace te requestID m (route_deadline (gw_cfg gw) m) ip [0, 1, 2] backend None
                (gw_circuitBreaker gw) fl))"

definition cached_trace ::
  "('r, 'l, 'f) TraceEnv \<Rightarrow> ('r, 'l) Gateway \<Rightarrow> ResponseWriter \<Rightarrow> Request \<Rightarrow> string \<Rightarrow> string \<Rightarrow> MatchedRoute \<Rightarrow>
   observation list" where
  "cached_trace te gw w r requestID ip m =
     (if req_Method r = ''GET'' \<and> cf_EnableCaching (gw_cfg gw) then
        (let key = GenerateKey r; redis = en_redis (te_env te); cm = gw_cacheManager gw
         in map Logged (cache_Get_entries redis cm key) @
            (case cache_Get redis cm key of
               Some cached \<Rightarrow>
                 reqLog requestID LevelInfo ''request served from cache''
                   [VString ''path'', VString (req_Path r), VString ''method'', VString (req_Method r),
                    VString ''cache'', VString ''HIT''] #
                 counted_tags te r 200 [(''cache'', VString ''hit'')]
             | None \<Rightarrow>
                 reqLog requestID LevelDebug ''cache miss''
                   [VString ''path'', VString (req_Path r), VString ''key'', VString key] #
                 dispatch_trace te gw (set_header ''X-Cache'' ''MISS'' w) r requestID ip m))
      else dispatch_trace te gw w r requestID ip m)"

definition authorize_trace ::
  "('r, 'l, 'f) TraceEnv \<Rightarrow> ('r, 'l) Gateway \<Rightarrow> ResponseWriter \<Rightarrow> Request \<Rightarrow> string \<Rightarrow> string \<Rightarrow> MatchedRoute \<Rightarrow>
   observation list" where
  "authorize_trace te gw w r requestID ip m =
     (case authenticate (te_env te) (gw_cfg gw) r of (authenticated, userID) \<Rightarrow>
        if mr_RequireAuth m \<and> \<not> isPublicEndpoint (req_Path r) \<and> \<not> authenticated then
          reqLog requestID LevelWarn ''request rejected''
            [VString ''reason'', VString ''unauthorized'', VString ''path'', VString (req_Path r),
             VString ''method'', VString (req_Method r)] #
          counted_tags te r 401 (error_tags ''Unauthorized'')
        else span_tags te (if userID \<noteq> [] then [(''user.id'', VString userID)] else []) @
             cached_trace te gw w r requestID ip m)"

text \<open>The three refusals before routing differ in their reason and the tag only.\<close>

definition refused_trace ::
  "('r, 'l, 'f) TraceEnv \<Rightarrow> Request \<Rightarrow> string \<Rightarrow> string \<Rightarrow> string \<Rightarrow> string \<Rightarrow> observation list" where
  "refused_trace te r requestID ip reason tag =
     reqLog requestID LevelWarn ''request rejected''
       [VString ''reason'', VString reason, VString ''client_ip'', VString ip,
        VString ''method'', VString (req_Method r), VString ''path'', VString (req_Path r)] #
     counted_tags te r 429 (error_tags tag)"

definition ServeHTTP_trace ::
  "('r, 'l, 'f) TraceEnv \<Rightarrow> ('r, 'l) Gateway \<Rightarrow> ResponseWriter \<Rightarrow> Request \<Rightarrow> observation list" where
  "ServeHTTP_trace te gw w r =
     (let env = te_env te;
          requestID = Header_Get (req_Header r) ''x-request-id'';
          ip = getClientIP r;
          (d1, blocked) = IsBlocked (en_nowBlock env) (gw_ddosProtection gw) ip;
          (d2, justBlocked) = RecordRequest (en_nowRecord env) d1 ip;
          (lim, allowed) = limiter_allow (en_rate env) (en_nowAllow env) (gw_rateLimiter gw) ip
      in [reqLog requestID LevelDebug ''request started''
            [VString ''method'', VString (req_Method r), VString ''path'', VString (req_Path r),
             VString ''client_ip'', VString ip]] @
         (if te_tracer te then [SpanStart ''gateway.request''] else []) @
         span_tags te [(''method'', VString (req_Method r)), (''path'', VString (req_Path r))] @
         (if blocked then refused_trace te r requestID ip ''IP blocked'' ''IP blocked''
          else
            map Logged (RecordRequest_entries (en_nowRecord env) d1 ip) @
            (if justBlocked then refused_trace te r requestID ip ''DDoS protection triggered'' ''DDoS triggered''
             else if \<not> allowed then refused_trace te r requestID ip ''rate limit exceeded'' ''Rate limit exceeded''
             else case Route (gw_router gw) (req_Host r) (req_Path r) of
                 None \<Rightarrow>
                   [reqLog requestID LevelInfo ''request rejected''
                      [VString ''reason'', VString ''no route matched'', VString ''host'', VString (req_Host r),
                       VString ''path'', VString (req_Path r), VString ''method'', VString (req_Method r)]]
               | Some m \<Rightarrow> authorize_trace te gw w r requestID ip m)) @
         (if te_tracer te then [SpanFinish] else []))"

section \<open>The line that reports the outcome\<close>

text \<open>
  The lines the handler writes at its returns. Two of them carry the status in a field; for
  the others the message, with the reason if there is one, stands for the status of the
  return it is written at, as the table says.
\<close>

definition outcome_line :: "log_entry \<Rightarrow> bool" where
  "outcome_line e \<longleftrightarrow> le_component e = ''gateway'' \<and>
     le_msg e \<in> {''request completed'', ''upstream failed mid-response; cannot retry'', ''request rejected'',
       ''request served from cache'', ''no healthy backends available'', ''request failed after retries''}"

definition silent_outcomes :: "((string \<times> log_value option) \<times> int) list" where
  "silent_outcomes =
     [((''request rejected'', Some (VString ''IP blocked'')), 429),
      ((''request rejected'', Some (VString ''DDoS protection triggered'')), 429),
      ((''request rejected'', Some (VString ''rate limit exceeded'')), 429),
      ((''request rejected'', Some (VString ''no route matched'')), 404),
      ((''request rejected'', Some (VString ''unauthorized'')), 401),
      ((''request served from cache'', None), 200),
      ((''no healthy backends available'', None), 503),
      ((''request failed after retries'', None), 503)]"

definition fits :: "log_entry \<Rightarrow> int \<Rightarrow> bool" where
  "fits e status \<longleftrightarrow>
     (case kv_get (le_kvs e) ''status'' of
        Some v \<Rightarrow> v = VInt status
      | None \<Rightarrow> map_of silent_outcomes (le_msg e, kv_get (le_kvs e) ''reason'') = Some status)"

text \<open>The outcome lines a logger writes.\<close>

fun ob_lines :: "Logger \<Rightarrow> observation \<Rightarrow> log_entry list" where
  "ob_lines lg (Logged e) = (if shown lg e \<and> outcome_line e then [e] else [])"
| "ob_lines lg ob = []"

definition outcome_lines :: "Logger \<Rightarrow> observation list \<Rightarrow> log_entry list" where
  "outcome_lines lg obs = concat (map (ob_lines lg) obs)"

definition reports :: "Logger \<Rightarrow> observation list \<Rightarrow> int \<Rightarrow> bool" where
  "reports lg obs status \<longleftrightarrow> (\<exists>e. outcome_lines lg obs = [e] \<and> fits e status)"

lemma outcome_lines_simps [simp]:
  "outcome_lines lg [] = []" "outcome_lines lg (ob # obs) = ob_lines lg ob @ outcome_lines lg obs"
  "outcome_lines lg (obs @ obs') = outcome_lines lg obs @ outcome_lines lg obs'"
  by (simp_all add: outcome_lines_def)

lemma outcome_lines_tags [simp]:
  "outcome_lines lg (span_tags te tags) = []" "outcome_lines lg (counted_tags te r status tags) = []"
  by (auto simp: outcome_lines_def span_tags_def counted_tags_def)

lemma outcome_lines_components [simp]:
  "outcome_lines lg (map Logged (Call_entries t out cb)) = []"
  "outcome_lines lg (map Logged (cache_Get_entries redis cm key)) = []"
  "outcome_lines lg (map Logged (RecordRequest_entries t d ip)) = []"
  by (cases out; auto simp: outcome_lines_def Call_entries_def admit_entries_def transition_entry_def Let_def
      outcome_line_def split: option.split)
    (auto simp: outcome_lines_def cache_Get_entries_def RecordRequest_entries_def outcome_line_def
      split: redis_reply.split prod.split)

lemma reports_skip [simp]:
  "ob_lines lg ob = [] \<Longrightarrow> reports lg (ob # obs) status = reports lg obs status"
  "outcome_lines lg pre = [] \<Longrightarrow> reports lg (pre @ obs) status = reports lg obs status"
  "outcome_lines lg post = [] \<Longrightarrow> reports lg (obs @ post) status = reports lg obs status"
  by (simp_all add: reports_def)

text \<open>An outcome line at level info or above, followed by tags, reports a status that fits it.\<close>

lemma reports_line:
  assumes "go_le (lg_level lg) LevelInfo" and "go_le LevelInfo level"
    and "outcome_line \<lparr>le_component = ''gateway'', le_level = level, le_requestID = rid, le_msg = msg, le_kvs = kvs\<rparr>"
    and "fits \<lparr>le_component = ''gateway'', le_level = level, le_requestID = rid, le_msg = msg, le_kvs = kvs\<rparr> status"
    and "outcome_lines lg obs = []"
  shows "reports lg (reqLog rid level msg kvs # obs) status"
  using assms by (auto simp: reports_def reqLog_def shown_def)

lemmas line_simps = outcome_line_def fits_def silent_outcomes_def level_defs

lemma ob_lines_other [simp]:
  "ob_lines lg (reqLog rid level ''request started'' kvs) = []"
  "ob_lines lg (reqLog rid level ''cache miss'' kvs) = []"
  "ob_lines lg (reqLog rid level ''backend selected'' kvs) = []"
  "ob_lines lg (reqLog rid level ''backend attempt failed'' kvs) = []"
  by (simp_all add: reqLog_def outcome_line_def)

fun end_statuses :: "loop_end \<Rightarrow> int \<Rightarrow> int list" where
  "end_statuses (Completed b) status = [status]"
| "end_statuses MidResponse status = [status]"
| "end_statuses (Exhausted err) status = [503]"
| "end_statuses Aborted status = []"

lemma attempt_reports:
  assumes "attempt_loop (te_env te) timeout ip ks b lastErr cb fl = Inr (cb', fl', n, sleeps, e)"
    and lg: "go_le (lg_level lg) LevelInfo" and "end_statuses e (rr_Status (fl_rec fl')) = [status]"
  shows "reports lg (attempt_trace te rid m timeout ip ks b lastErr' cb fl) status"
  using assms(1)
proof (induction ks arbitrary: b lastErr lastErr' cb fl n sleeps)
  case Nil
  with assms(3) show ?case by (auto simp: Let_def line_simps intro!: reports_line [OF lg])
next
  case (Cons k ks)
  obtain cb1 fl1 out tripped where c: "Call (en_admit (te_env te) k) (en_settle (te_env te) k)
      (proxy_attempt (te_env te) k timeout ip b) cb fl = ((cb1, fl1), out, tripped)"
    by (metis prod.collapse)
  show ?case
  proof (cases out)
    case (Failure err)
    from Cons.prems c Failure assms(3) show ?thesis
      by (auto simp: Let_def Cons.IH map_sum_Inr_iff line_simps intro!: reports_line [OF lg]
          split: if_splits sum.splits prod.splits)
  qed (use Cons.prems c assms(3) in \<open>auto simp: Let_def line_simps intro!: reports_line [OF lg]\<close>)
qed

section \<open>The tags of the span\<close>

text \<open>
  What a reader of the span can tell about the status: an error tag stands for one of the
  gateway's own refusals, else a status tag is the status, else a cache tag stands for 200;
  with none of them the request had no route, or the response broke off half-way.
\<close>

definition error_tag :: observation where
  "error_tag = SpanTag ''error'' (VBool True)"

fun mid_line :: "observation \<Rightarrow> bool" where
  "mid_line (Logged e) \<longleftrightarrow> le_component e = ''gateway'' \<and> le_msg e = ''upstream failed mid-response; cannot retry''"
| "mid_line ob \<longleftrightarrow> False"

definition spanned :: "bool \<Rightarrow> observation list \<Rightarrow> int \<Rightarrow> bool" where
  "spanned unrouted obs status \<longleftrightarrow>
     (if error_tag \<in> set obs then status \<in> {401, 429, 503}
      else if \<exists>v. SpanTag ''http.status_code'' v \<in> set obs
      then \<forall>v. SpanTag ''http.status_code'' v \<in> set obs \<longrightarrow> v = VInt status
      else if SpanTag ''cache'' (VString ''hit'') \<in> set obs then status = 200
      else list_ex mid_line obs \<or> status = 404 \<and> unrouted)"

text \<open>The observations that matter for this.\<close>

fun marking :: "observation \<Rightarrow> bool" where
  "marking (SpanTag k v) \<longleftrightarrow> k \<in> {''error'', ''http.status_code'', ''cache''}"
| "marking ob \<longleftrightarrow> mid_line ob"

definition quiet :: "observation list \<Rightarrow> bool" where
  "quiet obs \<longleftrightarrow> \<not> list_ex marking obs"

lemma quiet_not:
  assumes "quiet obs"
  shows "error_tag \<notin> set obs" "SpanTag ''http.status_code'' v \<notin> set obs" "SpanTag ''cache'' v \<notin> set obs"
    "\<not> list_ex mid_line obs"
proof -
  have "mid_line ob \<Longrightarrow> marking ob" for ob by (cases ob) simp_all
  with assms show "\<not> list_ex mid_line obs" by (auto simp: quiet_def list_ex_iff)
qed (use assms in \<open>auto simp: quiet_def list_ex_iff error_tag_def\<close>)

lemma spanned_quiet:
  assumes "quiet pre"
  shows "spanned un (pre @ obs) status = spanned un obs status" "spanned un (obs @ pre) status = spanned un obs status"
  using quiet_not [OF assms] by (simp_all add: spanned_def)

lemma spanned_Cons: "quiet [ob] \<Longrightarrow> spanned un (ob # obs) status = spanned un obs status"
  using spanned_quiet(1) [of "[ob]"] by simp

lemma quiet_reqLog:
  "quiet [reqLog rid level msg kvs] \<longleftrightarrow> msg \<noteq> ''upstream failed mid-response; cannot retry''"
  by (simp add: quiet_def reqLog_def)

lemma quiet_components [simp]:
  "quiet (map Logged (Call_entries t out cb))" "quiet (map Logged (cache_Get_entries redis cm key))"
  "quiet (map Logged (RecordRequest_entries t d ip))"
  by (cases out; auto simp: quiet_def Call_entries_def admit_entries_def transition_entry_def Let_def
      split: option.split)
    (auto simp: quiet_def cache_Get_entries_def RecordRequest_entries_def split: redis_reply.split prod.split)

lemma quiet_tags [simp]:
  "''error'' \<notin> fst ` set tags \<Longrightarrow> ''http.status_code'' \<notin> fst ` set tags \<Longrightarrow> ''cache'' \<notin> fst ` set tags \<Longrightarrow>
   quiet (span_tags te tags)"
  by (force simp: quiet_def span_tags_def list_ex_iff image_iff)

lemma finished_labels:
  assumes "leave env r w (counted env r status gw) = Inr (gw', w', Finished)"
  shows "en_labels env requestsTotal [req_Method r, req_Path r, Itoa status]"
  using assms by (auto simp: leave_def observed_def counted_def split: if_splits)

text \<open>The tags of a return, set when the counter has accepted its labels.\<close>

lemma spanned_return:
  assumes "te_tracer te" and "en_labels (te_env te) requestsTotal [req_Method r, req_Path r, Itoa status]"
  shows "status \<in> {401, 429, 503} \<Longrightarrow> spanned un (ob # counted_tags te r status ((''error'', VBool True) # tags)) status"
    "quiet [ob] \<Longrightarrow> spanned un (ob # counted_tags te r status [(''http.status_code'', VInt status)]) status"
    "quiet [ob] \<Longrightarrow> status = 200 \<Longrightarrow> spanned un (ob # counted_tags te r 200 [(''cache'', VString ''hit'')]) 200"
proof -
  show "spanned un (ob # counted_tags te r status ((''error'', VBool True) # tags)) status" if "status \<in> {401, 429, 503}"
    using assms that by (simp add: spanned_def error_tag_def counted_tags_def span_tags_def)
  show "spanned un (ob # counted_tags te r status [(''http.status_code'', VInt status)]) status" if "quiet [ob]"
    using assms by (simp add: spanned_Cons [OF that]) (simp add: spanned_def error_tag_def counted_tags_def span_tags_def)
  show "spanned un (ob # counted_tags te r 200 [(''cache'', VString ''hit'')]) 200" if "quiet [ob]" "status = 200"
    using assms that(2) by (simp add: spanned_Cons [OF that(1)]) (simp add: spanned_def error_tag_def counted_tags_def span_tags_def)
qed

lemma attempt_spanned:
  assumes "attempt_loop (te_env te) timeout ip ks b lastErr cb fl = Inr (cb', fl', n, sleeps, e)"
    and "te_tracer te" and "end_statuses e (rr_Status (fl_rec fl')) = [status]"
    and "en_labels (te_env te) requestsTotal [req_Method (fl_req fl'), req_Path (fl_req fl'), Itoa status]"
  shows "spanned un (attempt_trace te rid m timeout ip ks b lastErr' cb fl) status"
  using assms(1)
proof (induction ks arbitrary: b lastErr lastErr' cb fl n sleeps)
  case Nil
  with assms(2-4) show ?case by (auto simp: Let_def intro!: spanned_return(1))
next
  case (Cons k ks)
  obtain cb1 fl1 out tripped where c: "Call (en_admit (te_env te) k) (en_settle (te_env te) k)
      (proxy_attempt (te_env te) k timeout ip b) cb fl = ((cb1, fl1), out, tripped)"
    by (metis prod.collapse)
  have mid: "spanned un [reqLog rid level ''upstream failed mid-response; cannot retry'' kvs] status" for level kvs
    by (simp add: spanned_def error_tag_def reqLog_def)
  show ?case
  proof (cases out)
    case (Failure err)
    from Cons.prems c Failure show ?thesis
      by (auto simp: Let_def spanned_quiet spanned_Cons quiet_reqLog mid Cons.IH map_sum_Inr_iff
          split: if_splits sum.splits prod.splits)
  next
    case Success
    with Cons.prems c assms(2-4) show ?thesis
      by (auto simp: Let_def spanned_quiet quiet_reqLog intro!: spanned_return(2))
  qed (use Cons.prems c assms(3) in auto)
qed

section \<open>The shape of the span\<close>

fun on_span :: "observation \<Rightarrow> bool" where
  "on_span (Logged e) \<longleftrightarrow> False"
| "on_span ob \<longleftrightarrow> True"

fun inner :: "observation \<Rightarrow> bool" where
  "inner (Logged e) \<longleftrightarrow> True"
| "inner (SpanTag k v) \<longleftrightarrow> True"
| "inner ob \<longleftrightarrow> False"

lemma inner_basic [simp]:
  "inner (reqLog rid level msg kvs)" "list_all inner (map Logged es)" "list_all inner (span_tags te tags)"
  "list_all inner (counted_tags te r status tags)"
  by (auto simp: reqLog_def span_tags_def counted_tags_def list_all_iff)

lemma inner_attempt: "list_all inner (attempt_trace te rid m timeout ip ks b lastErr cb fl)"
  by (induction ks arbitrary: b lastErr cb fl)
    (simp_all add: Let_def split: prod.split sum.split outcome.split)

lemma inner_stages:
  "list_all inner (dispatch_trace te gw w r rid ip m)" "list_all inner (cached_trace te gw w r rid ip m)"
  "list_all inner (authorize_trace te gw w r rid ip m)" "list_all inner (refused_trace te r rid ip reason tag)"
proof -
  show d: "list_all inner (dispatch_trace te gw w r rid ip m)" for w
    by (simp add: dispatch_trace_def Let_def inner_attempt del: attempt_trace.simps split: sum.split prod.split option.split)
  show "list_all inner (cached_trace te gw w r rid ip m)"
    by (simp add: cached_trace_def Let_def d split: option.split)
  then show "list_all inner (authorize_trace te gw w r rid ip m)"
    by (simp add: authorize_trace_def split: prod.split)
qed (simp add: refused_trace_def)

lemma inner_tags:
  assumes "list_all inner obs"
  shows "\<exists>tags. filter on_span obs = map (\<lambda>(k, v). SpanTag k v) tags"
  using assms
proof (induction obs)
  case (Cons ob obs)
  then obtain tags where "filter on_span obs = map (\<lambda>(k, v). SpanTag k v) tags" by auto
  with Cons.prems show ?case
    by (cases ob) (auto intro: exI [of _ tags] exI [of _ "(a, b) # tags" for a b])
qed simp

lemma ServeHTTP_trace_shape:
  "\<exists>ob obs. ServeHTTP_trace te gw w r =
     ob # (if te_tracer te then [SpanStart ''gateway.request''] else []) @ obs @ (if te_tracer te then [SpanFinish] else []) \<and>
     \<not> on_span ob \<and> list_all inner obs"
  unfolding ServeHTTP_trace_def Let_def
  by (auto simp: inner_stages reqLog_def split: prod.split option.split)

section \<open>The stages\<close>

text \<open>
  What the trace of a stage says about its result, if that is a normal return: one line that
  fits the status that was counted and, if there is a span, tags that agree with it.
\<close>

definition traced ::
  "Logger \<Rightarrow> ('r, 'l, 'f) TraceEnv \<Rightarrow> bool \<Rightarrow> ('r, 'l) Gateway \<Rightarrow> Request \<Rightarrow> observation list \<Rightarrow> ('r, 'l) Gateway \<Rightarrow> bool" where
  "traced lg te un gw r obs gw' \<longleftrightarrow>
     (\<exists>status path. reports lg obs status \<and> (te_tracer te \<longrightarrow> spanned un obs status) \<and>
        mt_requests (gw_metrics gw') = mt_requests (gw_metrics gw) @ [(req_Method r, path, Itoa status)])"

lemma traced_prefix:
  assumes "outcome_lines lg pre = []" "quiet pre"
  shows "traced lg te un gw r (pre @ obs) gw' = traced lg te un gw r obs gw'"
  using assms by (simp add: traced_def spanned_quiet)

lemma traced_Cons:
  assumes "ob_lines lg ob = []" "quiet [ob]"
  shows "traced lg te un gw r (ob # obs) gw' = traced lg te un gw r obs gw'"
  using assms by (simp add: traced_def spanned_Cons)

lemma traced_suffix:
  assumes "outcome_lines lg post = []" "quiet post"
  shows "traced lg te un gw r (obs @ post) gw' = traced lg te un gw r obs gw'"
  using assms by (simp add: traced_def spanned_quiet)

lemma traced_finish: "traced lg te un gw r [ob, SpanFinish] gw' = traced lg te un gw r [ob] gw'"
  using traced_suffix [of lg "[SpanFinish]" te un gw r "[ob]"] by (simp add: quiet_def)

lemma traced_return:
  assumes "leave env q v (counted env q status gw1) = Inr (gw', w', Finished)"
    and "req_Method q = req_Method r" "mt_requests (gw_metrics gw1) = mt_requests (gw_metrics gw)"
    and "reports lg obs status" "te_tracer te \<Longrightarrow> spanned un obs status"
  shows "traced lg te un gw r obs gw'"
  using leave_frame [OF assms(1)] assms(2-5) by (auto simp: traced_def)

lemma traced_reject:
  assumes "reject (te_env te) gw1 w r msg code = Inr (gw', w', Finished)"
    and "mt_requests (gw_metrics gw1) = mt_requests (gw_metrics gw)"
    and "reports lg (ob # counted_tags te r code (error_tags tag)) code" "code \<in> {401, 429, 503}"
  shows "traced lg te un gw r (ob # counted_tags te r code (error_tags tag)) gw'"
  using assms(1) unfolding reject_def
  by (rule traced_return)
    (use assms finished_labels [OF assms(1) [unfolded reject_def]] in
      \<open>simp_all add: error_tags_def spanned_return(1)\<close>)

lemma finish_return:
  assumes "finish env gw (cb, fl, n, sleeps, e) = Inr (gw', w', Finished)"
  obtains v status gw2 where "leave env (fl_req fl) v (counted env (fl_req fl) status gw2) = Inr (gw', w', Finished)"
    "mt_requests (gw_metrics gw2) = mt_requests (gw_metrics gw)" "end_statuses e (rr_Status (fl_rec fl)) = [status]"
proof -
  let ?gw = "upd_metrics (\<lambda>mt. mt\<lparr>mt_active := fl_active fl, mt_trips := mt_trips mt + n\<rparr>) (gw\<lparr>gw_circuitBreaker := cb\<rparr>)"
  have "mt_requests (gw_metrics ?gw) = mt_requests (gw_metrics gw)" by simp
  with assms that [of _ _ ?gw] show ?thesis
    by (cases e) (auto simp: finish_def Let_def dest: leave_aborted)
qed

lemma traced_dispatch:
  assumes "dispatch (te_env te) gw1 w r ip m = Inr (gw', w', Finished)"
    and "mt_requests (gw_metrics gw1) = mt_requests (gw_metrics gw)" and lg: "go_le (lg_level lg) LevelInfo"
  shows "traced lg te un gw r (dispatch_trace te gw1 w r rid ip m) gw'"
proof -
  let ?r1 = "if mr_BackendPath m \<noteq> req_Path r
    then r\<lparr>req_Path := mr_BackendPath m, req_RawPath := mr_BackendPath m\<rparr> else r"
  from assms(1) obtain pool peer where np:
    "NextPeer (en_digest (te_env te)) (sr_pools (gw_router gw1) ! mr_Pool m) ip = Inr (pool, peer)"
    by (auto simp: dispatch_def split: sum.splits)
  show ?thesis
  proof (cases peer)
    case None
    with assms np have rej: "reject (te_env te) (set_pool (mr_Pool m) pool gw1) w r ''No healthy backends available'' 503 =
        Inr (gw', w', Finished)"
      by (simp add: dispatch_def)
    have "traced lg te un gw r (reqLog rid LevelError ''no healthy backends available'' kvs #
        counted_tags te r 503 (error_tags tag)) gw'" if "kv_get kvs ''status'' = None" "kv_get kvs ''reason'' = None" for kvs tag
      by (rule traced_reject [OF rej])
        (use assms(2) that in \<open>auto simp: set_pool_def line_simps intro!: reports_line [OF lg]\<close>)
    with np None show ?thesis by (simp add: dispatch_trace_def)
  next
    case (Some b)
    let ?fl = "\<lparr>fl_pool = pool, fl_rec = newResponseRecorder w, fl_req = ?r1, fl_active = mt_active (gw_metrics gw1)\<rparr>"
    let ?obs = "attempt_trace te rid m (route_deadline (gw_cfg gw1) m) ip [0, 1, 2] b None (gw_circuitBreaker gw1) ?fl"
    from assms(1) np Some obtain cb fl n sleeps e where loop:
      "attempt_loop (te_env te) (route_deadline (gw_cfg gw1) m) ip [0, 1, 2] b [] (gw_circuitBreaker gw1) ?fl =
       Inr (cb, fl, n, sleeps, e)"
      and fin: "finish (te_env te) (set_pool (mr_Pool m) (fl_pool fl) gw1) (cb, fl, n, sleeps, e) = Inr (gw', w', Finished)"
      by (auto simp: dispatch_def Let_def simp del: attempt_loop.simps split: sum.splits)
    obtain v status gw2 where ret: "leave (te_env te) (fl_req fl) v (counted (te_env te) (fl_req fl) status gw2) =
        Inr (gw', w', Finished)"
      and m2: "mt_requests (gw_metrics gw2) = mt_requests (gw_metrics (set_pool (mr_Pool m) (fl_pool fl) gw1))"
      and st: "end_statuses e (rr_Status (fl_rec fl)) = [status]"
      using fin by (rule finish_return)
    have "req_Method (fl_req fl) = req_Method r" using attempt_loop_steady [OF loop] by (simp add: steady_def)
    moreover have "reports lg ?obs status" using loop lg st by (rule attempt_reports)
    moreover have "spanned un ?obs status" if "te_tracer te"
      using loop that st finished_labels [OF ret] by (rule attempt_spanned)
    ultimately have "traced lg te un gw r ?obs gw'"
      using m2 assms(2) by (intro traced_return [OF ret]) (simp_all add: set_pool_def del: attempt_trace.simps)
    then show ?thesis
      using np Some by (simp add: dispatch_trace_def Let_def traced_prefix traced_Cons quiet_reqLog del: attempt_trace.simps)
  qed
qed

lemma traced_cached:
  assumes "serve_cached (te_env te) gw1 w r ip m = Inr (gw', w', Finished)"
    and "mt_requests (gw_metrics gw1) = mt_requests (gw_metrics gw)" and lg: "go_le (lg_level lg) LevelInfo"
  shows "traced lg te un gw r (cached_trace te gw1 w r rid ip m) gw'"
proof (cases "req_Method r = ''GET'' \<and> cf_EnableCaching (gw_cfg gw1)")
  case get: True
  show ?thesis
  proof (cases "cache_Get (en_redis (te_env te)) (gw_cacheManager gw1) (GenerateKey r)")
    case None
    with get assms traced_dispatch [OF _ assms(2) lg] show ?thesis
      by (simp add: serve_cached_def cached_trace_def Let_def traced_prefix traced_Cons quiet_reqLog)
  next
    case (Some v)
    let ?gw = "upd_metrics (\<lambda>mt. mt\<lparr>mt_cacheHits := mt_cacheHits mt + 1\<rparr>) gw1"
    from get Some assms(1) obtain v' where
      "leave (te_env te) r v' (counted (te_env te) r 200 ?gw) = Inr (gw', w', Finished)"
      by (simp add: serve_cached_def Let_def)
    note ret = this
    have "traced lg te un gw r (reqLog rid LevelInfo ''request served from cache'' kvs #
        counted_tags te r 200 [(''cache'', VString ''hit'')]) gw'" if "kv_get kvs ''status'' = None" "kv_get kvs ''reason'' = None" for kvs
      using ret
      by (rule traced_return) (use assms(2) that spanned_return(3) [OF _ finished_labels [OF ret]] in
          \<open>auto simp: line_simps quiet_reqLog intro!: reports_line [OF lg]\<close>)
    with get Some show ?thesis by (simp add: cached_trace_def Let_def traced_prefix)
  qed
next
  case False
  then have "serve_cached (te_env te) gw1 w r ip m = dispatch (te_env te) gw1 w r ip m"
    "cached_trace te gw1 w r rid ip m = dispatch_trace te gw1 w r rid ip m"
    by (auto simp: serve_cached_def cached_trace_def)
  with assms traced_dispatch [OF _ assms(2) lg] show ?thesis by simp
qed

lemma traced_authorize:
  assumes "authorize (te_env te) gw1 w r ip m = Inr (gw', w', Finished)"
    and "mt_requests (gw_metrics gw1) = mt_requests (gw_metrics gw)" and lg: "go_le (lg_level lg) LevelInfo"
  shows "traced lg te un gw r (authorize_trace te gw1 w r rid ip m) gw'"
proof -
  obtain auth user where a: "authenticate (te_env te) (gw_cfg gw1) r = (auth, user)" by fastforce
  show ?thesis
  proof (cases "mr_RequireAuth m \<and> \<not> isPublicEndpoint (req_Path r) \<and> \<not> auth")
    case True
    with assms(1) a have rej: "reject (te_env te) gw1 w r ''Unauthorized'' 401 = Inr (gw', w', Finished)"
      by (simp add: authorize_def)
    have "traced lg te un gw r (reqLog rid LevelWarn ''request rejected'' (VString ''reason'' # VString ''unauthorized'' # kvs) #
        counted_tags te r 401 (error_tags tag)) gw'" if "kv_get kvs ''status'' = None" for kvs tag
      by (rule traced_reject [OF rej assms(2)]) (use that in \<open>auto simp: line_simps intro!: reports_line [OF lg]\<close>)
    with True a show ?thesis by (simp add: authorize_trace_def)
  next
    case False
    with assms(1) a have "serve_cached (te_env te) gw1 w r ip m = Inr (gw', w', Finished)"
      by (auto simp: authorize_def)
    from traced_cached [OF this assms(2) lg] False a show ?thesis
      by (auto simp: authorize_trace_def traced_prefix)
  qed
qed

text \<open>Nothing the trace reads changes before the request is routed.\<close>

lemma authorize_trace_core:
  assumes "same_core gw gw1"
  shows "authorize_trace te gw1 w r rid ip m = authorize_trace te gw w r rid ip m"
proof -
  have eq: "gw_router gw1 = gw_router gw" "gw_circuitBreaker gw1 = gw_circuitBreaker gw"
    "gw_cacheManager gw1 = gw_cacheManager gw" "gw_cfg gw1 = gw_cfg gw"
    "mt_active (gw_metrics gw1) = mt_active (gw_metrics gw)"
    using assms by (simp_all add: same_core_def)
  show ?thesis unfolding authorize_trace_def cached_trace_def dispatch_trace_def eq ..
qed

lemma traced_refused:
  assumes "reject (te_env te) gw1 w r msg 429 = Inr (gw', w', Finished)" and "same_core gw gw1"
    and lg: "go_le (lg_level lg) LevelInfo"
    and "reason \<in> {''IP blocked'', ''DDoS protection triggered'', ''rate limit exceeded''}"
  shows "traced lg te un gw r (refused_trace te r rid ip reason tag) gw'"
  unfolding refused_trace_def
  by (rule traced_reject [OF assms(1)])
    (use assms(2,4) in \<open>auto simp: same_core_def line_simps intro!: reports_line [OF lg]\<close>)

lemma spanned_unrouted: "msg \<noteq> ''upstream failed mid-response; cannot retry'' \<Longrightarrow> spanned True [reqLog rid level msg kvs] 404"
  by (simp add: spanned_def error_tag_def reqLog_def)

lemma traced_unrouted:
  assumes "reject (te_env te) gw1 w r msg 404 = Inr (gw', w', Finished)" and "same_core gw gw1"
    and lg: "go_le (lg_level lg) LevelInfo"
    and "kv_get kvs ''status'' = None"
  shows "traced lg te True gw r [reqLog rid LevelInfo ''request rejected'' (VString ''reason'' # VString ''no route matched'' # kvs)] gw'"
  using assms(1) unfolding reject_def
  by (rule traced_return)
    (use assms(2,4) in \<open>auto simp: same_core_def line_simps spanned_unrouted intro!: reports_line [OF lg]\<close>)

lemma traced_ServeHTTP:
  assumes "ServeHTTP (te_env te) gw w r = Inr (gw', w', Finished)" and lg: "go_le (lg_level lg) LevelInfo"
  shows "traced lg te (Route (gw_router gw) (req_Host r) (req_Path r) = None) gw r (ServeHTTP_trace te gw w r) gw'"
proof -
  let ?ip = "getClientIP r" and ?env = "te_env te" and ?rid = "Header_Get (req_Header r) ''x-request-id''"
  obtain d1 blocked where 1: "IsBlocked (en_nowBlock ?env) (gw_ddosProtection gw) ?ip = (d1, blocked)" by fastforce
  obtain d2 just where 2: "RecordRequest (en_nowRecord ?env) d1 ?ip = (d2, just)" by fastforce
  obtain lim ok where 3: "limiter_allow (en_rate ?env) (en_nowAllow ?env) (gw_rateLimiter gw) ?ip = (lim, ok)" by fastforce
  let ?g = "gw\<lparr>gw_metrics := (gw_metrics gw)\<lparr>mt_total := mt_total (gw_metrics gw) + 1\<rparr>\<rparr>"
  let ?g1 = "?g\<lparr>gw_ddosProtection := d1\<rparr>" and ?g2 = "?g\<lparr>gw_ddosProtection := d2\<rparr>"
  let ?g2' = "upd_metrics (\<lambda>mt. mt\<lparr>mt_blocked := mt_blocked mt + 1\<rparr>) ?g2"
  let ?g3 = "?g\<lparr>gw_ddosProtection := d2, gw_rateLimiter := lim\<rparr>"
  have core: "same_core gw ?g1" "same_core gw ?g2'" "same_core gw ?g3" by (simp_all add: same_core_def)
  have q: "quiet (if b then [SpanStart a] else [])"
    "quiet (if b then [SpanFinish] else [])" "outcome_lines lg (if b then [SpanStart a] else []) = []"
    "outcome_lines lg (if b then [SpanFinish] else []) = []" for b a
    by (simp_all add: quiet_def)
  note skip = traced_prefix traced_suffix traced_Cons quiet_reqLog q ServeHTTP_trace_def Let_def 1 2 3
  consider (blocked) blocked | (ddos) "\<not> blocked" just | (rate) "\<not> blocked" "\<not> just" "\<not> ok"
    | (none) "\<not> blocked" "\<not> just" ok "Route (gw_router gw) (req_Host r) (req_Path r) = None"
    | (route) m where "\<not> blocked" "\<not> just" ok "Route (gw_router gw) (req_Host r) (req_Path r) = Some m"
    by fastforce
  then show ?thesis
  proof cases
    case blocked
    with assms(1) 1 have "reject ?env ?g1 w r ''Too many requests - IP blocked'' 429 = Inr (gw', w', Finished)"
      by (simp add: ServeHTTP_def Let_def)
    from traced_refused [OF this core(1) lg] blocked show ?thesis by (simp add: skip)
  next
    case ddos
    with assms(1) 1 2 have "reject ?env ?g2' w r ''DDoS protection triggered'' 429 = Inr (gw', w', Finished)"
      by (simp add: ServeHTTP_def Let_def)
    from traced_refused [OF this core(2) lg] ddos show ?thesis by (simp add: skip)
  next
    case rate
    with assms(1) 1 2 3 have "reject ?env ?g3 w r ''Rate limit exceeded'' 429 = Inr (gw', w', Finished)"
      by (simp add: ServeHTTP_def Let_def)
    from traced_refused [OF this core(3) lg] rate show ?thesis by (simp add: skip)
  next
    case none
    with assms(1) 1 2 3 have "reject ?env ?g3 w r ''No route matched'' 404 = Inr (gw', w', Finished)"
      by (simp add: ServeHTTP_def Let_def)
    from traced_unrouted [OF this core(3) lg] none show ?thesis by (simp add: skip traced_finish)
  next
    case route
    with assms(1) 1 2 3 have "authorize ?env ?g3 w r ?ip m = Inr (gw', w', Finished)"
      by (simp add: ServeHTTP_def Let_def)
    from traced_authorize [OF this _ lg, of gw False ?rid] have "traced lg te False gw r (authorize_trace te gw w r ?rid ?ip m) gw'"
      unfolding authorize_trace_core [OF core(3)] by simp
    with route show ?thesis by (simp add: skip)
  qed
qed

section \<open>Properties\<close>

text \<open>
  C7: the access log agrees with the metrics. If the log level is info or below, a request that
  is served to the end writes exactly one line that reports its outcome, and the request
  counter is incremented once, under a status that fits the line: a line with a status field
  (a completed request, an upstream that failed half-way) carries that status; a line without
  one determines it by its message and reason, as the table \<open>silent_outcomes\<close> says.
\<close>

theorem access_log_matches_metrics:
  assumes "ServeHTTP (te_env te) gw w r = Inr (gw', w', Finished)" and "go_le (lg_level lg) LevelInfo"
  shows "\<exists>e status path. outcome_lines lg (ServeHTTP_trace te gw w r) = [e] \<and>
    mt_requests (gw_metrics gw') = mt_requests (gw_metrics gw) @ [(req_Method r, path, Itoa status)] \<and>
    (case kv_get (le_kvs e) ''status'' of
       Some v \<Rightarrow> v = VInt status
     | None \<Rightarrow> map_of silent_outcomes (le_msg e, kv_get (le_kvs e) ''reason'') = Some status)"
  using traced_ServeHTTP [OF assms] by (auto simp: traced_def reports_def fits_def)

theorem access_log_matches_metrics_witness:
  "\<exists>e status. Itoa status = ''201'' \<and> outcome_lines \<lparr>lg_level = LevelInfo, lg_useColor = False, lg_component = []\<rparr>
     (ServeHTTP_trace \<lparr>te_env = example_env 2, te_urls = example_urls, te_tracer = False, te_completedMs = (\<lambda>_. 310), te_failedMs = 0\<rparr>
        (example_gateway False ''least-conn'') (fresh_writer True True) (example_request ''GET'' ''ex.com'' ''/api/x'')) = [e] \<and>
     (case kv_get (le_kvs e) ''status'' of
        Some v \<Rightarrow> v = VInt status
      | None \<Rightarrow> map_of silent_outcomes (le_msg e, kv_get (le_kvs e) ''reason'') = Some status)"
proof -
  let ?te = "\<lparr>te_env = example_env 2, te_urls = example_urls, te_tracer = False, te_completedMs = (\<lambda>_. 310), te_failedMs = 0\<rparr>"
  let ?lg = "\<lparr>lg_level = LevelInfo, lg_useColor = False, lg_component = []\<rparr>"
  obtain gw' w' where run: "ServeHTTP (te_env ?te) (example_gateway False ''least-conn'') (fresh_writer True True)
      (example_request ''GET'' ''ex.com'' ''/api/x'') = Inr (gw', w', Finished)"
    and mt: "mt_requests (gw_metrics gw') = [(''GET'', ''/x'', ''201'')]"
    using example_run by (auto simp: map_sum_Inr_iff)
  have l: "go_le (lg_level ?lg) LevelInfo" by simp
  have "mt_requests (gw_metrics (example_gateway False ''least-conn'')) = []" by code_simp
  with access_log_matches_metrics [OF run l] mt show ?thesis by auto
qed

text \<open>
  C16: one span per request, whose tags agree with the request counter. With a tracer the calls
  on the span begin with its start, end with its end and set tags in between, however the
  request ends. If the request is served to the end it is counted under one status, and: if
  the tag \<open>error\<close> is set, that is 401, 429 or 503; otherwise, if the tag \<open>http.status_code\<close> is
  set, it holds that status; otherwise, if the span is tagged as a cache hit, the status is
  200. A span with none of these tags belongs to a request without a route, counted under
  404, or to a response that broke off half-way, which the log tells: these two ends are
  not marked.
\<close>

theorem span_agrees_with_metrics:
  assumes "te_tracer te"
  shows "(\<exists>tags. filter on_span (ServeHTTP_trace te gw w r) =
      SpanStart ''gateway.request'' # map (\<lambda>(k, v). SpanTag k v) tags @ [SpanFinish]) \<and>
    (ServeHTTP (te_env te) gw w r = Inr (gw', w', Finished) \<longrightarrow>
      (\<exists>status path. mt_requests (gw_metrics gw') = mt_requests (gw_metrics gw) @ [(req_Method r, path, Itoa status)] \<and>
        (let obs = ServeHTTP_trace te gw w r in
         if SpanTag ''error'' (VBool True) \<in> set obs then status \<in> {401, 429, 503}
         else if \<exists>v. SpanTag ''http.status_code'' v \<in> set obs
         then \<forall>v. SpanTag ''http.status_code'' v \<in> set obs \<longrightarrow> v = VInt status
         else if SpanTag ''cache'' (VString ''hit'') \<in> set obs then status = 200
         else list_ex mid_line obs \<or> status = 404 \<and> Route (gw_router gw) (req_Host r) (req_Path r) = None)))"
proof -
  obtain ob obs where tr: "ServeHTTP_trace te gw w r = ob # SpanStart ''gateway.request'' # obs @ [SpanFinish]"
    and ob: "\<not> on_span ob" and obs: "list_all inner obs"
    using ServeHTTP_trace_shape [of te gw w r] assms by auto
  obtain tags where "filter on_span obs = map (\<lambda>(k, v). SpanTag k v) tags" using inner_tags [OF obs] by blast
  with tr ob have "filter on_span (ServeHTTP_trace te gw w r) =
      SpanStart ''gateway.request'' # map (\<lambda>(k, v). SpanTag k v) tags @ [SpanFinish]" by simp
  moreover have "\<exists>status path. mt_requests (gw_metrics gw') = mt_requests (gw_metrics gw) @ [(req_Method r, path, Itoa status)] \<and>
      spanned (Route (gw_router gw) (req_Host r) (req_Path r) = None) (ServeHTTP_trace te gw w r) status"
    if "ServeHTTP (te_env te) gw w r = Inr (gw', w', Finished)"
    using traced_ServeHTTP [OF that, of "\<lparr>lg_level = LevelInfo, lg_useColor = False, lg_component = []\<rparr>"] assms
    by (auto simp: traced_def)
  ultimately show ?thesis unfolding spanned_def error_tag_def Let_def by blast
qed

theorem span_agrees_with_metrics_witness:
  "\<exists>gw' w' status path. ServeHTTP (example_env 2) (example_gateway False ''least-conn'') (fresh_writer True True)
      (example_request ''GET'' ''ex.com'' ''/api/x'') = Inr (gw', w', Finished) \<and>
    mt_requests (gw_metrics gw') = mt_requests (gw_metrics (example_gateway False ''least-conn'')) @ [(''GET'', path, Itoa status)] \<and>
    (\<forall>v. SpanTag ''http.status_code'' v \<in> set (ServeHTTP_trace
       \<lparr>te_env = example_env 2, te_urls = example_urls, te_tracer = True, te_completedMs = (\<lambda>_. 310), te_failedMs = 0\<rparr>
       (example_gateway False ''least-conn'') (fresh_writer True True) (example_request ''GET'' ''ex.com'' ''/api/x'')) \<longrightarrow>
     v = VInt status)"
proof -
  let ?te = "\<lparr>te_env = example_env 2, te_urls = example_urls, te_tracer = True, te_completedMs = (\<lambda>_. 310), te_failedMs = 0\<rparr>"
  let ?gw = "example_gateway False ''least-conn''" and ?w = "fresh_writer True True"
  let ?r = "example_request ''GET'' ''ex.com'' ''/api/x''"
  let ?tr = "ServeHTTP_trace ?te ?gw ?w ?r"
  obtain gw' w' where run: "ServeHTTP (te_env ?te) ?gw ?w ?r = Inr (gw', w', Finished)"
    using example_run by (auto simp: map_sum_Inr_iff)
  have "\<not> list_ex (\<lambda>ob. case ob of SpanTag k v \<Rightarrow> k = ''error'' | _ \<Rightarrow> False) ?tr" by code_simp
  then have "SpanTag ''error'' (VBool True) \<notin> set ?tr" unfolding list_ex_iff by force
  moreover have "req_Method ?r = ''GET''" by (simp add: example_request_def)
  moreover have "te_tracer ?te" by simp
  ultimately show ?thesis
    using span_agrees_with_metrics [of ?te ?gw ?w ?r gw' w'] run unfolding Let_def by (metis TraceEnv.select_convs(1))
qed

end
