(* ===== verification/Concurrent_Requests.thy ===== *)
theory Concurrent_Requests
  imports Load_Balancing Circuit_Breaker Router
begin

text \<open>
  Concurrent requests of \<open>Gateway.ServeHTTP\<close> on shared pools and the one circuit breaker:
  the retry loop as a step relation whose steps are the atomic operations and critical
  sections of the code, interleaved with health checks. The choice of a backend is left open
  in the relation, because the scans of \<open>NextPeer\<close> read the counts one by one while other
  requests go on; what is proved holds for every such choice. The scan of the default
  algorithm is then modelled read by read, with the steps of the other requests in between.
\<close>

section \<open>The system\<close>

text \<open>
  Where a request is: it has chosen a backend, holds the breaker's mutex, is being proxied
  (between \<open>IncConnections\<close> and the deferred \<open>DecConnections\<close>, mutex held), has returned from
  the proxy (mutex still held), has failed, or may retry.
\<close>

datatype stage =
    Resting
  | Chosen nat nat
  | Holding nat nat
  | Proxying nat nat
  | Unwinding nat nat
  | Failing nat nat
  | Retrying nat

record gateway_sys =
  gs_mu :: "nat option"
  gs_stage :: "nat \<Rightarrow> stage"
  gs_cb :: CircuitBreaker
  gs_pools :: "ServicePool list"

definition at_backend :: "(Backend \<Rightarrow> Backend) \<Rightarrow> nat \<Rightarrow> nat \<Rightarrow> ServicePool list \<Rightarrow> ServicePool list" where
  "at_backend f p b pools = pools[p := upd_backend f b (pools ! p)]"

definition gs_init :: "CircuitBreaker \<Rightarrow> ServicePool list \<Rightarrow> gateway_sys" where
  "gs_init cb pools = \<lparr>gs_mu = None, gs_stage = (\<lambda>_. Resting), gs_cb = cb, gs_pools = pools\<rparr>"

fun after_call :: "nat \<Rightarrow> nat \<Rightarrow> 'e outcome \<Rightarrow> stage" where
  "after_call p b (Failure e) = Failing p b"
| "after_call p b Success = Resting"
| "after_call p b Panicked = Resting"

inductive gs_step :: "gateway_sys \<Rightarrow> gateway_sys \<Rightarrow> bool" where
  choose: "gs_stage s i = Resting \<or> gs_stage s i = Retrying p \<Longrightarrow>
    sp_backends pool = sp_backends (gs_pools s ! p) \<Longrightarrow> sp_algo pool = sp_algo (gs_pools s ! p) \<Longrightarrow>
    gs_step s (s\<lparr>gs_stage := (gs_stage s)(i := Chosen p b), gs_pools := (gs_pools s)[p := pool]\<rparr>)"
| lock: "gs_stage s i = Chosen p b \<Longrightarrow> gs_mu s = None \<Longrightarrow>
    gs_step s (s\<lparr>gs_mu := Some i, gs_stage := (gs_stage s)(i := Holding p b)\<rparr>)"
| refuse: "gs_stage s i = Holding p b \<Longrightarrow> admit t0 (gs_cb s) = None \<Longrightarrow>
    gs_step s (s\<lparr>gs_mu := None, gs_stage := (gs_stage s)(i := Failing p b)\<rparr>)"
| enter: "gs_stage s i = Holding p b \<Longrightarrow> admit t0 (gs_cb s) = Some cb \<Longrightarrow>
    gs_step s (s\<lparr>gs_stage := (gs_stage s)(i := Proxying p b), gs_cb := cb,
                 gs_pools := at_backend IncConnections p b (gs_pools s)\<rparr>)"
| unwind: "gs_stage s i = Proxying p b \<Longrightarrow>
    gs_step s (s\<lparr>gs_stage := (gs_stage s)(i := Unwinding p b),
                 gs_pools := at_backend DecConnections p b (gs_pools s)\<rparr>)"
| settle: "gs_stage s i = Unwinding p b \<Longrightarrow>
    gs_step s (s\<lparr>gs_mu := None, gs_stage := (gs_stage s)(i := after_call p b out),
                 gs_cb := fst (settle t1 (out :: string outcome) (gs_cb s))\<rparr>)"
| fail: "gs_stage s i = Failing p b \<Longrightarrow>
    gs_step s (s\<lparr>gs_stage := (gs_stage s)(i := Retrying p),
                 gs_pools := at_backend (RecordFailure t) p b (gs_pools s)\<rparr>)"
| give_up: "gs_stage s i = Retrying p \<Longrightarrow> gs_step s (s\<lparr>gs_stage := (gs_stage s)(i := Resting)\<rparr>)"
| probed: "gs_step s (s\<lparr>gs_pools := at_backend (SetAlive alive) p b (gs_pools s)\<rparr>)"
| recovered: "gs_step s (s\<lparr>gs_pools := at_backend ResetFailures p b (gs_pools s)\<rparr>)"

inductive gs_reachable :: "CircuitBreaker \<Rightarrow> ServicePool list \<Rightarrow> gateway_sys \<Rightarrow> bool" for cb pools where
  start: "gs_reachable cb pools (gs_init cb pools)"
| step: "gs_reachable cb pools s \<Longrightarrow> gs_step s t \<Longrightarrow> gs_reachable cb pools t"

section \<open>The invariant\<close>

text \<open>
  The mutex names exactly the request that is inside the breaker, and the counter of a
  backend is one if a request is being proxied to it and zero otherwise.
\<close>

fun inside :: "stage \<Rightarrow> bool" where
  "inside (Holding p b) = True"
| "inside (Proxying p b) = True"
| "inside (Unwinding p b) = True"
| "inside _ = False"

definition counts :: "ServicePool list \<Rightarrow> int64 list list" where
  "counts pools = map (\<lambda>s. map GetConnections (sp_backends s)) pools"

definition exclusive :: "nat option \<Rightarrow> (nat \<Rightarrow> stage) \<Rightarrow> bool" where
  "exclusive mu st \<longleftrightarrow> (\<forall>i. inside (st i) \<longleftrightarrow> mu = Some i)"

definition tallied :: "int64 list list \<Rightarrow> (nat \<Rightarrow> stage) \<Rightarrow> bool" where
  "tallied cs st \<longleftrightarrow> (\<forall>p < length cs. \<forall>b < length (cs ! p).
     cs ! p ! b = (if \<exists>i. st i = Proxying p b then 1 else 0))"

lemma exclusive_only: "exclusive mu st \<Longrightarrow> inside (st i) \<Longrightarrow> inside (st j) \<Longrightarrow> j = i"
  by (simp add: exclusive_def)

lemma exclusive_move: "exclusive mu st \<Longrightarrow> inside x = inside (st i) \<Longrightarrow> exclusive mu (st(i := x))"
  by (simp add: exclusive_def)

lemma exclusive_acquire: "exclusive None st \<Longrightarrow> inside x \<Longrightarrow> exclusive (Some i) (st(i := x))"
  by (simp add: exclusive_def)

lemma exclusive_release:
  assumes "exclusive mu st" and "inside (st i)" and "\<not> inside x"
  shows "exclusive None (st(i := x))"
proof -
  have "mu = Some i" using assms(1,2) by (simp add: exclusive_def)
  with assms show ?thesis by (simp add: exclusive_def)
qed

lemma inside_after_call [simp]: "\<not> inside (after_call p b out)" "after_call p b out \<noteq> Proxying q c"
  by (cases out; simp)+

lemma exclusive_step:
  assumes "gs_step s t" and "exclusive (gs_mu s) (gs_stage s)"
  shows "exclusive (gs_mu t) (gs_stage t)"
  using assms
  by (cases rule: gs_step.cases)
    (auto intro: exclusive_move exclusive_acquire elim: exclusive_release)

text \<open>Operations that leave the counters alone, and those that change one.\<close>

lemma counts_keep [simp]:
  "counts (at_backend (SetAlive alive) p b pools) = counts pools"
  "counts (at_backend ResetFailures p b pools) = counts pools"
  "counts (at_backend (RecordFailure t) p b pools) = counts pools"
  "sp_backends pool = sp_backends (pools ! p) \<Longrightarrow> counts (pools[p := pool]) = counts pools"
  by (simp_all add: counts_def at_backend_def upd_backend_def map_update_same backend_defs)

lemma counts_change:
  assumes "\<And>x. GetConnections (f x) = g (GetConnections x)"
  shows "counts (at_backend f p b pools) = (counts pools)[p := (counts pools ! p)[b := g (counts pools ! p ! b)]]"
proof (cases "p < length pools")
  case True
  show ?thesis
  proof (cases "b < length (sp_backends (pools ! p))")
    case False
    with True show ?thesis
      by (simp add: counts_def at_backend_def upd_backend_def list_update_beyond) (metis list_update_id nth_map)
  qed (use True in \<open>simp add: counts_def at_backend_def upd_backend_def map_update assms\<close>)
qed (simp add: counts_def at_backend_def list_update_beyond)

lemma proxying_elsewhere:
  assumes "st i \<noteq> Proxying q c" and "x \<noteq> Proxying q c"
  shows "(\<exists>j. (st(i := x)) j = Proxying q c) \<longleftrightarrow> (\<exists>j. st j = Proxying q c)"
  using assms by (metis fun_upd_other fun_upd_same)

text \<open>A request that moves between stages in which it is not proxied changes no tally.\<close>

lemma tallied_move:
  assumes "tallied cs st" and "\<And>p b. st i \<noteq> Proxying p b" and "\<And>p b. x \<noteq> Proxying p b"
  shows "tallied cs (st(i := x))"
  using assms(1) unfolding tallied_def proxying_elsewhere [where st = st, OF assms(2,3)] .

lemma nth_upd: "j < length xs \<Longrightarrow> xs[i := x] ! j = (if i = j then x else xs ! j)"
  by (cases "i < length xs") auto

lemma tallied_enter:
  assumes "tallied cs st" and "\<And>j q c. st j \<noteq> Proxying q c"
  shows "tallied (cs[p := (cs ! p)[b := cs ! p ! b + 1]]) (st(i := Proxying p b))"
  using assms by (auto simp: tallied_def nth_upd)

lemma tallied_unwind:
  assumes "tallied cs st" and "st i = Proxying p b" and "\<And>j q c. st j = Proxying q c \<Longrightarrow> j = i"
  shows "tallied (cs[p := (cs ! p)[b := cs ! p ! b - 1]]) (st(i := Unwinding p b))"
proof -
  have here: "\<And>q c. (\<exists>j. st j = Proxying q c) \<longleftrightarrow> q = p \<and> c = b" using assms(2,3) by fastforce
  have gone: "\<And>q c. (\<exists>j. (st(i := Unwinding p b)) j = Proxying q c) \<longleftrightarrow> False" using assms(3) by auto
  show ?thesis using assms(1) unfolding tallied_def here gone by (auto simp: nth_upd)
qed

lemma tallied_step:
  assumes "gs_step s t" and "exclusive (gs_mu s) (gs_stage s)"
    and "tallied (counts (gs_pools s)) (gs_stage s)"
  shows "tallied (counts (gs_pools t)) (gs_stage t)"
  using assms(1)
proof (cases rule: gs_step.cases)
  case (enter i p b t0 cb)
  have "inside (gs_stage s i)" using enter by simp
  then have "gs_stage s j \<noteq> Proxying q c" for j q c
    using exclusive_only [OF assms(2), of i j] enter by auto
  with tallied_enter [OF assms(3)] enter show ?thesis
    by (simp add: counts_change [where g = "\<lambda>n. n + 1"] backend_defs)
next
  case (unwind i p b)
  have "inside (gs_stage s i)" using unwind by simp
  then have only: "\<And>j q c. gs_stage s j = Proxying q c \<Longrightarrow> j = i"
    using exclusive_only [OF assms(2)] by (metis inside.simps(2))
  show ?thesis
    using tallied_unwind [OF assms(3) unwind(2) only] unwind(1)
    by (simp add: counts_change [where g = "\<lambda>n. n - 1"] backend_defs)
qed (use assms(3) in \<open>auto intro!: tallied_move\<close>)

lemma algo_at_backend: "map sp_algo (at_backend f p b pools) = map sp_algo pools"
  by (simp add: at_backend_def upd_backend_def map_update_same)

lemma algo_step: "gs_step s t \<Longrightarrow> map sp_algo (gs_pools t) = map sp_algo (gs_pools s)"
  by (induction rule: gs_step.induct) (simp_all add: algo_at_backend map_update_same)

definition gs_inv :: "gateway_sys \<Rightarrow> bool" where
  "gs_inv s \<longleftrightarrow> exclusive (gs_mu s) (gs_stage s) \<and> tallied (counts (gs_pools s)) (gs_stage s)"

text \<open>Every counter is zero in the pools that start-up builds.\<close>

definition idle_pools :: "ServicePool list \<Rightarrow> bool" where
  "idle_pools pools \<longleftrightarrow> list_all (list_all (\<lambda>n. n = 0)) (counts pools)"

lemma idle_build_router: "idle_pools (sr_pools (build_router lib algo tc cfgs))"
  using route_pool_fresh by (auto simp: idle_pools_def counts_def build_router_sorted list_all_iff fresh_backend_def)

lemma gs_inv_reachable:
  assumes "gs_reachable cb pools s" and "idle_pools pools"
  shows "gs_inv s \<and> map sp_algo (gs_pools s) = map sp_algo pools"
  using assms
proof induction
  case start
  then show ?case
    by (simp add: gs_inv_def exclusive_def tallied_def gs_init_def idle_pools_def list_all_length)
next
  case (step s t)
  then show ?case using exclusive_step tallied_step algo_step by (auto simp: gs_inv_def)
qed

lemmas built_inv = gs_inv_reachable [OF _ idle_build_router]

lemma counters:
  assumes "gs_inv s" and "p < length (gs_pools s)" and "b < length (sp_backends (gs_pools s ! p))"
  shows "GetConnections (sp_backends (gs_pools s ! p) ! b) = (if \<exists>i. gs_stage s i = Proxying p b then 1 else 0)"
proof -
  have "counts (gs_pools s) ! p ! b = GetConnections (sp_backends (gs_pools s ! p) ! b)"
    using assms(2,3) by (simp add: counts_def)
  with assms show ?thesis by (simp add: gs_inv_def tallied_def counts_def)
qed

lemma one_proxied:
  assumes "gs_inv s" and "gs_stage s i = Proxying p b" and "gs_stage s j = Proxying q c"
  shows "p = q \<and> b = c"
proof -
  have "j = i" using assms exclusive_only [of "gs_mu s" "gs_stage s" i j] by (simp add: gs_inv_def)
  with assms show ?thesis by simp
qed

text \<open>Which backend is busy can be read off the counters.\<close>

lemma same_busy:
  assumes "counts (gs_pools s) = counts (gs_pools t)" and "gs_inv s" "gs_inv t"
    and "p < length (gs_pools s)" "b < length (sp_backends (gs_pools s ! p))"
  shows "(\<exists>i. gs_stage s i = Proxying p b) \<longleftrightarrow> (\<exists>i. gs_stage t i = Proxying p b)"
proof -
  have "tallied (counts (gs_pools s)) (gs_stage s)" "tallied (counts (gs_pools s)) (gs_stage t)"
    using assms(2,3) by (simp_all add: gs_inv_def assms(1))
  moreover have "p < length (counts (gs_pools s))" "b < length (counts (gs_pools s) ! p)"
    using assms(4,5) by (simp_all add: counts_def)
  ultimately have
    "counts (gs_pools s) ! p ! b = (if \<exists>i. gs_stage s i = Proxying p b then 1 else 0)"
    "counts (gs_pools s) ! p ! b = (if \<exists>i. gs_stage t i = Proxying p b then 1 else 0)"
    unfolding tallied_def by blast+
  then show ?thesis by (metis zero_neq_one)
qed

section \<open>The scan of least connections\<close>

text \<open>
  \<open>leastConnections\<close> as a process among the others: for each backend it reads the liveness
  flag and, if that is set, the counter, two separate reads with any steps of the system in
  between. \<open>sc_next\<close> is the backend it has come to, \<open>sc_live\<close> says that its flag was read as
  set, \<open>sc_read\<close> is a ghost: the backends whose counters were read, each with the state of
  the system at that moment.
\<close>

record lc_scan =
  sc_sys :: gateway_sys
  sc_next :: nat
  sc_live :: bool
  sc_minConn :: int64
  sc_selected :: "nat option"
  sc_read :: "(nat \<times> gateway_sys) list"

definition backend_of :: "nat \<Rightarrow> nat \<Rightarrow> gateway_sys \<Rightarrow> Backend" where
  "backend_of p k s = sp_backends (gs_pools s ! p) ! k"

definition has_backend :: "nat \<Rightarrow> nat \<Rightarrow> gateway_sys \<Rightarrow> bool" where
  "has_backend p k s \<longleftrightarrow> p < length (gs_pools s) \<and> k < length (sp_backends (gs_pools s ! p))"

definition scan_start :: "gateway_sys \<Rightarrow> lc_scan" where
  "scan_start s = \<lparr>sc_sys = s, sc_next = 0, sc_live = False, sc_minConn = maxInt64, sc_selected = None, sc_read = []\<rparr>"

definition scan_count :: "nat \<Rightarrow> lc_scan \<Rightarrow> lc_scan" where
  "scan_count p c =
     (let k = sc_next c; conn = GetConnections (backend_of p k (sc_sys c));
          c1 = (if go_lt conn (sc_minConn c) then c\<lparr>sc_minConn := conn, sc_selected := Some k\<rparr> else c)
      in c1\<lparr>sc_next := Suc k, sc_live := False, sc_read := sc_read c @ [(k, sc_sys c)]\<rparr>)"

inductive scan_step :: "nat \<Rightarrow> lc_scan \<Rightarrow> lc_scan \<Rightarrow> bool" for p where
  others: "gs_step (sc_sys c) t \<Longrightarrow> scan_step p c (c\<lparr>sc_sys := t\<rparr>)"
| dead: "\<not> sc_live c \<Longrightarrow> has_backend p (sc_next c) (sc_sys c) \<Longrightarrow> \<not> IsAlive (backend_of p (sc_next c) (sc_sys c)) \<Longrightarrow>
    scan_step p c (c\<lparr>sc_next := Suc (sc_next c)\<rparr>)"
| alive: "\<not> sc_live c \<Longrightarrow> has_backend p (sc_next c) (sc_sys c) \<Longrightarrow> IsAlive (backend_of p (sc_next c) (sc_sys c)) \<Longrightarrow>
    scan_step p c (c\<lparr>sc_live := True\<rparr>)"
| read: "sc_live c \<Longrightarrow> has_backend p (sc_next c) (sc_sys c) \<Longrightarrow> scan_step p c (scan_count p c)"

inductive scan_reachable :: "CircuitBreaker \<Rightarrow> ServicePool list \<Rightarrow> nat \<Rightarrow> lc_scan \<Rightarrow> bool" for cb pools p where
  start: "gs_reachable cb pools s \<Longrightarrow> scan_reachable cb pools p (scan_start s)"
| step: "scan_reachable cb pools p c \<Longrightarrow> scan_step p c d \<Longrightarrow> scan_reachable cb pools p d"

text \<open>
  With nothing in between, the scan computes \<open>leastConnections\<close>: from any point it can run
  to the end of the pool on its own steps, and what it has selected then is what the loop
  computes from there.
\<close>

lemma scan_runs:
  assumes "p < length (gs_pools (sc_sys c))" and "\<not> sc_live c"
    and "sc_next c \<le> length (sp_backends (gs_pools (sc_sys c) ! p))"
  shows "\<exists>d. (scan_step p)\<^sup>*\<^sup>* c d \<and> sc_sys d = sc_sys c \<and> sc_next d = length (sp_backends (gs_pools (sc_sys c) ! p)) \<and>
    sc_selected d = leastConnections_loop (drop (sc_next c) (sp_backends (gs_pools (sc_sys c) ! p)))
      (sc_next c) (sc_minConn c) (sc_selected c)"
  using assms
proof (induction "length (sp_backends (gs_pools (sc_sys c) ! p)) - sc_next c" arbitrary: c)
  case 0
  then show ?case by (intro exI [of _ c]) simp
next
  case (Suc n)
  let ?bs = "sp_backends (gs_pools (sc_sys c) ! p)" and ?k = "sc_next c"
  have k: "?k < length ?bs" and hb: "has_backend p ?k (sc_sys c)" using Suc.hyps(2) Suc.prems(1) by (simp_all add: has_backend_def)
  then have bs: "drop ?k ?bs = ?bs ! ?k # drop (Suc ?k) ?bs" by (simp add: Cons_nth_drop_Suc)
  let ?d = "if IsAlive (?bs ! ?k) then scan_count p (c\<lparr>sc_live := True\<rparr>) else c\<lparr>sc_next := Suc ?k\<rparr>"
  have "(scan_step p)\<^sup>*\<^sup>* c ?d"
  proof (cases "IsAlive (?bs ! ?k)")
    case True
    have "scan_step p c (c\<lparr>sc_live := True\<rparr>)" using Suc.prems(2) hb True by (intro scan_step.alive) (simp_all add: backend_of_def)
    moreover have "scan_step p (c\<lparr>sc_live := True\<rparr>) ?d" using hb True scan_step.read [of "c\<lparr>sc_live := True\<rparr>" p] by simp
    ultimately show ?thesis by simp
  next
    case False
    then have "scan_step p c ?d" using Suc.prems(2) hb scan_step.dead [of c p] by (simp add: backend_of_def)
    then show ?thesis by simp
  qed
  moreover have d: "sc_sys ?d = sc_sys c" "sc_next ?d = Suc ?k" "\<not> sc_live ?d"
    using Suc.prems(2) by (simp_all add: scan_count_def Let_def)
  moreover have "leastConnections_loop (drop (Suc ?k) ?bs) (Suc ?k) (sc_minConn ?d) (sc_selected ?d) =
      leastConnections_loop (drop ?k ?bs) ?k (sc_minConn c) (sc_selected c)"
    by (simp add: bs scan_count_def Let_def backend_of_def)
  ultimately show ?case
    using Suc.hyps(1) [of ?d] Suc.hyps(2) Suc.prems(1) k by (metis (no_types, lifting) Suc_diff_Suc Suc_inject Suc_leI
        diff_Suc_Suc rtranclp_trans)
qed

text \<open>
  The invariant of an interleaved scan: the selected backend has the smallest of the counts
  read, and those read before it were larger.
\<close>

abbreviation count_at :: "nat \<Rightarrow> nat \<times> gateway_sys \<Rightarrow> int64" where
  "count_at p x \<equiv> GetConnections (backend_of p (fst x) (snd x))"

definition scan_inv :: "nat \<Rightarrow> lc_scan \<Rightarrow> bool" where
  "scan_inv p c \<longleftrightarrow> gs_inv (sc_sys c) \<and>
     (\<forall>x \<in> set (sc_read c). gs_inv (snd x) \<and> has_backend p (fst x) (snd x) \<and> fst x < sc_next c \<and>
        sint (sc_minConn c) \<le> sint (count_at p x)) \<and>
     0 \<le> sint (sc_minConn c) \<and>
     (\<forall>b. sc_selected c = Some b \<longrightarrow> b < sc_next c \<and>
        (\<forall>x \<in> set (sc_read c). fst x < b \<longrightarrow> sint (sc_minConn c) < sint (count_at p x)))"

lemma busy_count:
  "gs_inv s \<Longrightarrow> has_backend p k s \<Longrightarrow>
   GetConnections (backend_of p k s) = (if \<exists>i. gs_stage s i = Proxying p k then 1 else 0)"
  by (simp add: counters backend_of_def has_backend_def)

lemma scan_inv_step:
  assumes "scan_step p c d" and "scan_inv p c"
  shows "scan_inv p d"
  using assms(1)
proof (cases rule: scan_step.cases)
  case (others t)
  then have "gs_inv t"
    using assms(2) exclusive_step tallied_step by (auto simp: scan_inv_def gs_inv_def)
  with others assms(2) show ?thesis by (simp add: scan_inv_def)
next
  case read
  have inv: "gs_inv (sc_sys c)" using assms(2) by (simp add: scan_inv_def)
  have "0 \<le> sint (GetConnections (backend_of p (sc_next c) (sc_sys c)))"
    using busy_count [OF inv read(3)] by simp
  moreover have seen: "sint (sc_minConn c) \<le> sint (count_at p x)" "fst x < sc_next c" if "x \<in> set (sc_read c)" for x
    using assms(2) that by (simp_all add: scan_inv_def)
  ultimately show ?thesis
    using assms(2) inv read(2,3) seen(1) [THEN less_le_trans [rotated]] unfolding read(1) scan_inv_def scan_count_def Let_def
    by (cases "go_lt (GetConnections (backend_of p (sc_next c) (sc_sys c))) (sc_minConn c)")
      (simp_all add: ball_Un less_imp_le less_SucI linorder_not_less, metis less_SucI less_not_sym)
qed (use assms(2) in \<open>simp_all add: scan_inv_def less_SucI\<close>)

lemma scan_inv_reachable:
  "scan_reachable cb pools p c \<Longrightarrow> idle_pools pools \<Longrightarrow> scan_inv p c"
proof (induction rule: scan_reachable.induct)
  case (start s)
  then show ?case using gs_inv_reachable [of cb pools s] by (simp add: scan_inv_def scan_start_def maxInt64_def)
qed (rule scan_inv_step)

section \<open>Properties\<close>

text \<open>
  C12: the connection counters are exact under concurrency, and never more than one connection is
  open. From the pools of a new router, after any interleaving of any number of requests,
  retries and health checks, the counter of a backend is one if a request is being proxied
  to it and zero otherwise, and at most one backend of all routes has a non-zero counter.
\<close>

theorem connection_counters_exact:
  assumes "gs_reachable cb (sr_pools (build_router lib algo tc cfgs)) s"
    and "p < length (gs_pools s)" and "b < length (sp_backends (gs_pools s ! p))"
  shows "GetConnections (sp_backends (gs_pools s ! p) ! b) = (if \<exists>i. gs_stage s i = Proxying p b then 1 else 0) \<and>
    (\<forall>q c. q < length (gs_pools s) \<and> c < length (sp_backends (gs_pools s ! q)) \<and>
       GetConnections (sp_backends (gs_pools s ! p) ! b) \<noteq> 0 \<and>
       GetConnections (sp_backends (gs_pools s ! q) ! c) \<noteq> 0 \<longrightarrow> q = p \<and> c = b)"
proof -
  have inv: "gs_inv s" using built_inv [OF assms(1)] by simp
  have "q = p \<and> c = b"
    if "q < length (gs_pools s)" "c < length (sp_backends (gs_pools s ! q))"
      "GetConnections (sp_backends (gs_pools s ! p) ! b) \<noteq> 0"
      "GetConnections (sp_backends (gs_pools s ! q) ! c) \<noteq> 0" for q c
    using that counters [OF inv assms(2,3)] counters [OF inv that(1,2)] one_proxied [OF inv]
    by (metis (full_types))
  with counters [OF inv assms(2,3)] show ?thesis by blast
qed

text \<open>Three backends, and a state in which a request is being proxied to the first.\<close>

definition example_cluster :: ServiceRouter where
  "example_cluster = build_router example_urls ''least-conn'' example_config
     [(example_route [] ''/api'' ''a:1'')\<lparr>ro_Targets := [''b:1'', ''c:1'']\<rparr>]"

definition example_busy :: gateway_sys where
  "example_busy = \<lparr>gs_mu = Some 7, gs_stage = (\<lambda>_. Resting)(7 := Proxying 0 0), gs_cb = NewCircuitBreaker 2 second,
     gs_pools = at_backend IncConnections 0 0 (sr_pools example_cluster)\<rparr>"

lemma example_busy_reachable: "gs_reachable (NewCircuitBreaker 2 second) (sr_pools example_cluster) example_busy"
proof -
  let ?cb = "NewCircuitBreaker 2 second" and ?pools = "sr_pools example_cluster"
  let ?s0 = "gs_init ?cb ?pools"
  let ?s1 = "?s0\<lparr>gs_stage := (gs_stage ?s0)(7 := Chosen 0 0), gs_pools := (gs_pools ?s0)[0 := gs_pools ?s0 ! 0]\<rparr>"
  let ?s2 = "?s1\<lparr>gs_mu := Some 7, gs_stage := (gs_stage ?s1)(7 := Holding 0 0)\<rparr>"
  let ?s3 = "?s2\<lparr>gs_stage := (gs_stage ?s2)(7 := Proxying 0 0), gs_cb := ?cb,
      gs_pools := at_backend IncConnections 0 0 (gs_pools ?s2)\<rparr>"
  have s1: "gs_step ?s0 ?s1" by (rule gs_step.choose) (simp_all add: gs_init_def)
  have s2: "gs_step ?s1 ?s2" by (rule gs_step.lock) (simp_all add: gs_init_def)
  have s3: "gs_step ?s2 ?s3"
    by (rule gs_step.enter [of _ _ _ _ 0]) (simp_all add: gs_init_def admit_def NewCircuitBreaker_def)
  have busy: "?s3 = example_busy" by (simp add: gs_init_def example_busy_def)
  from gs_reachable.step [OF gs_reachable.step [OF gs_reachable.step [OF gs_reachable.start s1] s2] s3]
  show ?thesis by (simp only: busy)
qed

lemma example_busy_shape:
  "length (gs_pools example_busy) = 1" "length (sp_backends (gs_pools example_busy ! 0)) = 3"
  "leastConnections (gs_pools example_busy ! 0) = Some 1" "sp_algo (gs_pools example_busy ! 0) = ''least-conn''"
  by code_simp+

theorem connection_counters_exact_witness:
  "GetConnections (sp_backends (gs_pools example_busy ! 0) ! 1) =
     (if \<exists>i. gs_stage example_busy i = Proxying 0 1 then 1 else 0)"
  using connection_counters_exact [OF example_busy_reachable [unfolded example_cluster_def], of 0 1]
  by (simp add: example_busy_shape)

text \<open>
  C13: least-connections balancing passes over a live backend only while it is the busy one.
  The scan reads the backends one by one while other requests, retries and health checks go
  on. Whatever it has selected at any moment, every backend before the selected one whose
  counter it read was, at that moment, the one a request was being proxied to. Since only
  one backend of all routes is busy at a time, the selected backend is the first or the
  second of the live ones unless a counter changed during the scan.
\<close>

theorem least_conn_skips_only_busy:
  assumes "scan_reachable cb (sr_pools (build_router lib algo tc cfgs)) p c" and "sc_selected c = Some b"
  shows "(\<forall>(j, s) \<in> set (sc_read c). j < b \<longrightarrow> (\<exists>i. gs_stage s i = Proxying p j)) \<and>
    ((\<exists>cs. \<forall>(j, s) \<in> set (sc_read c). counts (gs_pools s) = cs) \<longrightarrow> card {j \<in> fst ` set (sc_read c). j < b} \<le> 1)"
proof -
  have inv: "scan_inv p c" using scan_inv_reachable [OF assms(1) idle_build_router] .
  have busy: "\<exists>i. gs_stage s i = Proxying p j" if "(j, s) \<in> set (sc_read c)" "j < b" for j s
  proof -
    have "gs_inv s" "has_backend p j s" "sint (sc_minConn c) < sint (count_at p (j, s))" "0 \<le> sint (sc_minConn c)"
      using inv that assms(2) by (auto simp: scan_inv_def)
    with busy_count [of s p j] show ?thesis by (auto split: if_splits)
  qed
  have "card {j \<in> fst ` set (sc_read c). j < b} \<le> 1" if cs: "\<forall>(j, s) \<in> set (sc_read c). counts (gs_pools s) = cs" for cs
  proof -
    have "j = k" if j: "(j, s) \<in> set (sc_read c)" "j < b" and k: "(k, t) \<in> set (sc_read c)" "k < b" for j k s t
    proof -
      have "counts (gs_pools s) = counts (gs_pools t)" "gs_inv s" "gs_inv t" "has_backend p j s"
        using bspec [OF cs j(1)] bspec [OF cs k(1)] inv j(1) k(1) by (auto simp: scan_inv_def)
      with same_busy [of s t p j] has_backend_def busy [OF j] busy [OF k] one_proxied [of t] show ?thesis by metis
    qed
    then show ?thesis by (auto simp: card_le_Suc0_iff_eq)
  qed
  with busy show ?thesis by blast
qed

text \<open>A scan of the three backends while a request is being proxied to the first.\<close>

theorem least_conn_skips_only_busy_witness:
  "\<exists>c. scan_reachable (NewCircuitBreaker 2 second) (sr_pools example_cluster) 0 c \<and> sc_selected c = Some 1 \<and>
     sc_next c = 3 \<and> (\<forall>(j, s) \<in> set (sc_read c). j < 1 \<longrightarrow> (\<exists>i. gs_stage s i = Proxying 0 j))"
proof -
  let ?c = "scan_start example_busy" and ?cb = "NewCircuitBreaker 2 second"
  obtain d where d: "(scan_step 0)\<^sup>*\<^sup>* ?c d" "sc_next d = 3" "sc_selected d = Some 1"
    using scan_runs [of 0 ?c] example_busy_shape by (auto simp: scan_start_def leastConnections_def)
  have "scan_reachable ?cb (sr_pools example_cluster) 0 d"
    using d(1)
    by (induction rule: rtranclp_induct) (auto intro: scan_reachable.intros example_busy_reachable)
  with least_conn_skips_only_busy [of ?cb _ _ _ _ 0 d 1, OF this [unfolded example_cluster_def] d(3)] d show ?thesis
    by blast
qed

text \<open>
  C15: the requests cannot deadlock. In every reachable state, a request that is under way can make a
  step, or it waits for the mutex and the request that holds it can make one.
\<close>

theorem requests_make_progress:
  assumes "gs_reachable cb (sr_pools (build_router lib algo tc cfgs)) s" and "gs_stage s i \<noteq> Resting"
  shows "\<exists>j t. gs_step s t \<and> gs_stage t j \<noteq> gs_stage s j \<and> (j = i \<or> gs_mu s = Some j)"
proof -
  have ex: "exclusive (gs_mu s) (gs_stage s)" using built_inv [OF assms(1)] by (simp add: gs_inv_def)
  have moves: "\<exists>t. gs_step s t \<and> gs_stage t j \<noteq> gs_stage s j" if "inside (gs_stage s j)" for j
  proof (cases "gs_stage s j")
    case (Holding p b)
    show ?thesis
      by (cases "admit 0 (gs_cb s)")
        (use gs_step.refuse [OF Holding] gs_step.enter [OF Holding] Holding in \<open>force+\<close>)
  next
    case (Unwinding p b)
    from gs_step.settle [OF this, of 0 Success] Unwinding show ?thesis by force
  qed (use that gs_step.unwind in \<open>force+\<close>)
  show ?thesis
  proof (cases "gs_stage s i")
    case (Chosen p b)
    show ?thesis
    proof (cases "gs_mu s")
      case None
      from gs_step.lock [OF Chosen None] Chosen show ?thesis by force
    next
      case (Some j)
      with ex have "inside (gs_stage s j)" by (simp add: exclusive_def)
      with moves Some show ?thesis by blast
    qed
  next
    case (Failing p b)
    from gs_step.fail [OF this, of 0] Failing show ?thesis by force
  next
    case (Retrying p)
    from gs_step.give_up [OF this] Retrying show ?thesis by force
  qed (use assms(2) moves [of i] in \<open>(metis inside.simps(1,2,3))+\<close>)
qed

theorem requests_make_progress_witness:
  "\<exists>j t. gs_step example_busy t \<and> gs_stage t j \<noteq> gs_stage example_busy j \<and> (j = 7 \<or> gs_mu example_busy = Some j)"
proof -
  have "gs_stage example_busy 7 \<noteq> Resting" by (simp add: example_busy_def)
  with requests_make_progress [OF example_busy_reachable [unfolded example_cluster_def]] show ?thesis by blast
qed

end
