(* ===== verification/Limiter_Objects.thy ===== *)
theory Limiter_Objects
  imports Edge_Protection
begin

text \<open>
  The rate limiter of \<open>middleware.go\<close> under concurrency. \<open>GetLimiter\<close> returns a pointer and
  releases the mutex of the map; the caller's \<open>Allow\<close> (\<open>main.go\<close>) works on the limiter
  behind the pointer, which an eviction pass may have dropped from the map in the meantime.
  Limiters are therefore objects in a store, the map holds their addresses, and a request
  holds an address between its two calls.
\<close>

section \<open>The store\<close>

record ('r, 'l) limiter_store =
  ls_ips :: "string \<rightharpoonup> nat"
  ls_objs :: "'l list"
  ls_held :: "nat \<rightharpoonup> nat"
  ls_r :: 'r
  ls_b :: goint

definition new_store :: "'r \<Rightarrow> goint \<Rightarrow> ('r, 'l) limiter_store" where
  "new_store r b = \<lparr>ls_ips = Map.empty, ls_objs = [], ls_held = Map.empty, ls_r = r, ls_b = b\<rparr>"

text \<open>\<open>limiter := g.rateLimiter.GetLimiter(ip)\<close> of request \<open>i\<close>.\<close>

definition obj_GetLimiter ::
  "('r, 'l, 'f) rate_lib \<Rightarrow> nat \<Rightarrow> string \<Rightarrow> ('r, 'l) limiter_store \<Rightarrow> ('r, 'l) limiter_store" where
  "obj_GetLimiter lib i ip s =
     (case ls_ips s ip of
        Some a \<Rightarrow> s\<lparr>ls_held := (ls_held s)(i \<mapsto> a)\<rparr>
      | None \<Rightarrow>
          let a = length (ls_objs s)
          in s\<lparr>ls_objs := ls_objs s @ [rl_NewLimiter lib (ls_r s) (ls_b s)], ls_ips := (ls_ips s)(ip \<mapsto> a),
               ls_held := (ls_held s)(i \<mapsto> a)\<rparr>)"

text \<open>\<open>limiter.Allow()\<close> of request \<open>i\<close>, which has no use for the pointer afterwards.\<close>

definition obj_Allow ::
  "('r, 'l, 'f) rate_lib \<Rightarrow> instant \<Rightarrow> nat \<Rightarrow> ('r, 'l) limiter_store \<Rightarrow> ('r, 'l) limiter_store \<times> bool option" where
  "obj_Allow lib now i s =
     (case ls_held s i of
        None \<Rightarrow> (s, None)
      | Some a \<Rightarrow>
          (case rl_Allow lib now (ls_objs s ! a) of (l, ok) \<Rightarrow>
             (s\<lparr>ls_objs := (ls_objs s)[a := l], ls_held := (ls_held s)(i := None)\<rparr>, Some ok)))"

definition obj_cleanup :: "('r, 'l, 'f) rate_lib \<Rightarrow> instant \<Rightarrow> ('r, 'l) limiter_store \<Rightarrow> ('r, 'l) limiter_store" where
  "obj_cleanup lib now s = s\<lparr>ls_ips := (\<lambda>ip. case ls_ips s ip of
       None \<Rightarrow> None
     | Some a \<Rightarrow> if rl_Tokens lib now (ls_objs s ! a) = rl_float64 lib (ls_b s) then None else Some a)\<rparr>"

datatype limiter_call = CallGet nat string | CallAllow nat

fun obj_step ::
  "('r, 'l, 'f) rate_lib \<Rightarrow> instant \<Rightarrow> ('r, 'l) limiter_store \<Rightarrow> limiter_call \<Rightarrow>
   ('r, 'l) limiter_store \<times> bool option" where
  "obj_step lib now s (CallGet i ip) = (obj_GetLimiter lib i ip s, None)"
| "obj_step lib now s (CallAllow i) = obj_Allow lib now i s"

section \<open>The map of limiters as an abstraction\<close>

definition abs_store :: "('r, 'l) limiter_store \<Rightarrow> ('r, 'l) IPRateLimiter" where
  "abs_store s = \<lparr>ipl_ips = (\<lambda>ip. map_option (nth (ls_objs s)) (ls_ips s ip)), ipl_r = ls_r s, ipl_b = ls_b s\<rparr>"

text \<open>Addresses are in range, and no two IPs share a limiter.\<close>

definition store_wf :: "('r, 'l) limiter_store \<Rightarrow> bool" where
  "store_wf s \<longleftrightarrow> (\<forall>ip a. ls_ips s ip = Some a \<longrightarrow> a < length (ls_objs s)) \<and>
     (\<forall>ip ip' a. ls_ips s ip = Some a \<and> ls_ips s ip' = Some a \<longrightarrow> ip = ip')"

lemma store_wf_range: "store_wf s \<Longrightarrow> ls_ips s ip = Some a \<Longrightarrow> a < length (ls_objs s)"
  by (simp add: store_wf_def)

lemma store_wf_inj: "store_wf s \<Longrightarrow> ls_ips s ip = Some a \<Longrightarrow> ls_ips s ip' = Some a \<Longrightarrow> ip' = ip"
  unfolding store_wf_def by blast

lemma store_wf_new: "store_wf (new_store r b)"
  by (simp add: store_wf_def new_store_def)

lemma store_wf_Get: "store_wf s \<Longrightarrow> store_wf (obj_GetLimiter lib i ip s)"
  unfolding store_wf_def obj_GetLimiter_def Let_def
  by (cases "ls_ips s ip") (auto split: if_splits simp: less_Suc_eq)

lemma store_wf_Allow: "store_wf s \<Longrightarrow> store_wf (fst (obj_Allow lib t i s))"
  unfolding store_wf_def obj_Allow_def by (auto split: option.split prod.split)

lemma store_wf_cleanup: "store_wf s \<Longrightarrow> store_wf (obj_cleanup lib t s)"
  unfolding store_wf_def obj_cleanup_def by (auto split: option.splits if_splits)

lemma abs_Get:
  assumes "store_wf s"
  shows "abs_store (obj_GetLimiter lib i ip s) = fst (GetLimiter lib (abs_store s) ip)"
proof (cases "ls_ips s ip")
  case None
  have "map_option (nth (ls_objs s @ [l])) (ls_ips s ip') = map_option (nth (ls_objs s)) (ls_ips s ip')" for l ip'
    using store_wf_range [OF assms, of ip'] by (cases "ls_ips s ip'") (simp_all add: nth_append)
  with None show ?thesis
    by (auto simp: abs_store_def obj_GetLimiter_def GetLimiter_def Let_def fun_eq_iff)
qed (simp add: abs_store_def obj_GetLimiter_def GetLimiter_def)

text \<open>
  \<open>Allow\<close> on a limiter that is still the one of its IP is \<open>Allow\<close> through the map.
\<close>

lemma abs_Allow:
  assumes "store_wf s" and "ls_held s i = Some a" and "ls_ips s ip = Some a"
  shows "abs_store (fst (obj_Allow lib t i s)) = fst (limiter_allow lib t (abs_store s) ip)"
    and "snd (obj_Allow lib t i s) = Some (snd (limiter_allow lib t (abs_store s) ip))"
proof -
  have at: "limiter_at lib (abs_store s) ip = ls_objs s ! a"
    using assms(3) by (simp add: limiter_at_def abs_store_def)
  have "map_option (nth ((ls_objs s)[a := l])) (ls_ips s ip') =
      (if ip' = ip then Some l else map_option (nth (ls_objs s)) (ls_ips s ip'))" for l ip'
    using store_wf_range [OF assms(1,3)] store_wf_inj [OF assms(1,3), of ip'] assms(3)
    by (cases "ls_ips s ip'") (auto simp: nth_list_update)
  then have "(\<lambda>ip'. map_option (nth ((ls_objs s)[a := l])) (ls_ips s ip')) =
      (\<lambda>ip'. map_option (nth (ls_objs s)) (ls_ips s ip'))(ip \<mapsto> l)" for l
    by (simp add: fun_eq_iff)
  then show "abs_store (fst (obj_Allow lib t i s)) = fst (limiter_allow lib t (abs_store s) ip)"
    using assms(2)
    by (simp add: limiter_allow_at at) (simp add: abs_store_def obj_Allow_def split: prod.split)
  show "snd (obj_Allow lib t i s) = Some (snd (limiter_allow lib t (abs_store s) ip))"
    using assms(2) by (simp add: limiter_allow_at at obj_Allow_def split: prod.split)
qed

lemma abs_cleanup: "abs_store (obj_cleanup lib t s) = limiter_cleanup lib t (abs_store s)"
  by (auto simp: abs_store_def obj_cleanup_def limiter_cleanup_def fun_eq_iff split: option.split)

lemma limiter_at_Get: "limiter_at lib (fst (GetLimiter lib i ip)) ip' = limiter_at lib i ip'"
  by (simp add: GetLimiter_def limiter_at_def Let_def split: option.split)

section \<open>Eviction when no limiter is held\<close>

text \<open>
  Two stores in the same situation: their maps answer alike, the same requests are between
  their two calls, and what these hold is in both stores the current limiter of one IP.
\<close>

definition held_alike :: "('r, 'l) limiter_store \<Rightarrow> ('r, 'l) limiter_store \<Rightarrow> bool" where
  "held_alike s s' \<longleftrightarrow> (\<forall>i. ls_held s i = None \<longrightarrow> ls_held s' i = None) \<and>
     (\<forall>i a. ls_held s i = Some a \<longrightarrow>
        (\<exists>ip a'. ls_held s' i = Some a' \<and> ls_ips s ip = Some a \<and> ls_ips s' ip = Some a'))"

lemma held_alike_None: "held_alike s s' \<Longrightarrow> ls_held s i = None \<Longrightarrow> ls_held s' i = None"
  by (simp add: held_alike_def)

lemma held_alike_Some:
  assumes "held_alike s s'" and "ls_held s i = Some a"
  obtains ip a' where "ls_held s' i = Some a'" "ls_ips s ip = Some a" "ls_ips s' ip = Some a'"
  using assms unfolding held_alike_def by blast

definition store_sim ::
  "('r, 'l, 'f) rate_lib \<Rightarrow> 'r \<Rightarrow> goint \<Rightarrow> instant \<Rightarrow> ('r, 'l) limiter_store \<Rightarrow> ('r, 'l) limiter_store \<Rightarrow> bool" where
  "store_sim lib r b t s s' \<longleftrightarrow> store_wf s \<and> store_wf s' \<and> held_alike s s' \<and>
     limiter_sim lib r b t (abs_store s) (abs_store s')"

text \<open>An eviction pass that waits until no request holds a limiter.\<close>

definition undisturbed_cleanup :: "('r, 'l, 'f) rate_lib \<Rightarrow> instant \<Rightarrow> ('r, 'l) limiter_store \<Rightarrow> ('r, 'l) limiter_store" where
  "undisturbed_cleanup lib t s = (if ls_held s = Map.empty then obj_cleanup lib t s else s)"

lemma obj_Get_ips:
  "\<exists>a. ls_ips (obj_GetLimiter lib i ip s) ip = Some a \<and> ls_held (obj_GetLimiter lib i ip s) = (ls_held s)(i \<mapsto> a)"
  "ls_ips s ip' = Some a \<Longrightarrow> ls_ips (obj_GetLimiter lib i ip s) ip' = Some a"
  by (auto simp: obj_GetLimiter_def Let_def split: option.split)

lemma held_alike_Get:
  assumes "held_alike s s'"
  shows "held_alike (obj_GetLimiter lib i ip s) (obj_GetLimiter lib i ip s')"
proof -
  let ?u = "obj_GetLimiter lib i ip s" and ?u' = "obj_GetLimiter lib i ip s'"
  obtain a where a: "ls_ips ?u ip = Some a" "ls_held ?u = (ls_held s)(i \<mapsto> a)"
    using obj_Get_ips(1) by blast
  obtain a' where a': "ls_ips ?u' ip = Some a'" "ls_held ?u' = (ls_held s')(i \<mapsto> a')"
    using obj_Get_ips(1) by blast
  have "\<exists>ip2 c'. ls_held ?u' j = Some c' \<and> ls_ips ?u ip2 = Some c \<and> ls_ips ?u' ip2 = Some c'"
    if c: "ls_held ?u j = Some c" for j c
  proof (cases "j = i")
    case False
    with c a(2) have "ls_held s j = Some c" by simp
    then obtain ip2 c' where "ls_held s' j = Some c'" "ls_ips s ip2 = Some c" "ls_ips s' ip2 = Some c'"
      by (rule held_alike_Some [OF assms])
    with False a'(2) obj_Get_ips(2) show ?thesis by fastforce
  qed (use a a' c in auto)
  moreover have "ls_held ?u' j = None" if "ls_held ?u j = None" for j
    using that held_alike_None [OF assms, of j] a(2) a'(2) by (cases "j = i") simp_all
  ultimately show ?thesis unfolding held_alike_def by blast
qed

lemma held_alike_Allow:
  assumes "held_alike s s'"
  shows "held_alike (fst (obj_Allow lib t i s)) (fst (obj_Allow lib t i s'))"
proof -
  have h: "ls_ips (fst (obj_Allow lib t i u)) = ls_ips u" "ls_held (fst (obj_Allow lib t i u)) = (ls_held u)(i := None)" for u
    by (auto simp: obj_Allow_def split: option.split prod.split)
  from assms show ?thesis unfolding held_alike_def h by (metis fun_upd_apply option.distinct(1))
qed

lemma limiter_sim_Get:
  "limiter_sim lib r b t i i' \<Longrightarrow> limiter_sim lib r b t (fst (GetLimiter lib i ip)) (fst (GetLimiter lib i' ip))"
proof -
  have "ipl_r (fst (GetLimiter lib u ip)) = ipl_r u \<and> ipl_b (fst (GetLimiter lib u ip)) = ipl_b u" for u
    by (simp add: GetLimiter_def Let_def split: option.split)
  then show "limiter_sim lib r b t i i' \<Longrightarrow> ?thesis"
    by (simp add: limiter_sim_def limiter_ok_def limiter_at_Get)
qed

lemma store_sim_Allow:
  assumes law: "refilled_like_new lib r b" and sim: "store_sim lib r b t s s'"
  shows "store_sim lib r b t (fst (obj_Allow lib t i s)) (fst (obj_Allow lib t i s'))"
    and "snd (obj_Allow lib t i s) = snd (obj_Allow lib t i s')"
proof -
  note wf = sim [unfolded store_sim_def]
  have "limiter_sim lib r b t (abs_store (fst (obj_Allow lib t i s))) (abs_store (fst (obj_Allow lib t i s'))) \<and>
    snd (obj_Allow lib t i s) = snd (obj_Allow lib t i s')"
  proof (cases "ls_held s i")
    case None
    with wf have "ls_held s' i = None" using held_alike_None by blast
    with None wf show ?thesis by (simp add: obj_Allow_def)
  next
    case (Some a)
    obtain ip a' where h: "ls_held s' i = Some a'" "ls_ips s ip = Some a" "ls_ips s' ip = Some a'"
      using held_alike_Some [OF _ Some] wf by blast
    obtain u ok where u: "limiter_allow lib t (abs_store s) ip = (u, ok)" by fastforce
    from invisible_cleanup.sim_step [OF limiter_invisible_cleanup [OF law] _ u] wf obtain u' where
      "limiter_allow lib t (abs_store s') ip = (u', ok)" "limiter_sim lib r b t u u'" by blast
    with abs_Allow [OF _ Some h(2), of lib t] abs_Allow [OF _ h(1,3), of lib t] wf u show ?thesis by simp
  qed
  then show "store_sim lib r b t (fst (obj_Allow lib t i s)) (fst (obj_Allow lib t i s'))"
    "snd (obj_Allow lib t i s) = snd (obj_Allow lib t i s')"
    using wf by (simp_all add: store_sim_def store_wf_Allow held_alike_Allow)
qed

lemma undisturbed_cleanup_invisible:
  assumes law: "refilled_like_new lib r b"
  shows "invisible_cleanup (\<lambda>s. s = new_store r b) (store_sim lib r b) (obj_step lib) (undisturbed_cleanup lib)"
proof
  fix t s s'
  assume "s = (new_store r b :: ('a, 'b) limiter_store)"
  moreover have "abs_store (new_store r b :: ('a, 'b) limiter_store) = NewIPRateLimiter r b"
    by (simp add: abs_store_def new_store_def NewIPRateLimiter_def)
  ultimately show "store_sim lib r b t s s"
    using invisible_cleanup.sim_refl [OF limiter_invisible_cleanup [OF law] limiter_ok_new, of t]
    by (simp add: store_sim_def store_wf_new) (simp add: held_alike_def new_store_def)
next
  fix t t' s s'
  show "store_sim lib r b t s s' \<Longrightarrow> t \<le> t' \<Longrightarrow> store_sim lib r b t' s s'"
    using invisible_cleanup.sim_later [OF limiter_invisible_cleanup [OF law]] unfolding store_sim_def by blast
next
  fix t s s'
  assume sim: "store_sim lib r b t s s'"
  show "store_sim lib r b t (undisturbed_cleanup lib t s) s'"
  proof (cases "ls_held s = Map.empty")
    case True
    then have "ls_held (obj_cleanup lib t s) = Map.empty" by (simp add: obj_cleanup_def)
    with True sim have "held_alike (obj_cleanup lib t s) s'" by (simp add: store_sim_def held_alike_def)
    with True sim limiter_sim_cleanup [OF law] show ?thesis
      by (simp add: store_sim_def undisturbed_cleanup_def store_wf_cleanup abs_cleanup)
  qed (use sim in \<open>simp add: undisturbed_cleanup_def\<close>)
next
  fix t s s' e u ok
  assume sim: "store_sim lib r b t s s'" and st: "obj_step lib t s e = (u, ok)"
  show "\<exists>u'. obj_step lib t s' e = (u', ok) \<and> store_sim lib r b t u u'"
  proof (cases e)
    case (CallGet i ip)
    with st sim show ?thesis
      by (auto simp: store_sim_def store_wf_Get held_alike_Get abs_Get limiter_sim_Get)
  next
    case (CallAllow i)
    with st store_sim_Allow [OF law sim, of i] show ?thesis by (cases "obj_Allow lib t i s'") simp
  qed
qed

text \<open>
  A schedule is undisturbed if every eviction pass falls in a moment at which no request is between
  its two calls; the set lists the requests that are.
\<close>

fun undisturbed :: "nat set \<Rightarrow> (instant \<times> limiter_call option) list \<Rightarrow> bool" where
  "undisturbed H [] \<longleftrightarrow> True"
| "undisturbed H ((t, None) # evs) \<longleftrightarrow> H = {} \<and> undisturbed H evs"
| "undisturbed H ((t, Some (CallGet i ip)) # evs) \<longleftrightarrow> undisturbed (insert i H) evs"
| "undisturbed H ((t, Some (CallAllow i)) # evs) \<longleftrightarrow> undisturbed (H - {i}) evs"

lemma undisturbed_schedule:
  "undisturbed (dom (ls_held s)) evs \<Longrightarrow>
   timed_answers (obj_step lib) (obj_cleanup lib) s evs = timed_answers (obj_step lib) (undisturbed_cleanup lib) s evs"
proof (induction "dom (ls_held s)" evs arbitrary: s rule: undisturbed.induct)
  case (2 t evs)
  then have "ls_held s = Map.empty" by simp
  with 2 show ?case by (simp add: undisturbed_cleanup_def obj_cleanup_def)
next
  case (3 t i ip evs)
  have "dom (ls_held (obj_GetLimiter lib i ip s)) = insert i (dom (ls_held s))"
    using obj_Get_ips(1) [of lib i ip s] by auto
  with 3 show ?case by simp
next
  case (4 t i evs)
  obtain u ok where u: "obj_Allow lib t i s = (u, ok)" by fastforce
  then have "dom (ls_held u) = dom (ls_held s) - {i}"
    by (auto simp: obj_Allow_def split: option.splits prod.splits if_splits)
  with 4 u show ?case by simp
qed simp

lemma undisturbed_filter: "undisturbed H (filter (\<lambda>ev. snd ev \<noteq> None) evs)"
proof (induction evs arbitrary: H)
  case (Cons ev evs)
  obtain t e where "ev = (t, e)" by fastforce
  with Cons show ?case by (cases e rule: option.exhaust; cases "the e") auto
qed simp

section \<open>Properties\<close>

text \<open>
  C20: evicting idle rate limiters changes no admission if it does not fall between the two
  calls of a request. If a refilled token bucket behaves like a new one, then in any schedule
  of requests from any IPs, their two calls interleaved in any way, and eviction passes at
  moments at which no request holds a limiter, every request is admitted or refused as
  if limiters were never evicted.
\<close>

theorem limiter_eviction_unobservable:
  assumes "refilled_like_new lib r b" and "sorted (map fst evs)" and "undisturbed {} evs"
  shows "timed_answers (obj_step lib) (obj_cleanup lib) (new_store r b) evs =
    timed_answers (obj_step lib) (obj_cleanup lib) (new_store r b) (filter (\<lambda>ev. snd ev \<noteq> None) evs)"
proof -
  have none: "dom (ls_held (new_store r b :: ('a, 'b) limiter_store)) = {}" by (simp add: new_store_def)
  have "timed_answers (obj_step lib) (obj_cleanup lib) (new_store r b) xs =
      timed_answers (obj_step lib) (undisturbed_cleanup lib) (new_store r b) xs" if "undisturbed {} xs" for xs
    using that by (intro undisturbed_schedule) (simp add: none)
  from this [OF assms(3)] this [OF undisturbed_filter]
    invisible_cleanup.cleanup_unobservable [OF undisturbed_cleanup_invisible [OF assms(1)] refl assms(2)]
  show ?thesis by simp
qed

theorem limiter_eviction_unobservable_witness:
  "timed_answers (obj_step example_bucket) (obj_cleanup example_bucket) (new_store () 1)
     [(0, Some (CallGet 1 ''ip'')), (0, Some (CallGet 2 ''ip'')), (5, Some (CallAllow 2)), (5, Some (CallAllow 1)),
      (600000000000, None), (600000000000, Some (CallGet 3 ''ip'')), (600000000000, Some (CallAllow 3))] =
   timed_answers (obj_step example_bucket) (obj_cleanup example_bucket) (new_store () 1)
     [(0, Some (CallGet 1 ''ip'')), (0, Some (CallGet 2 ''ip'')), (5, Some (CallAllow 2)), (5, Some (CallAllow 1)),
      (600000000000, Some (CallGet 3 ''ip'')), (600000000000, Some (CallAllow 3))]"
proof -
  let ?evs = "[(0, Some (CallGet 1 ''ip'')), (0, Some (CallGet 2 ''ip'')), (5, Some (CallAllow 2)), (5, Some (CallAllow 1)),
      (600000000000, None), (600000000000, Some (CallGet 3 ''ip'')), (600000000000, Some (CallAllow 3))]"
  have "undisturbed {} ?evs" by auto
  from limiter_eviction_unobservable [OF example_bucket_refills [of 1] _ this] show ?thesis
    by (simp del: timed_answers.simps)
qed

text \<open>
  Between the two calls eviction does change an admission. The limiter of a new client is
  full, so a pass that runs after the client's \<open>GetLimiter\<close> and before its \<open>Allow\<close> drops it
  from the map; the token is taken from the dropped limiter, and with a burst of one
  the client's next request, at the same instant, is admitted by a fresh one. Without the
  pass it is refused.
\<close>

theorem eviction_races_with_allow:
  "let calls = (\<lambda>tick. [(0, Some (CallGet 1 ''ip''))] @ tick @
         [(0, Some (CallAllow 1)), (0, Some (CallGet 2 ''ip'')), (0, Some (CallAllow 2))]);
       answers = timed_answers (obj_step example_bucket) (obj_cleanup example_bucket) (new_store () 1)
   in answers (calls [(0, None)]) = [None, Some True, None, Some True] \<and>
      answers (calls []) = [None, Some True, None, Some False]"
  by code_simp

end
