(* ===== verification/Spec2Isabelle.thy ===== *)
theory Spec2Isabelle
  imports Startup_Log Request_Trace Concurrent_Requests Limiter_Objects
begin

text \<open>
  A verification development of vxapigateway, an HTTP API gateway written in Go. The program
  is one process: a handler that checks, routes and proxies requests, the objects it uses,
  some admin endpoints, a terminal dashboard and a system monitor.

  \<^bold>\<open>The program and how its parts interact.\<close> \<open>main\<close> reads the configuration from the
  environment (\<open>config.go\<close>), builds a \<open>Gateway\<close> from it, starts the health-check scheduler and
  the dashboard, and serves requests until a signal arrives. A request passes the two header
  middlewares (\<open>middleware.go\<close>) and the multiplexer of \<open>main\<close>; what the multiplexer does not
  send to an endpoint of its own goes to \<open>Gateway.ServeHTTP\<close>. That handler asks the DDoS
  guard and the rate limiter of the client's address, looks up a route (\<open>routing.go\<close>),
  authenticates, consults the cache (\<open>handlers.go\<close>), takes a backend from the route's pool and
  proxies the request inside \<open>CircuitBreaker.Call\<close>, up to three times, through a response
  recorder (\<open>recorder.go\<close>) that tells whether a retry is still possible. The scheduler, the
  dashboard and the health endpoint read and change the same pools.

  \<^bold>\<open>Theories.\<close> The order is that of the imports.

    \<^item> \<open>Prelude\<close>: Go's integers as words, panics as values (\<open>go_panic + 'a\<close>), fact
      collections; the interfaces \<open>invariant_machine\<close> (steps that keep an invariant),
      \<open>invisible_cleanup\<close> (a pass no later operation can observe), \<open>weak_order\<close> (the
      comparisons given to Go's sorts) and \<open>slice_sorter\<close> (what \<open>sort.Slice\<close> promises, met by
      the insertion sort \<open>SliceStable\<close>).
    \<^item> \<open>Go_Strings\<close>, \<open>Go_Text\<close>, \<open>Go_Float\<close>, \<open>Go_Http\<close>, \<open>Go_Json\<close>: what the sources use of the
      standard library: byte strings, UTF-8 with \<open>range\<close>, \<open>strings.Repeat\<close> and padding, \<open>float64\<close>
      with correct rounding, requests, headers and response writers, and JSON documents.
    \<^item> \<open>Collectors\<close> (\<open>metrics.go\<close> and the collectors of \<open>system_monitor.go\<close>): declarations and
      registration of the metrics, and the contracts of the Prometheus library.
    \<^item> \<open>Recorder\<close> (\<open>recorder.go\<close>): all methods of \<open>responseRecorder\<close>.
    \<^item> \<open>Backend_Pool\<close> and \<open>Load_Balancing\<close> (\<open>routing.go\<close>, first half): \<open>Backend\<close>,
      \<open>ServicePool\<close>, the four algorithms, health checks and probes; the second theory holds
      their contract (locale \<open>balancer\<close>) and its interpretations.
    \<^item> \<open>Circuit_Breaker\<close>, \<open>Edge_Protection\<close>, \<open>Auth\<close> (\<open>middleware.go\<close>): \<open>CircuitBreaker.Call\<close> as
      \<open>admit\<close> and \<open>settle\<close> around the protected function, also for concurrent callers and a
      reader of the state, \<open>GetState_step\<close>, that needs the mutex; limiter and DDoS guard with
      their clean-up passes; JWT, API keys, header middlewares, client address, public paths.
    \<^item> \<open>Limiter_Objects\<close> (\<open>middleware.go\<close>, \<open>main.go\<close>): the rate limiters as shared objects, with
      \<open>GetLimiter\<close> and \<open>Allow\<close> as two steps and the eviction pass as a third, in any order.
    \<^item> \<open>Config\<close> (\<open>config.go\<close>): typed readers of variables and the three sources of routes.
    \<^item> \<open>Router\<close> (\<open>routing.go\<close>, second half): host patterns, registration, the sorted table,
      lookup and the request rewriting of the backend proxies.
    \<^item> \<open>Cache\<close>, \<open>Compression\<close>, \<open>Admin\<close> (\<open>handlers.go\<close>): the response cache, the gzip wrapper, and
      the health, statistics, whitelist and blacklist endpoints.
    \<^item> \<open>Gateway\<close> (\<open>main.go\<close>): \<open>NewGateway\<close> and \<open>ServeHTTP\<close>, split at the places where the code
      goes from one phase to the next: \<open>authorize\<close>, \<open>serve_cached\<close>, \<open>dispatch\<close>, \<open>attempt_loop\<close>,
      \<open>proxy_attempt\<close>, \<open>finish\<close>, \<open>leave\<close>. \<open>Gateway_Retry\<close> holds what is proved of the retry loop.
    \<^item> \<open>Concurrent_Requests\<close> (\<open>main.go\<close>): the same loop for any number of concurrent requests, as
      a step relation whose steps are the atomic operations and critical sections; and a
      least-connections scan that reads one counter at a time between such steps.
    \<^item> \<open>Ansi\<close>, \<open>Logger\<close> (\<open>logger.go\<close>): escape sequences and \<open>stripANSI\<close>; levels, log lines and the
      banner, as the list of writes a call makes.
    \<^item> \<open>System_Monitor\<close> (\<open>system_monitor.go\<close>): collecting metrics and the handler of \<open>/monitor\<close>.
    \<^item> \<open>Dashboard\<close>, \<open>Live_Dashboard\<close> (\<open>dashboard.go\<close>): counters, widgets and start-up banner; the
      live screen, and \<open>Start\<close>, \<open>Stop\<close> and the refresh goroutine as a step relation.
    \<^item> \<open>Server\<close> (\<open>main.go\<close>): the multiplexer and the handler chain, the health-check scheduler
      and the end of the process.
    \<^item> \<open>Startup\<close> (\<open>main.go\<close>, \<open>logger.go\<close>, \<open>metrics.go\<close>, \<open>handlers.go\<close>): the \<open>init\<close> functions in the
      order the language runs them, the \<open>.env\<close> file, the tracer, and \<open>main\<close> from the
      configuration to the server.
    \<^item> \<open>Component_Logs\<close>, \<open>Request_Trace\<close>, \<open>Startup_Log\<close> (the log and tracing calls of all files):
      for every operation that logs a definition \<open>..._entries\<close> of its calls, and the interface
      \<open>log_reader\<close> between a component and a reader of its log, interpreted for the breaker and
      the health checks; the calls on logger and span along the branches of \<open>ServeHTTP\<close>
      (\<open>..._trace\<close>); the log of a start and of the end of the process.

  A struct is a record whose fields carry a prefix, a method a function from the record to
  the changed record, a pointer to a shared object an index into a store (pools in the
  router, backends in a pool), a panic the left value of a sum, an error an option or a value
  of its own. Definitions have the name of the Go function; a prefix such as \<open>rr_\<close>, \<open>lg_\<close> or
  \<open>cache_\<close> tells methods of the same name apart, and a part of a long function has a name of
  its own (\<open>Route_loop\<close>, \<open>frame_cpu\<close>).

  \<^bold>\<open>What the theorems show.\<close>

    \<^item> Routing: a lookup returns the most specific covering route and equals a search of the
      registration list; matched routes have usable pools; matching goes by path segments and
      ignores the spelling of hosts; configured variables are read back as written.
    \<^item> Load balancing: all algorithms meet one contract (no panic, only live backends, none
      only if all are down); round robin and weighted balancing are exactly fair, least-conn
      is minimal, ip-hash sticky; recorded failures do not influence any choice; a counter
      beyond \<open>2\<^sup>6\<^sup>3\<close> panics.
    \<^item> Breaker: the state and count invariant over all call sequences, opening at the limit,
      and, over all interleavings of callers, mutual exclusion of the protected function.
    \<^item> Edge: thresholds and block times are exact, access lists permanent; the clean-up of the
      DDoS guard cannot be observed in any answer, the eviction of rate limiters only if it
      falls between a request's \<open>GetLimiter\<close> and its \<open>Allow\<close>, where it can.
    \<^item> Gateway: no leaked connection count; one counted status per request, the one the client
      got unless the upstream sent an interim status; protected routes guarded, at most three
      attempts, retries that hide failures, and what retries do to the backend choice of a
      lone request and to \<open>X-Forwarded-For\<close>; a path that is not UTF-8 aborts the handler,
      because it is used as a metric label.
    \<^item> Concurrency: over all interleavings the connection counters are exact and at most one is
      non-zero; a least-connections scan passes over a live backend only while that one is
      busy, so the default algorithm stays with the first two live backends unless a counter
      changes during the scan; no request can be stuck.
    \<^item> Start-up: the collectors are registered without a panic; a \<open>.env\<close> file is the same as
      exported variables except for the logger, which is initialised before it is loaded.
    \<^item> Observability: the outcome line of a request carries or determines the counted status; each
      request has one well-formed span whose tags agree with that status, two kinds of failure
      being left unmarked; the states of breaker
      and upstreams can be replayed from the log at the default level; the start-up log names
      the routes in use and the last line of the log the exit status; no top-level setting is
      replaced by its default silently.
    \<^item> Server: the health endpoint works whatever the limits say, once no request holds the
      breaker's mutex; a request is redirected at most once; with encoded dot segments behind a
      public prefix a protected route is served without a login; what is true of the terminal
      and of the gateway's resources when the process exits.
    \<^item> Handlers: the effect of the admin endpoints; a gzip response decompresses to the plain
      one, if no Content-Length is declared, and can lose its body otherwise; what the recorder
      reports, for every sequence of calls, against what reached the wire.
    \<^item> Terminal and monitor: log lines have their layout and coloured and plain lines agree;
      the request ring, bars, sparklines and uptime are exact despite rounding; drawing a
      frame does not panic; \<open>Stop\<close> ends the refresh goroutine and leaves a visible cursor; the process
      list has the busiest processes; a vanished process panics the monitor.

  \<^bold>\<open>Parameters and hypotheses.\<close> Code outside the repository is an argument of the definitions
  that use it: clock readings; \<open>url.Parse\<close>, \<open>URL.String\<close> and \<open>EscapedPath\<close>; the JSON
  decoder and the text of encoded documents; \<open>time.ParseDuration\<close>; the JWT library; SHA-256;
  Redis; the quoting verb \<open>%q\<close> in error texts; the token bucket of \<open>x/time/rate\<close>; gzip; gopsutil; \<open>sort.Slice\<close>; the Prometheus registry
  and its test of label values; \<open>godotenv.Load\<close>; the Jaeger client; the reverse proxy of
  \<open>httputil\<close>, given by what each attempt writes and whether it fails; probes of the health
  check. Theorems that rely on them name what they rely on, for example that a digest has 32
  bytes, that a refilled token bucket behaves like a new one, or that decompression inverts
  compression, and their witnesses use concrete functions.

  \<^bold>\<open>Modelling choices and bounds.\<close> Integers have their width (\<open>int\<close> and \<open>int64\<close> are 64-bit words
  read as signed) where the sources do arithmetic on them; instants are unbounded integers in
  nanoseconds. Strings are lists of bytes; case mapping is that of ASCII. A \<open>float64\<close> has one
  zero, and conversion of a float out of range to an integer is that of amd64. A response
  writer keeps a declared Content-Length and refuses what goes beyond it, as \<open>net/http\<close> does.
  \<open>ServeHTTP\<close> is modelled for one request at a time: its definitions do not let other requests
  or health checks run between two of its calls or while it sleeps before a retry. What
  depends on interleaving is stated over step relations instead: callers of the breaker,
  requests on shared pools with the least-connections scan, the rate limiters, the dashboard
  and the end of the process. Loops are structural recursions or have a termination proof;
  there is no fuel. The retry loop runs over the list of its three attempts.

  \<^bold>\<open>Not modelled.\<close> What the Jaeger client does with a span; the values of the latency histogram
  (the labels are modelled); sockets and the effect of the timeouts of \<open>http.Server\<close>; the text of
  the HTML page of the monitor. Log calls have no effect on the state; they are kept apart from
  the operations that make them, in the theories on logs and traces.
\<close>

end
